(* ===== verification/Prelude.thy ===== *)
theory Prelude
  imports Main "HOL-Library.Word" "HOL-Library.AList" "HOL-Library.Char_ord"
    "HOL-Library.List_Lexorder" "HOL-Library.Sublist"
begin

text \<open>
  Shared vocabulary of the development: the machine types, the ordered map
  that stands for \<open>std::map\<close>, and the list and word lemmas that more than one
  component needs.
  \<^item> \<open>u8\<close>, \<open>u16\<close>, \<open>u32\<close>, \<open>u64\<close> are the fixed-width unsigned integers of the C and
    C++ sources; arithmetic on them wraps.
  \<^item> \<open>byte\<close> turns a character literal of the source into its code.
  \<^item> \<open>smap_*\<close> is \<open>std::map\<close>: an association list whose keys are strictly
    increasing.
\<close>

unbundle bit_operations_syntax

named_theorems smap_simps \<open>equations of the ordered map\<close>
named_theorems byte_simps \<open>evaluation of byte constants\<close>

type_synonym u8 = "8 word"
type_synonym u16 = "16 word"
type_synonym u32 = "32 word"
type_synonym u64 = "64 word"

text \<open>The code of a character literal of the source, as the byte the C code compares with.\<close>

abbreviation byte :: "char \<Rightarrow> u8" where
  "byte c \<equiv> of_char c"

abbreviation bytes :: "string \<Rightarrow> u8 list" where
  "bytes s \<equiv> map of_char s"

section \<open>Ordered maps (std::map)\<close>

text \<open>Insertion of a key that is not there, at its place in the order.\<close>

fun smap_insert :: "'k::linorder \<Rightarrow> 'v \<Rightarrow> ('k \<times> 'v) list \<Rightarrow> ('k \<times> 'v) list" where
  "smap_insert k v [] = [(k, v)]"
| "smap_insert k v ((k', v') # xs) =
     (if k < k' then (k, v) # (k', v') # xs else (k', v') # smap_insert k v xs)"

text \<open>\<open>m[k] = v\<close>: replaces the value in place or inserts the key.\<close>

definition smap_put :: "'k::linorder \<Rightarrow> 'v \<Rightarrow> ('k \<times> 'v) list \<Rightarrow> ('k \<times> 'v) list" where
  "smap_put k v xs = (if map_of xs k = None then smap_insert k v xs else AList.update k v xs)"

text \<open>\<open>m.insert({k, v})\<close>: does nothing when the key is there.\<close>

definition smap_insert_new :: "'k::linorder \<Rightarrow> 'v \<Rightarrow> ('k \<times> 'v) list \<Rightarrow> ('k \<times> 'v) list" where
  "smap_insert_new k v xs = (if map_of xs k = None then smap_insert k v xs else xs)"

text \<open>\<open>m.erase(k)\<close>.\<close>

definition smap_erase :: "'k \<Rightarrow> ('k \<times> 'v) list \<Rightarrow> ('k \<times> 'v) list" where
  "smap_erase k xs = filter (\<lambda>e. fst e \<noteq> k) xs"

definition smap_ok :: "('k::linorder \<times> 'v) list \<Rightarrow> bool" where
  "smap_ok xs \<longleftrightarrow> sorted_wrt (<) (map fst xs)"

lemma smap_ok_Nil [simp]: "smap_ok []"
  by (simp add: smap_ok_def)

lemma smap_ok_Cons: "smap_ok ((k, v) # xs) \<longleftrightarrow> (\<forall>e \<in> set xs. k < fst e) \<and> smap_ok xs"
  by (auto simp: smap_ok_def)

lemma smap_ok_distinct: "smap_ok xs \<Longrightarrow> distinct (map fst xs)"
  by (induction xs) (force simp: smap_ok_def)+

lemma set_smap_insert [simp]: "set (smap_insert k v xs) = insert (k, v) (set xs)"
  by (induction k v xs rule: smap_insert.induct) auto

lemma map_of_smap_insert:
  "map_of xs k = None \<Longrightarrow> map_of (smap_insert k v xs) = (map_of xs)(k \<mapsto> v)"
  by (induction k v xs rule: smap_insert.induct) (auto simp: fun_eq_iff split: if_splits)

lemma map_of_smap_put [smap_simps]: "map_of (smap_put k v xs) = (map_of xs)(k \<mapsto> v)"
  by (simp add: smap_put_def map_of_smap_insert update_conv')

lemma map_of_smap_insert_new [smap_simps]:
  "map_of (smap_insert_new k v xs) = (if map_of xs k = None then (map_of xs)(k \<mapsto> v) else map_of xs)"
  by (simp add: smap_insert_new_def map_of_smap_insert)

lemma map_of_smap_erase [smap_simps]: "map_of (smap_erase k xs) = (map_of xs)(k := None)"
  by (induction xs) (auto simp: smap_erase_def fun_eq_iff)

lemma smap_ok_insert:
  "smap_ok xs \<Longrightarrow> map_of xs k = None \<Longrightarrow> smap_ok (smap_insert k v xs)"
proof (induction k v xs rule: smap_insert.induct)
  case (1 k v)
  show ?case by (simp add: smap_ok_def)
next
  case (2 k v k' v' xs)
  from "2.prems"(2) have "k \<noteq> k'" by (auto split: if_splits)
  with 2 show ?case by (auto simp: smap_ok_Cons split: if_splits)
qed

lemma keys_AList_update: "map_of xs k \<noteq> None \<Longrightarrow> map fst (AList.update k v xs) = map fst xs"
  by (induction xs) (auto split: if_splits)

lemma smap_ok_put: "smap_ok xs \<Longrightarrow> smap_ok (smap_put k v xs)"
  using smap_ok_insert [of xs k v] keys_AList_update [of xs k v]
  by (auto simp: smap_put_def smap_ok_def)

lemma smap_ok_insert_new: "smap_ok xs \<Longrightarrow> smap_ok (smap_insert_new k v xs)"
  by (simp add: smap_insert_new_def smap_ok_insert)

lemma smap_ok_erase: "smap_ok xs \<Longrightarrow> smap_ok (smap_erase k xs)"
  by (simp add: smap_ok_def smap_erase_def sorted_wrt_filter sorted_wrt_map)

lemmas smap_ok_intros [intro] = smap_ok_put smap_ok_insert_new smap_ok_erase

text \<open>An entry of an ordered map is what its key looks up.\<close>

lemma smap_map_of: "smap_ok xs \<Longrightarrow> map_of xs k = Some v \<longleftrightarrow> (k, v) \<in> set xs"
  by (simp add: smap_ok_distinct)

section \<open>Buffers and results of the C code\<close>

text \<open>
  What a C function does: it returns a value, it returns an error code, or it accesses
  memory outside of a buffer.
\<close>

datatype 'a outcome = Ret 'a | Err int | OutOfBounds

fun bind_outcome :: "'a outcome \<Rightarrow> ('a \<Rightarrow> 'b outcome) \<Rightarrow> 'b outcome" where
  "bind_outcome (Ret x) f = f x"
| "bind_outcome (Err e) f = Err e"
| "bind_outcome OutOfBounds f = OutOfBounds"

text \<open>\<open>os_memcpy(buf + off, bs)\<close>.\<close>

definition put_at :: "nat \<Rightarrow> 'a list \<Rightarrow> 'a list \<Rightarrow> 'a list" where
  "put_at off bs buf = take off buf @ bs @ drop (off + length bs) buf"

text \<open>The bytewise exclusive or, as long as the shorter of the two buffers.\<close>

definition xorl :: "u8 list \<Rightarrow> u8 list \<Rightarrow> u8 list" where
  "xorl a b = map2 (XOR) a b"

lemma length_xorl [simp]: "length (xorl a b) = min (length a) (length b)"
  by (simp add: xorl_def)

lemma xorl_Nil [simp]: "xorl [] b = []" "xorl a [] = []"
  by (simp_all add: xorl_def)

lemma xorl_twice: "length a \<le> length b \<Longrightarrow> xorl (xorl a b) b = a"
  by (induction a b rule: list_induct2') (auto simp: xorl_def xor.assoc)

lemma xorl_commute: "xorl a b = xorl b a"
  by (induction a b rule: list_induct2') (auto simp: xorl_def xor.commute)

lemma xorl_append:
  "length a = length c \<Longrightarrow> xorl (a @ b) (c @ d) = xorl a c @ xorl b d"
  by (simp add: xorl_def)

lemma take_xorl: "take n (xorl a b) = xorl (take n a) (take n b)"
  by (simp add: xorl_def take_map take_zip)

lemma put_at_length [simp]: "off + length bs \<le> length buf \<Longrightarrow> length (put_at off bs buf) = length buf"
  by (simp add: put_at_def)

lemma put_at_same: "off + n \<le> length buf \<Longrightarrow> put_at off (take n (drop off buf)) buf = buf"
  by (simp add: put_at_def min_def) (metis add.commute append_take_drop_id drop_drop)

lemma put_at_twice: "length bs = length cs \<Longrightarrow> off + length cs \<le> length buf \<Longrightarrow> put_at off bs (put_at off cs buf) = put_at off bs buf"
  by (cases cs) (auto simp: put_at_def min_def)

lemma get_put_at: "off + length bs \<le> length buf \<Longrightarrow> take (length bs) (drop off (put_at off bs buf)) = bs"
  by (simp add: put_at_def min_def)

lemma unat_u8 [simp]: "unat (b::u8) < 256"
  using unsigned_less [of b, where 'a = nat] by simp

text \<open>A loop is undone by the loop that runs the inverse steps in the opposite order.\<close>

lemma fold_undo:
  assumes "\<And>x s. x \<in> set xs \<Longrightarrow> P s \<Longrightarrow> P (f x s) \<and> g x (f x s) = s" "P s"
  shows "P (fold f xs s) \<and> fold g (rev xs) (fold f xs s) = s"
  using assms
proof (induction xs arbitrary: s)
  case (Cons x xs)
  then have "P (f x s)" "g x (f x s) = s" by auto
  with Cons.IH [of "f x s"] Cons.prems show ?case by simp
qed simp

section \<open>Decimal text\<close>

fun show_nat :: "nat \<Rightarrow> string" where
  "show_nat n = (if n < 10 then [char_of (48 + n)] else show_nat (n div 10) @ [char_of (48 + n mod 10)])"

declare show_nat.simps [simp del]

definition show_int :: "int \<Rightarrow> string" where
  "show_int i = (if i < 0 then ''-'' @ show_nat (nat (- i)) else show_nat (nat i))"

end
