(* ===== verification/File_Tree.thy ===== *)
theory File_Tree
  imports Prelude
begin

text \<open>
  The file browser's tree (\<open>src/src/tree.h\<close>), the string splitter it is fed
  with (\<open>KUtils::split\<close>, \<open>src/src/utils.cpp\<close>) and the rebuild that
  \<open>PrintPanel::subscribe\<close> (\<open>src/src/print_panel.cpp\<close>) does when Moonraker
  announces a changed file list.

  A \<open>Tree\<close> object is a record of its scalar members and the \<open>std::map\<close> of its
  children. The \<open>parent\<close> pointer is the position of the node in the value, so it
  has no field; a \<open>Tree *\<close> into the tree is a path. The \<open>json\<close> of a node's
  metadata is an opaque type \<open>'j\<close>, \<open>None\<close> being the null of a default
  constructed \<open>json\<close>. Methods that mutate \<open>*this\<close> return the new tree.
\<close>

section \<open>Splitting a path (KUtils::split)\<close>

text \<open>
  \<open>std::getline\<close> up to the delimiter until the stream is exhausted: a trailing
  delimiter yields no empty last item and the empty string yields nothing.
\<close>

function split :: "string \<Rightarrow> char \<Rightarrow> string list" where
  "split s delim =
     (if s = [] then []
      else takeWhile (\<lambda>c. c \<noteq> delim) s #
        (case dropWhile (\<lambda>c. c \<noteq> delim) s of [] \<Rightarrow> [] | _ # rest \<Rightarrow> split rest delim))"
  by pat_completeness auto
termination
proof (relation "measure (\<lambda>(s, _). length s)", simp)
  fix s :: string and delim x rest
  assume "s \<noteq> []" and "dropWhile (\<lambda>c. c \<noteq> delim) s = x # rest"
  then show "((rest, delim), s, delim) \<in> measure (\<lambda>(s, _). length s)"
    using length_dropWhile_le [of "\<lambda>c. c \<noteq> delim" s] by simp
qed

declare split.simps [simp del]

section \<open>The tree\<close>

record 'j node =
  name :: string
  full_path :: string
  date_modified :: u32
  metadata :: "'j option"
  has_metadata :: bool

datatype 'j tree = Tree (info: "'j node") (children: "(string \<times> 'j tree) list")

text \<open>The constructor \<open>Tree(filename, path, modified)\<close>.\<close>

definition new_tree :: "string \<Rightarrow> string \<Rightarrow> u32 \<Rightarrow> 'j tree" where
  "new_tree filename path modified =
     Tree \<lparr>name = filename, full_path = path, date_modified = modified,
           metadata = None, has_metadata = False\<rparr> []"

definition is_leaf :: "'j tree \<Rightarrow> bool" where
  "is_leaf t \<longleftrightarrow> children t = []"

definition get_child :: "'j tree \<Rightarrow> string \<Rightarrow> 'j tree option" where
  "get_child t child = map_of (children t) child"

text \<open>
  \<open>find_or_create\<close> returns a reference to the child; here it returns the
  changed node, in which \<open>get_child\<close> finds that child.
\<close>

definition find_or_create :: "'j tree \<Rightarrow> string \<Rightarrow> string \<Rightarrow> u32 \<Rightarrow> 'j tree" where
  "find_or_create t v path modified =
     (let i = (if modified > date_modified (info t)
               then (info t)\<lparr>date_modified := modified\<rparr> else info t)
      in case map_of (children t) v of
           Some _ \<Rightarrow> Tree i (children t)
         | None \<Rightarrow> Tree i (smap_insert_new v (new_tree v path modified) (children t)))"

text \<open>The path of a component below \<open>cur_path\<close>, as \<open>add_path\<close> builds it.\<close>

definition join_path :: "string \<Rightarrow> string \<Rightarrow> string" where
  "join_path cur_path p = (if length cur_path > 0 then cur_path @ ''/'' @ p else p)"

text \<open>
  The loop of \<open>add_path\<close>: \<open>cur_node\<close> moves to the child that
  \<open>find_or_create\<close> returned, so what the rest of the loop does to it is stored back
  under the same key.
\<close>

fun add_path_loop :: "'j tree \<Rightarrow> string list \<Rightarrow> string \<Rightarrow> u32 \<Rightarrow> 'j tree" where
  "add_path_loop cur_node [] cur_path modified = cur_node"
| "add_path_loop cur_node (p # ps) cur_path modified =
     (let path = join_path cur_path p;
          node = find_or_create cur_node p path modified
      in case get_child node p of
           None \<Rightarrow> node
         | Some child \<Rightarrow>
             Tree (info node) (smap_put p (add_path_loop child ps path modified) (children node)))"

definition add_path :: "'j tree \<Rightarrow> string list \<Rightarrow> string \<Rightarrow> u32 \<Rightarrow> 'j tree" where
  "add_path t paths path modified =
     (if paths = [] then t else add_path_loop t paths [] modified)"

text \<open>
  The node a path of keys leads to. \<open>find_path\<close> returns a pointer, so its model
  returns the path of the node it points to: the path asked for, or the empty path
  of \<open>this\<close> when a key is missing or the path ends on a leaf.
\<close>

fun node_at :: "'j tree \<Rightarrow> string list \<Rightarrow> 'j tree option" where
  "node_at t [] = Some t"
| "node_at t (p # ps) = (case get_child t p of None \<Rightarrow> None | Some c \<Rightarrow> node_at c ps)"

definition find_path :: "'j tree \<Rightarrow> string list \<Rightarrow> string list" where
  "find_path t paths =
     (if paths = [] then []
      else case node_at t paths of
             None \<Rightarrow> []
           | Some n \<Rightarrow> if is_leaf n then [] else paths)"

definition set_name :: "'j tree \<Rightarrow> string \<Rightarrow> 'j tree" where
  "set_name t n = Tree ((info t)\<lparr>name := n\<rparr>) (children t)"

definition contains_metadata :: "'j tree \<Rightarrow> bool" where
  "contains_metadata t = has_metadata (info t)"

definition set_metadata :: "'j tree \<Rightarrow> 'j \<Rightarrow> 'j tree" where
  "set_metadata t j = Tree ((info t)\<lparr>has_metadata := True, metadata := Some j\<rparr>) (children t)"

definition clear :: "'j tree \<Rightarrow> 'j tree" where
  "clear t = Tree (info t) []"

type_synonym 'j meta_map = "(string \<times> (u32 \<times> 'j option)) list"

fun collect_metadata :: "'j tree \<Rightarrow> 'j meta_map \<Rightarrow> 'j meta_map"
  and collect_children :: "(string \<times> 'j tree) list \<Rightarrow> 'j meta_map \<Rightarrow> 'j meta_map" where
  "collect_metadata (Tree i cs) out =
     collect_children cs
       (if has_metadata i
        then smap_insert_new (full_path i) (date_modified i, metadata i) out else out)"
| "collect_children [] out = out"
| "collect_children ((k, c) # cs) out = collect_children cs (collect_metadata c out)"

text \<open>What \<open>apply_metadata\<close> does to one node.\<close>

definition apply_info :: "'j meta_map \<Rightarrow> 'j node \<Rightarrow> 'j node" where
  "apply_info m i =
     (case map_of m (full_path i) of
        Some (d, j) \<Rightarrow>
          if d = date_modified i then i\<lparr>has_metadata := True, metadata := j\<rparr> else i
      | None \<Rightarrow> i)"

fun apply_metadata :: "'j meta_map \<Rightarrow> 'j tree \<Rightarrow> 'j tree"
  and apply_children :: "'j meta_map \<Rightarrow> (string \<times> 'j tree) list \<Rightarrow> (string \<times> 'j tree) list" where
  "apply_metadata m (Tree i cs) = Tree (apply_info m i) (apply_children m cs)"
| "apply_children m [] = []"
| "apply_children m ((k, c) # cs) = (k, apply_metadata m c) # apply_children m cs"

section \<open>What the tree means\<close>

text \<open>The full path of the node that the keys \<open>ks\<close> lead to from the root.\<close>

definition path_of :: "string list \<Rightarrow> string" where
  "path_of ks = foldl join_path [] ks"

text \<open>A component of a path: not empty and without the separator.\<close>

definition comp_ok :: "string \<Rightarrow> bool" where
  "comp_ok k \<longleftrightarrow> k \<noteq> [] \<and> CHR ''/'' \<notin> set k"

text \<open>
  The representation invariant: the children are an ordered map, each is stored
  under its own name, and its full path extends its parent's by that name.
\<close>

fun tree_ok :: "'j tree \<Rightarrow> bool"
  and children_ok :: "string \<Rightarrow> (string \<times> 'j tree) list \<Rightarrow> bool" where
  "tree_ok (Tree i cs) \<longleftrightarrow> smap_ok cs \<and> children_ok (full_path i) cs"
| "children_ok p [] \<longleftrightarrow> True"
| "children_ok p ((k, c) # cs) \<longleftrightarrow>
     name (info c) = k \<and> full_path (info c) = join_path p k \<and> tree_ok c \<and> children_ok p cs"

text \<open>A directory is as new as its newest entry.\<close>

fun dates_ok :: "'j tree \<Rightarrow> bool"
  and child_dates_ok :: "u32 \<Rightarrow> (string \<times> 'j tree) list \<Rightarrow> bool" where
  "dates_ok (Tree i cs) \<longleftrightarrow> child_dates_ok (date_modified i) cs"
| "child_dates_ok d [] \<longleftrightarrow> True"
| "child_dates_ok d ((k, c) # cs) \<longleftrightarrow>
     date_modified (info c) \<le> d \<and> dates_ok c \<and> child_dates_ok d cs"

text \<open>Every key below the root is a path component.\<close>

fun keys_ok :: "'j tree \<Rightarrow> bool"
  and child_keys_ok :: "(string \<times> 'j tree) list \<Rightarrow> bool" where
  "keys_ok (Tree i cs) \<longleftrightarrow> child_keys_ok cs"
| "child_keys_ok [] \<longleftrightarrow> True"
| "child_keys_ok ((k, c) # cs) \<longleftrightarrow> comp_ok k \<and> keys_ok c \<and> child_keys_ok cs"

lemma children_ok_iff:
  "children_ok p cs \<longleftrightarrow>
     (\<forall>(k, c) \<in> set cs. name (info c) = k \<and> full_path (info c) = join_path p k \<and> tree_ok c)"
  by (induction cs) auto

lemma child_dates_ok_iff:
  "child_dates_ok d cs \<longleftrightarrow> (\<forall>(k, c) \<in> set cs. date_modified (info c) \<le> d \<and> dates_ok c)"
  by (induction cs) auto

lemma child_keys_ok_iff:
  "child_keys_ok cs \<longleftrightarrow> (\<forall>(k, c) \<in> set cs. comp_ok k \<and> keys_ok c)"
  by (induction cs) auto

lemma tree_ok_iff:
  "tree_ok t \<longleftrightarrow> smap_ok (children t) \<and>
     (\<forall>k c. get_child t k = Some c \<longrightarrow>
        name (info c) = k \<and> full_path (info c) = join_path (full_path (info t)) k \<and> tree_ok c)"
  by (cases t) (auto simp: children_ok_iff get_child_def smap_map_of)

lemma dates_ok_iff:
  "smap_ok (children t) \<Longrightarrow> dates_ok t \<longleftrightarrow>
     (\<forall>k c. get_child t k = Some c \<longrightarrow> date_modified (info c) \<le> date_modified (info t) \<and> dates_ok c)"
  by (cases t) (auto simp: child_dates_ok_iff get_child_def smap_map_of)

lemma keys_ok_iff:
  "smap_ok (children t) \<Longrightarrow> keys_ok t \<longleftrightarrow>
     (\<forall>k c. get_child t k = Some c \<longrightarrow> comp_ok k \<and> keys_ok c)"
  by (cases t) (auto simp: child_keys_ok_iff get_child_def smap_map_of)

section \<open>Adding a path\<close>

text \<open>The child that \<open>find_or_create\<close> returns a reference to.\<close>

definition child_or_new :: "'j tree \<Rightarrow> string \<Rightarrow> string \<Rightarrow> u32 \<Rightarrow> 'j tree" where
  "child_or_new t p path m = (case get_child t p of None \<Rightarrow> new_tree p path m | Some c \<Rightarrow> c)"

lemma info_find_or_create:
  "info (find_or_create t v path m) = (info t)\<lparr>date_modified := max m (date_modified (info t))\<rparr>"
  by (auto simp: find_or_create_def Let_def max_def split: option.splits)

lemma get_child_find_or_create:
  "get_child (find_or_create t v path m) w =
     (if w = v then Some (child_or_new t v path m) else get_child t w)"
  by (auto simp: find_or_create_def get_child_def child_or_new_def Let_def smap_simps
      split: option.splits)

lemma smap_ok_find_or_create:
  "smap_ok (children t) \<Longrightarrow> smap_ok (children (find_or_create t v path m))"
  by (auto simp: find_or_create_def Let_def split: option.splits)

lemma add_path_loop_Cons:
  "info (add_path_loop t (p # ps) cp m) = (info t)\<lparr>date_modified := max m (date_modified (info t))\<rparr>"
  "get_child (add_path_loop t (p # ps) cp m) w =
     (if w = p then Some (add_path_loop (child_or_new t p (join_path cp p) m) ps (join_path cp p) m)
      else get_child t w)"
  "smap_ok (children t) \<Longrightarrow> smap_ok (children (add_path_loop t (p # ps) cp m))"
  using get_child_find_or_create [of t p "join_path cp p" m]
  by (auto simp: Let_def info_find_or_create get_child_find_or_create smap_ok_find_or_create)
     (auto simp: get_child_def smap_simps get_child_find_or_create [unfolded get_child_def])

declare add_path_loop.simps(2) [simp del]

lemma get_child_new_tree [simp]: "get_child (new_tree n p m) k = None"
  and info_new_tree [simp]: "info (new_tree n p m) =
    \<lparr>name = n, full_path = p, date_modified = m, metadata = None, has_metadata = False\<rparr>"
  and children_new_tree [simp]: "children (new_tree n p m) = []"
  by (simp_all add: new_tree_def get_child_def)

lemma full_path_add_path_loop [simp]: "full_path (info (add_path_loop t ps cp m)) = full_path (info t)"
  and name_add_path_loop [simp]: "name (info (add_path_loop t ps cp m)) = name (info t)"
  by (cases ps; simp add: add_path_loop_Cons)+

lemma tree_ok_smap: "tree_ok t \<Longrightarrow> smap_ok (children t)"
  by (cases t) simp

lemma tree_ok_child:
  "tree_ok t \<Longrightarrow> get_child t k = Some c \<Longrightarrow>
     tree_ok c \<and> name (info c) = k \<and> full_path (info c) = join_path (full_path (info t)) k"
  using tree_ok_iff [of t] by blast

lemma dates_ok_child:
  "tree_ok t \<Longrightarrow> dates_ok t \<Longrightarrow> get_child t k = Some c \<Longrightarrow>
     dates_ok c \<and> date_modified (info c) \<le> date_modified (info t)"
  using dates_ok_iff [of t] tree_ok_iff [of t] by blast

lemma keys_ok_child:
  "tree_ok t \<Longrightarrow> keys_ok t \<Longrightarrow> get_child t k = Some c \<Longrightarrow> keys_ok c \<and> comp_ok k"
  using keys_ok_iff [of t] tree_ok_iff [of t] by blast

lemma dates_ok_new_tree [simp]: "dates_ok (new_tree n p m)"
  and keys_ok_new_tree [simp]: "keys_ok (new_tree n p m)"
  and tree_ok_new_tree [simp]: "tree_ok (new_tree n p m)"
  by (simp_all add: new_tree_def)

lemma tree_ok_child_or_new:
  "tree_ok t \<Longrightarrow> full_path (info t) = cp \<Longrightarrow>
     tree_ok (child_or_new t p (join_path cp p) m) \<and>
     full_path (info (child_or_new t p (join_path cp p) m)) = join_path cp p \<and>
     name (info (child_or_new t p (join_path cp p) m)) = p"
  by (auto simp: child_or_new_def dest: tree_ok_child split: option.splits)

lemma tree_ok_add_path_loop:
  "tree_ok t \<Longrightarrow> full_path (info t) = cp \<Longrightarrow> tree_ok (add_path_loop t ps cp m)"
proof (induction ps arbitrary: t cp)
  case Nil
  then show ?case by simp
next
  case (Cons p ps)
  let ?c = "child_or_new t p (join_path cp p) m"
  note c = tree_ok_child_or_new [OF Cons.prems, of p m]
  then have "tree_ok (add_path_loop ?c ps (join_path cp p) m)"
    using Cons.IH by blast
  with c Cons.prems show ?case
    using tree_ok_child [OF Cons.prems(1)] tree_ok_iff [of t]
    by (subst tree_ok_iff) (auto simp: add_path_loop_Cons)
qed

lemma dates_ok_add_path_loop:
  "tree_ok t \<Longrightarrow> full_path (info t) = cp \<Longrightarrow> dates_ok t \<Longrightarrow> dates_ok (add_path_loop t ps cp m) \<and>
     date_modified (info (add_path_loop t ps cp m)) \<le> max m (date_modified (info t))"
proof (induction ps arbitrary: t cp)
  case Nil
  then show ?case by simp
next
  case (Cons p ps)
  let ?c = "child_or_new t p (join_path cp p) m"
  let ?r = "add_path_loop ?c ps (join_path cp p) m"
  have ok: "smap_ok (children t)" using Cons.prems(1) by (rule tree_ok_smap)
  note c = tree_ok_child_or_new [OF Cons.prems(1,2), of p m]
  have d: "dates_ok ?c" "date_modified (info ?c) \<le> max m (date_modified (info t))"
    using dates_ok_child [OF Cons.prems(1,3), of p]
    by (auto simp: child_or_new_def le_max_iff_disj split: option.splits)
  with c Cons.IH [of ?c] have "dates_ok ?r"
    and "date_modified (info ?r) \<le> max m (date_modified (info ?c))" by blast+
  moreover from this(2) d(2) have "date_modified (info ?r) \<le> max m (date_modified (info t))"
    by (meson max.bounded_iff max.cobounded1 order_trans)
  moreover have "k \<noteq> p \<Longrightarrow> get_child t k = Some x \<Longrightarrow>
      dates_ok x \<and> date_modified (info x) \<le> max m (date_modified (info t))" for k x
    using dates_ok_child [OF Cons.prems(1,3), of k] by (auto simp: le_max_iff_disj)
  ultimately show ?case
    using ok by (subst dates_ok_iff) (auto simp: add_path_loop_Cons)
qed

lemma keys_ok_add_path_loop:
  "tree_ok t \<Longrightarrow> full_path (info t) = cp \<Longrightarrow> keys_ok t \<Longrightarrow> list_all comp_ok ps \<Longrightarrow>
     keys_ok (add_path_loop t ps cp m)"
proof (induction ps arbitrary: t cp)
  case Nil
  then show ?case by simp
next
  case (Cons p ps)
  let ?c = "child_or_new t p (join_path cp p) m"
  have ok: "smap_ok (children t)" using Cons.prems(1) by (rule tree_ok_smap)
  note c = tree_ok_child_or_new [OF Cons.prems(1,2), of p m]
  have "keys_ok ?c"
    using keys_ok_child [OF Cons.prems(1,3), of p]
    by (auto simp: child_or_new_def split: option.splits)
  with c Cons.IH [of ?c] Cons.prems have "keys_ok (add_path_loop ?c ps (join_path cp p) m)"
    by simp
  with Cons.prems ok show ?case
    using keys_ok_child [OF Cons.prems(1,3)]
    by (subst keys_ok_iff) (auto simp: add_path_loop_Cons)
qed

lemma node_at_add_path_loop_exists:
  "node_at (add_path_loop t ps cp m) qs \<noteq> None \<longleftrightarrow> node_at t qs \<noteq> None \<or> prefix qs ps"
proof (induction ps arbitrary: t cp qs)
  case Nil
  then show ?case by (cases qs) auto
next
  case (Cons p ps)
  show ?case
  proof (cases qs)
    case Nil
    then show ?thesis by simp
  next
    case (Cons q qs')
    have "node_at (child_or_new t p path m) qs' \<noteq> None \<or> prefix qs' ps \<longleftrightarrow>
        node_at t (p # qs') \<noteq> None \<or> prefix qs' ps" for path
      by (cases qs') (auto simp: child_or_new_def split: option.splits)
    with Cons Cons.IH show ?thesis
      by (auto simp: add_path_loop_Cons)
  qed
qed

section \<open>Paths and their components\<close>

lemma foldl_join_path:
  "cp \<noteq> [] \<Longrightarrow> foldl join_path cp ks = cp @ concat (map (\<lambda>k. CHR ''/'' # k) ks)"
  by (induction ks arbitrary: cp) (auto simp: join_path_def)

lemma path_of_Cons: "k \<noteq> [] \<Longrightarrow> path_of (k # ks) = k @ concat (map (\<lambda>k. CHR ''/'' # k) ks)"
  by (simp add: path_of_def join_path_def foldl_join_path)

lemma split_last:
  "s \<noteq> [] \<Longrightarrow> dropWhile (\<lambda>c. c \<noteq> d) s = [] \<Longrightarrow> split s d = [takeWhile (\<lambda>c. c \<noteq> d) s]"
  by (subst split.simps) (simp del: dropWhile_eq_Nil_conv)

lemma split_more:
  "dropWhile (\<lambda>c. c \<noteq> d) s = x # rest \<Longrightarrow> split s d = takeWhile (\<lambda>c. c \<noteq> d) s # split rest d"
  by (subst split.simps) (auto simp del: dropWhile_eq_Nil_conv)

lemma split_comp: "d \<notin> set k \<Longrightarrow> k \<noteq> [] \<Longrightarrow> split k d = [k]"
proof -
  assume "d \<notin> set k" "k \<noteq> []"
  then have "takeWhile (\<lambda>c. c \<noteq> d) k = k" "dropWhile (\<lambda>c. c \<noteq> d) k = []"
    by (induction k) auto
  with split_last [OF \<open>k \<noteq> []\<close>, of d] show ?thesis by (simp only:)
qed

lemma split_comp_delim: "d \<notin> set k \<Longrightarrow> split (k @ d # s) d = k # split s d"
  by (subst split.simps) (auto simp: takeWhile_append dropWhile_append)

lemma split_path_of: "list_all comp_ok ks \<Longrightarrow> split (path_of ks) CHR ''/'' = ks"
proof (cases ks)
  case Nil
  then show ?thesis by (simp add: path_of_def split.simps)
next
  case (Cons k ks')
  have "list_all comp_ok ks' \<Longrightarrow> comp_ok k \<Longrightarrow>
      split (k @ concat (map (\<lambda>k. CHR ''/'' # k) ks')) CHR ''/'' = k # ks'" for k
    by (induction ks' arbitrary: k) (auto simp: comp_ok_def split_comp split_comp_delim)
  moreover assume "list_all comp_ok ks"
  ultimately show ?thesis
    using Cons by (simp add: path_of_Cons comp_ok_def)
qed

lemma split_no_delim: "k \<in> set (split s d) \<Longrightarrow> d \<notin> set k"
proof (induction s d rule: split.induct)
  case (1 s d)
  from "1.prems" have s: "s \<noteq> []" by (auto simp: split.simps)
  show ?case
  proof (cases "dropWhile (\<lambda>c. c \<noteq> d) s")
    case Nil
    with "1.prems" split_last [OF s Nil] show ?thesis by (auto dest: set_takeWhileD)
  next
    case (Cons x rest)
    with "1.prems" split_more [OF Cons] "1.IH" [OF s Cons] show ?thesis by (auto dest: set_takeWhileD)
  qed
qed

lemma full_path_node_at:
  "tree_ok t \<Longrightarrow> node_at t ks = Some n \<Longrightarrow>
     full_path (info n) = foldl join_path (full_path (info t)) ks \<and> tree_ok n"
proof (induction ks arbitrary: t)
  case Nil
  then show ?case by simp
next
  case (Cons k ks)
  then obtain c where c: "get_child t k = Some c" "node_at c ks = Some n"
    by (auto split: option.splits)
  from tree_ok_child [OF Cons.prems(1) c(1)] Cons.IH [OF _ c(2)] show ?case by auto
qed

lemma keys_node_at:
  "tree_ok t \<Longrightarrow> keys_ok t \<Longrightarrow> node_at t ks = Some n \<Longrightarrow> list_all comp_ok ks"
proof (induction ks arbitrary: t)
  case Nil
  then show ?case by simp
next
  case (Cons k ks)
  then obtain c where c: "get_child t k = Some c" "node_at c ks = Some n"
    by (auto split: option.splits)
  from tree_ok_child [OF Cons.prems(1) c(1)] keys_ok_child [OF Cons.prems(1,2) c(1)]
    Cons.IH [OF _ _ c(2)] show ?case by auto
qed

text \<open>In a well-formed tree the full path of a node determines it.\<close>

lemma split_full_path:
  assumes "tree_ok t" "keys_ok t" "full_path (info t) = []" "node_at t ks = Some n"
  shows "split (full_path (info n)) CHR ''/'' = ks"
  using full_path_node_at [OF assms(1,4)] keys_node_at [OF assms(1,2,4)] split_path_of [of ks]
  by (simp add: assms(3) path_of_def)

section \<open>The metadata cache\<close>

fun nodes :: "'j tree \<Rightarrow> 'j node list"
  and child_nodes :: "(string \<times> 'j tree) list \<Rightarrow> 'j node list" where
  "nodes (Tree i cs) = i # child_nodes cs"
| "child_nodes [] = []"
| "child_nodes ((k, c) # cs) = nodes c @ child_nodes cs"

definition cache_entry :: "'j node \<Rightarrow> string \<times> (u32 \<times> 'j option)" where
  "cache_entry i = (full_path i, (date_modified i, metadata i))"

definition cacheable :: "'j node list \<Rightarrow> 'j meta_map" where
  "cacheable is = map cache_entry (filter has_metadata is)"

lemma map_of_collect:
  "map_of (collect_metadata t out) = map_of (cacheable (nodes t)) ++ map_of out"
  "map_of (collect_children cs out) = map_of (cacheable (child_nodes cs)) ++ map_of out"
  by (induction t out and cs out rule: collect_metadata_collect_children.induct)
     (auto simp: cacheable_def cache_entry_def smap_simps fun_eq_iff map_add_def split: option.splits)

lemma child_nodes_iff: "i \<in> set (child_nodes cs) \<longleftrightarrow> (\<exists>(k, c) \<in> set cs. i \<in> set (nodes c))"
  by (induction cs) auto

lemma nodes_node_at:
  "tree_ok t \<Longrightarrow> i \<in> set (nodes t) \<Longrightarrow> \<exists>ks n. node_at t ks = Some n \<and> info n = i"
proof (induction t arbitrary: i)
  case (Tree j cs)
  show ?case
  proof (cases "i = j")
    case True
    then show ?thesis by (intro exI [of _ "[]"]) simp
  next
    case False
    with Tree.prems obtain k c where kc: "(k, c) \<in> set cs" "i \<in> set (nodes c)"
      by (auto simp: child_nodes_iff)
    with Tree.prems have g: "get_child (Tree j cs) k = Some c"
      by (simp add: get_child_def smap_map_of)
    moreover from tree_ok_child [OF Tree.prems(1) g] Tree.IH [OF kc(1), of c i] kc(2)
    obtain ks n where "node_at c ks = Some n" "info n = i" by auto
    ultimately show ?thesis by (intro exI [of _ "k # ks"]) auto
  qed
qed

lemma node_at_nodes: "node_at t ks = Some n \<Longrightarrow> info n \<in> set (nodes t)"
proof (induction ks arbitrary: t)
  case Nil
  then show ?case by (cases t) auto
next
  case (Cons k ks)
  then obtain c where "map_of (children t) k = Some c" "info n \<in> set (nodes c)"
    by (auto simp: get_child_def split: option.splits)
  then show ?case by (cases t) (auto simp: child_nodes_iff dest!: map_of_SomeD)
qed

text \<open>
  What the cache of a well-formed tree holds for the path of \<open>ks\<close>: the date and
  metadata of the node there, if it has metadata.
\<close>

lemma map_of_cache:
  assumes t: "tree_ok t" "keys_ok t" "full_path (info t) = []" and ks: "list_all comp_ok ks"
  shows "map_of (collect_metadata t []) (path_of ks) =
    (case node_at t ks of
       Some n \<Rightarrow> if has_metadata (info n) then Some (date_modified (info n), metadata (info n)) else None
     | None \<Rightarrow> None)"
proof -
  have inv: "node_at t ks = Some n \<and> info n = i"
    if n: "node_at t ks' = Some n" "info n = i" and p: "full_path i = path_of ks" for i ks' n
    using split_full_path [OF t n(1)] n p split_path_of [OF ks] by auto
  have mem: "i \<in> set (nodes t) \<and> full_path i = path_of ks \<longleftrightarrow>
      (\<exists>n. node_at t ks = Some n \<and> info n = i)" for i
  proof
    assume "i \<in> set (nodes t) \<and> full_path i = path_of ks"
    with nodes_node_at [OF t(1), of i] inv show "\<exists>n. node_at t ks = Some n \<and> info n = i" by metis
  next
    assume "\<exists>n. node_at t ks = Some n \<and> info n = i"
    with node_at_nodes full_path_node_at [OF t(1), of ks]
    show "i \<in> set (nodes t) \<and> full_path i = path_of ks" by (auto simp: path_of_def t(3))
  qed
  show ?thesis
  proof (cases "map_of (cacheable (nodes t)) (path_of ks)")
    case None
    then have "\<not> (\<exists>i \<in> set (nodes t). has_metadata i \<and> full_path i = path_of ks)"
      by (force simp: map_of_eq_None_iff cacheable_def cache_entry_def)
    with None mem show ?thesis
      by (auto simp: map_of_collect split: option.splits)
  next
    case (Some v)
    from map_of_SomeD [OF Some] obtain i where i: "i \<in> set (nodes t)" "has_metadata i"
      "full_path i = path_of ks" "v = (date_modified i, metadata i)"
      by (auto simp: cacheable_def cache_entry_def)
    with mem obtain n where "node_at t ks = Some n" "info n = i" by blast
    with Some i show ?thesis by (simp add: map_of_collect)
  qed
qed

section \<open>Rebuilding the tree\<close>

text \<open>Filling the emptied root from the file list, in the order of the list.\<close>

definition add_file :: "'j tree \<Rightarrow> string \<times> u32 \<Rightarrow> 'j tree" where
  "add_file r f = add_path r (split (fst f) CHR ''/'') (fst f) (snd f)"

text \<open>
  The tree part of the reply handler of \<open>PrintPanel::subscribe\<close>: the entries of
  \<open>d["result"]\<close> are the \<open>path\<close> and \<open>modified\<close> members the handler reads;
  \<open>None\<close> stands for a reply without a \<open>result\<close>.
\<close>

definition rebuild :: "'j tree \<Rightarrow> (string \<times> u32) list option \<Rightarrow> 'j tree" where
  "rebuild root result =
     (let cached = collect_metadata root [];
          emptied = clear root;
          filled = (case result of None \<Rightarrow> emptied | Some fs \<Rightarrow> foldl add_file emptied fs)
      in apply_metadata cached filled)"

lemma info_apply_metadata: "info (apply_metadata m t) = apply_info m (info t)"
  by (cases t) simp

lemma get_child_apply_metadata:
  "get_child (apply_metadata m t) k = map_option (apply_metadata m) (get_child t k)"
proof -
  have "map_of (apply_children m cs) k = map_option (apply_metadata m) (map_of cs k)" for cs
    by (induction cs) auto
  then show ?thesis by (cases t) (simp add: get_child_def)
qed

lemma node_at_apply_metadata:
  "node_at (apply_metadata m t) ks = map_option (apply_metadata m) (node_at t ks)"
  by (induction ks arbitrary: t) (auto simp: get_child_apply_metadata split: option.splits)

text \<open>A tree as \<open>clear\<close> and \<open>add_path\<close> make it: only the root may carry metadata.\<close>

definition bare :: "'j tree \<Rightarrow> bool" where
  "bare t \<longleftrightarrow> tree_ok t \<and> keys_ok t \<and> full_path (info t) = [] \<and>
     (\<forall>ks n. ks \<noteq> [] \<longrightarrow> node_at t ks = Some n \<longrightarrow> \<not> has_metadata (info n))"

lemma has_metadata_add_path_loop:
  "node_at (add_path_loop t ps cp m) ks = Some n \<Longrightarrow> has_metadata (info n) \<Longrightarrow>
     \<exists>n'. node_at t ks = Some n' \<and> has_metadata (info n')"
proof (induction ps arbitrary: t cp ks)
  case Nil
  then show ?case by auto
next
  case (Cons p ps)
  show ?case
  proof (cases ks)
    case Nil
    with Cons.prems show ?thesis by (auto simp: add_path_loop_Cons)
  next
    case (Cons k ks')
    show ?thesis
    proof (cases "k = p")
      case False
      with Cons Cons.prems show ?thesis by (auto simp: add_path_loop_Cons)
    next
      case True
      with Cons Cons.prems(1) have
        "node_at (add_path_loop (child_or_new t p (join_path cp p) m) ps (join_path cp p) m) ks' = Some n"
        by (simp add: add_path_loop_Cons)
      from Cons.IH [OF this Cons.prems(2)] obtain n' where
        "node_at (child_or_new t p (join_path cp p) m) ks' = Some n'" "has_metadata (info n')"
        by blast
      then have "node_at t (p # ks') = Some n'"
        by (cases ks') (auto simp: child_or_new_def split: option.splits)
      with \<open>has_metadata (info n')\<close> True Cons show ?thesis by blast
    qed
  qed
qed

lemma bare_clear: "full_path (info t) = [] \<Longrightarrow> bare (clear t)"
  by (auto simp: bare_def clear_def get_child_def neq_Nil_conv)

lemma bare_add_file:
  assumes "bare t" and "[] \<notin> set (split (fst f) CHR ''/'')"
  shows "bare (add_file t f)"
proof -
  let ?ps = "split (fst f) CHR ''/''"
  have ps: "list_all comp_ok ?ps"
    using assms(2) by (auto simp: list_all_iff comp_ok_def dest: split_no_delim)
  from assms(1) have t: "tree_ok t" "keys_ok t" "full_path (info t) = []" by (auto simp: bare_def)
  show ?thesis
    using assms(1) tree_ok_add_path_loop [OF t(1,3)] keys_ok_add_path_loop [OF t(1,3,2) ps]
      has_metadata_add_path_loop [of t ?ps "[]" "snd f"]
    by (fastforce simp: add_file_def add_path_def bare_def)
qed

lemma bare_fill:
  "bare t \<Longrightarrow> \<forall>f \<in> set fs. [] \<notin> set (split (fst f) CHR ''/'') \<Longrightarrow> bare (foldl add_file t fs)"
  by (induction fs arbitrary: t) (auto intro: bare_add_file)

text \<open>
  The tree without its metadata. Updates that touch metadata only leave it as it is, and
  with it everything the invariants speak about.
\<close>

fun skel :: "'j tree \<Rightarrow> 'j tree"
  and skel_children :: "(string \<times> 'j tree) list \<Rightarrow> (string \<times> 'j tree) list" where
  "skel (Tree i cs) = Tree (i\<lparr>metadata := None, has_metadata := False\<rparr>) (skel_children cs)"
| "skel_children [] = []"
| "skel_children ((k, c) # cs) = (k, skel c) # skel_children cs"

lemma skel_children_map: "skel_children cs = map (\<lambda>(k, c). (k, skel c)) cs"
  by (induction cs) auto

lemma children_skel: "children (skel t) = map (\<lambda>(k, c). (k, skel c)) (children t)"
  by (cases t) (simp add: skel_children_map)

lemma info_skel [simp]:
  "name (info (skel t)) = name (info t)" "full_path (info (skel t)) = full_path (info t)"
  "date_modified (info (skel t)) = date_modified (info t)"
  by (cases t; simp)+

lemma is_leaf_skel [simp]: "is_leaf (skel t) = is_leaf t"
  by (simp add: is_leaf_def children_skel)

lemma get_child_skel: "get_child (skel t) k = map_option skel (get_child t k)"
  by (simp add: get_child_def children_skel map_of_map)

lemma node_at_skel: "node_at (skel t) ks = map_option skel (node_at t ks)"
  by (induction ks arbitrary: t) (auto simp: get_child_skel split: option.splits)

lemma fst_skel_children: "map fst (skel_children cs) = map fst cs"
  by (induction cs) auto

lemma tree_ok_skel [simp]:
  fixes t :: "'j tree" and cs :: "(string \<times> 'j tree) list"
  shows "tree_ok (skel t) \<longleftrightarrow> tree_ok t" and "children_ok p (skel_children cs) \<longleftrightarrow> children_ok p cs"
  by (induction t and p cs rule: tree_ok_children_ok.induct)
     (simp_all add: smap_ok_def fst_skel_children)

lemma keys_ok_skel [simp]:
  fixes t :: "'j tree" and cs :: "(string \<times> 'j tree) list"
  shows "keys_ok (skel t) \<longleftrightarrow> keys_ok t" and "child_keys_ok (skel_children cs) \<longleftrightarrow> child_keys_ok cs"
  by (induction t and cs rule: keys_ok_child_keys_ok.induct) simp_all

lemma skel_apply_metadata [simp]: "skel (apply_metadata m t) = skel t"
  "skel_children (apply_children m cs) = skel_children cs"
  by (induction m t and m cs rule: apply_metadata_apply_children.induct)
     (auto simp: apply_info_def split: option.splits)

lemma skel_set_metadata [simp]: "skel (set_metadata t m) = skel t"
  by (cases t) (simp add: set_metadata_def)

lemma skel_children_update:
  "map_of cs k = Some c \<Longrightarrow> skel v = skel c \<Longrightarrow>
     skel_children (AList.update k v cs) = skel_children cs"
  by (induction cs) (auto split: if_splits)

lemma node_at_append:
  "node_at t (xs @ ys) = (case node_at t xs of None \<Rightarrow> None | Some n \<Rightarrow> node_at n ys)"
  by (induction xs arbitrary: t) (auto split: option.splits)

text \<open>Trees that differ in metadata only agree on what the invariants speak about.\<close>

lemma skel_eq_node_at:
  assumes "skel t = skel t'" "node_at t ks = Some n"
  obtains n' where "node_at t' ks = Some n'" "skel n' = skel n"
proof -
  from assms node_at_skel [of t ks] node_at_skel [of t' ks]
  have "map_option skel (node_at t' ks) = Some (skel n)" by simp
  then show thesis using that by auto
qed

lemma skel_eq_ok:
  assumes "skel t = skel t'"
  shows "tree_ok t = tree_ok t'" "keys_ok t = keys_ok t'" "full_path (info t) = full_path (info t')"
    "name (info t) = name (info t')" "is_leaf t = is_leaf t'"
  using assms tree_ok_skel(1) keys_ok_skel(1) info_skel is_leaf_skel by metis+

lemma rebuild_ok:
  assumes "full_path (info root) = []"
    and "\<forall>fs. result = Some fs \<longrightarrow> (\<forall>f \<in> set fs. [] \<notin> set (split (fst f) CHR ''/''))"
  shows "tree_ok (rebuild root result)" "keys_ok (rebuild root result)"
    "full_path (info (rebuild root result)) = []"
proof -
  let ?t = "case result of None \<Rightarrow> clear root | Some fs \<Rightarrow> foldl add_file (clear root) fs"
  have "bare ?t"
    using assms bare_clear [OF assms(1)] bare_fill by (auto split: option.splits)
  moreover have "skel (rebuild root result) = skel ?t" by (simp add: rebuild_def Let_def)
  ultimately show "tree_ok (rebuild root result)" "keys_ok (rebuild root result)"
    "full_path (info (rebuild root result)) = []"
    using skel_eq_ok [of "rebuild root result" ?t] by (auto simp: bare_def)
qed

section \<open>Properties\<close>

text \<open>C1. Adding a file creates exactly the directories on its way and the file
  itself: after \<open>add_path\<close> a key path leads to a node if and only if it did before
  or is a prefix of the added path, and every full path recorded in the tree stays the
  concatenation of its keys, every directory at least as new as its entries.\<close>

theorem add_path_correct:
  assumes "tree_ok t" "dates_ok t" "full_path (info t) = []"
  shows "(node_at (add_path t ps path m) qs \<noteq> None \<longleftrightarrow> node_at t qs \<noteq> None \<or> prefix qs ps) \<and>
    tree_ok (add_path t ps path m) \<and> dates_ok (add_path t ps path m) \<and>
    full_path (info (add_path t ps path m)) = []"
  using assms node_at_add_path_loop_exists [of t ps "[]" m qs] tree_ok_add_path_loop [OF assms(1,3)]
    dates_ok_add_path_loop [OF assms(1,3,2)]
  by (auto simp: add_path_def)

definition sample_tree :: "nat tree" where
  "sample_tree = Tree \<lparr>name = [], full_path = [], date_modified = 5, metadata = None, has_metadata = False\<rparr>
     [(''a'', Tree \<lparr>name = ''a'', full_path = ''a'', date_modified = 5, metadata = None, has_metadata = False\<rparr>
        [(''b'', Tree \<lparr>name = ''b'', full_path = ''a/b'', date_modified = 5, metadata = Some 1,
                       has_metadata = True\<rparr> [])])]"

lemma sample_tree_ok:
  "tree_ok sample_tree" "dates_ok sample_tree" "keys_ok sample_tree" "full_path (info sample_tree) = []"
  by (simp_all add: sample_tree_def join_path_def smap_ok_def comp_ok_def)

theorem add_path_correct_witness:
  "node_at (add_path sample_tree [''a'', ''c''] ''a/c'' 7) [''a'', ''c''] \<noteq> None \<and>
   node_at (add_path sample_tree [''a'', ''c''] ''a/c'' 7) [''c''] = None \<and>
   dates_ok (add_path sample_tree [''a'', ''c''] ''a/c'' 7)"
  using add_path_correct [OF sample_tree_ok(1,2,4), of "[''a'', ''c'']" "''a/c''" 7 "[''a'', ''c'']"]
    add_path_correct [OF sample_tree_ok(1,2,4), of "[''a'', ''c'']" "''a/c''" 7 "[''c'']"]
  by (simp add: sample_tree_def get_child_def)

text \<open>C2. Round trip of paths: the full path the tree records for a node, split at the
  separator as \<open>PrintPanel::subscribe\<close> does to find the directory on screen again,
  is the list of keys that leads to that node.\<close>

theorem full_path_roundtrip:
  assumes "tree_ok t" "keys_ok t" "full_path (info t) = []" "node_at t ks = Some n"
  shows "split (full_path (info n)) CHR ''/'' = ks \<and>
    node_at t (split (full_path (info n)) CHR ''/'') = Some n"
  using split_full_path [OF assms] assms(4) by simp

theorem full_path_roundtrip_witness: "split ''a/b'' CHR ''/'' = [''a'', ''b'']"
  using full_path_roundtrip [OF sample_tree_ok(1,3,4), of "[''a'', ''b'']"]
  by (simp add: sample_tree_def get_child_def)

text \<open>C3. A refetch keeps the scanned metadata of exactly the files that did not
  change: after the tree is thrown away and rebuilt from the new list, a node has metadata
  if and only if the node at the same path had it before with the same modification
  time, and then it is the same metadata.\<close>

theorem rebuild_metadata:
  assumes "tree_ok root" "keys_ok root" "full_path (info root) = []"
    and "\<forall>f \<in> set fs. [] \<notin> set (split (fst f) CHR ''/'')"
    and "node_at (rebuild root (Some fs)) ks = Some n" "ks \<noteq> []"
  shows "(has_metadata (info n) \<longleftrightarrow>
      (\<exists>old. node_at root ks = Some old \<and> has_metadata (info old) \<and>
        date_modified (info old) = date_modified (info n))) \<and>
    (has_metadata (info n) \<longrightarrow>
      (\<exists>old. node_at root ks = Some old \<and> metadata (info n) = metadata (info old)))"
proof -
  let ?t = "foldl add_file (clear root) fs" and ?m = "collect_metadata root []"
  have bare: "bare ?t" using bare_fill [OF bare_clear [OF assms(3)] assms(4)] .
  then have t: "tree_ok ?t" "keys_ok ?t" "full_path (info ?t) = []" by (auto simp: bare_def)
  from assms(5) obtain n0 where n0: "node_at ?t ks = Some n0" "n = apply_metadata ?m n0"
    by (auto simp: rebuild_def node_at_apply_metadata)
  with bare assms(6) have fresh: "\<not> has_metadata (info n0)" by (auto simp: bare_def)
  have "full_path (info n0) = path_of ks"
    using full_path_node_at [OF t(1) n0(1)] t(3) by (simp add: path_of_def)
  moreover have "map_of ?m (path_of ks) = (case node_at root ks of
       Some n \<Rightarrow> if has_metadata (info n) then Some (date_modified (info n), metadata (info n)) else None
     | None \<Rightarrow> None)"
    by (rule map_of_cache [OF assms(1-3) keys_node_at [OF t(1,2) n0(1)]])
  ultimately show ?thesis
    using fresh n0(2)
    by (auto simp: info_apply_metadata apply_info_def split: option.splits if_splits)
qed

lemma sample_rebuild:
  "node_at (rebuild sample_tree (Some [(''a/b'', 5), (''c'', 6)])) [''a'', ''b''] =
     Some (Tree \<lparr>name = ''b'', full_path = ''a/b'', date_modified = 5, metadata = Some 1,
                 has_metadata = True\<rparr> [])"
  by code_simp

theorem rebuild_metadata_witness:
  "\<exists>old. node_at sample_tree [''a'', ''b''] = Some old \<and> Some 1 = metadata (info old)"
proof -
  have "\<forall>f \<in> set [(''a/b'', 5 :: u32), (''c'', 6)]. [] \<notin> set (split (fst f) CHR ''/'')"
    by code_simp
  from rebuild_metadata [OF sample_tree_ok(1,3,4) this sample_rebuild] show ?thesis by simp
qed

end
