(* ===== verification/Print_Panel.thy ===== *)
theory Print_Panel
  imports File_Tree "HOL-Library.Multiset"
begin

text \<open>
  The file panel's logic (\<open>src/src/print_panel.cpp\<close>): which directory and file are
  on screen, the table of rows, the metadata requests and scans that Moonraker still
  has to answer, and whether Print may be pressed.

  Pointers into the tree (\<open>cur_dir\<close>, \<open>cur_file\<close>) are key paths. Handlers return the
  new panel and the list of effects they have outside it: requests on the websocket,
  calls of the file view and of the print status screen. \<open>ws.connection_id()\<close> is the
  argument \<open>now\<close>. The scroll position kept across a refetch belongs to LVGL and is left
  out; \<open>std::sort\<close> leaves the order of equal entries open, so the sorted entries are
  an argument of \<open>show_dir\<close> and the step relation admits every order that the
  comparator allows.
\<close>

section \<open>State and effects\<close>

datatype list_change = UserAction | Refetch

datatype sort_col = SortedByName | SortedByModified

text \<open>The two JSON-RPC methods \<open>request_metadata\<close> is called with.\<close>

datatype meta_method = FilesMetadata | FilesMetascan

text \<open>A reply either carries \<open>result\<close> or it does not.\<close>

datatype 'j reply = Result 'j | NoResult

text \<open>The texts \<open>SCANNING\<close> and \<open>NO_DETAILS\<close>.\<close>

datatype view_note = Scanning | NoDetails

datatype 'j effect =
    Request string meta_method u32
  | RefreshView "'j option" string
  | ShowWithoutMetadata string u32 view_note
  | PrintStart string
  | PrintStatusForeground
  | ShowPrompt

text \<open>A table row: whether it carries the directory symbol, and the text after it.\<close>

type_synonym row = "bool \<times> string"

record 'j panel =
  root :: "'j tree"
  cur_dir :: "string list"
  cur_file :: "string list option"
  scans :: "(string \<times> u32) list"
  unscannable :: "(string \<times> u32) list"
  print_enabled :: bool
  file_table :: "row list"
  sort_column :: sort_col
  sort_reversed :: bool

text \<open>The constructor's member initialisers; the buttons start enabled, the table empty.\<close>

definition initial_panel :: "'j panel" where
  "initial_panel = \<lparr>root = new_tree [] [] 0, cur_dir = [], cur_file = None, scans = [],
     unscannable = [], print_enabled = True, file_table = [], sort_column = SortedByModified,
     sort_reversed = True\<rparr>"

section \<open>Requests and the print button\<close>

definition scan_lost :: "'j panel \<Rightarrow> string \<Rightarrow> u32 \<Rightarrow> bool" where
  "scan_lost p path now = (case map_of (scans p) path of None \<Rightarrow> False | Some c \<Rightarrow> c \<noteq> now)"

text \<open>\<open>cur_file->full_path\<close>, \<open>None\<close> when \<open>cur_file\<close> is null.\<close>

definition selected_path :: "'j panel \<Rightarrow> string option" where
  "selected_path p =
     (case cur_file p of
        None \<Rightarrow> None
      | Some ks \<Rightarrow> map_option (\<lambda>n. full_path (info n)) (node_at (root p) ks))"

definition update_print_btn :: "'j panel \<Rightarrow> 'j panel" where
  "update_print_btn p =
     p\<lparr>print_enabled :=
        (case selected_path p of
           Some path \<Rightarrow> map_of (scans p) path = None
         | None \<Rightarrow> True)\<rparr>"

definition request_metadata :: "string \<Rightarrow> meta_method \<Rightarrow> u32 \<Rightarrow> 'j effect" where
  "request_metadata path meth now = Request path meth now"

definition show_file_detail :: "'j panel \<Rightarrow> 'j tree \<Rightarrow> u32 \<Rightarrow> 'j effect list" where
  "show_file_detail p f now =
     (if is_leaf f then
        (if contains_metadata f then [RefreshView (metadata (info f)) (full_path (info f))]
         else if map_of (scans p) (full_path (info f)) \<noteq> None
         then [ShowWithoutMetadata (full_path (info f)) (date_modified (info f)) Scanning]
         else []) @
        (if \<not> contains_metadata f \<or> scan_lost p (full_path (info f)) now
         then [request_metadata (full_path (info f)) FilesMetadata now]
         else [])
      else [])"

section \<open>The directory on screen\<close>

text \<open>The comparators of the two \<open>std::sort\<close> calls in \<open>show_dir\<close>.\<close>

definition entry_less :: "sort_col \<Rightarrow> bool \<Rightarrow> 'j tree \<Rightarrow> 'j tree \<Rightarrow> bool" where
  "entry_less col reversed x y =
     (if is_leaf x \<noteq> is_leaf y then \<not> is_leaf x
      else case col of
             SortedByModified \<Rightarrow>
               if reversed then date_modified (info x) > date_modified (info y)
               else date_modified (info y) > date_modified (info x)
           | SortedByName \<Rightarrow>
               if reversed then name (info x) > name (info y) else name (info y) > name (info x))"

text \<open>What \<open>std::sort\<close> promises of the entries of a directory.\<close>

definition sorted_entries :: "'j panel \<Rightarrow> 'j tree list \<Rightarrow> bool" where
  "sorted_entries p es \<longleftrightarrow>
     (case node_at (root p) (cur_dir p) of
        None \<Rightarrow> False
      | Some d \<Rightarrow> mset es = mset (map snd (children d)) \<and>
          sorted_wrt (\<lambda>x y. \<not> entry_less (sort_column p) (sort_reversed p) y x) es)"

definition row_of :: "'j tree \<Rightarrow> row" where
  "row_of e = (\<not> is_leaf e, name (info e))"

definition rows_of :: "'j tree list \<Rightarrow> row list" where
  "rows_of es = (True, ''..'') # map row_of es"

text \<open>\<open>show_dir(cur_dir, why)\<close>, with \<open>es\<close> the entries after \<open>std::sort\<close>.\<close>

definition show_dir :: "'j panel \<Rightarrow> 'j tree list \<Rightarrow> list_change \<Rightarrow> u32 \<Rightarrow> 'j panel \<times> 'j effect list" where
  "show_dir p es why now =
     (if file_table p = rows_of es \<and> why = Refetch then (p, [])
      else
        let p1 = p\<lparr>file_table := rows_of es\<rparr>
        in if why = UserAction \<or> cur_file p1 = None then
             (case find is_leaf es of
                None \<Rightarrow> (update_print_btn (p1\<lparr>cur_file := None\<rparr>), [])
              | Some e \<Rightarrow>
                  let p2 = p1\<lparr>cur_file := Some (cur_dir p1 @ [name (info e)])\<rparr>
                  in (update_print_btn p2, show_file_detail p2 e now))
           else (p1, []))"

text \<open>
  \<open>handle_callback\<close> for a click on a row. Reading a child that is not there is a null
  dereference in the source and \<open>None\<close> here. The directory branch only moves
  \<open>cur_dir\<close> and leaves \<open>show_dir\<close> to be run on it (the second component).
\<close>

datatype 'j click = ShowDir "'j panel" | Stay "'j panel" "'j effect list"

definition handle_callback :: "'j panel \<Rightarrow> row \<Rightarrow> u32 \<Rightarrow> 'j click option" where
  "handle_callback p r now =
     (case node_at (root p) (cur_dir p) of
        None \<Rightarrow> None
      | Some d \<Rightarrow>
          (if fst r then
             (if snd r = ''..'' then
                (if cur_dir p \<noteq> [] then Some (ShowDir (p\<lparr>cur_dir := butlast (cur_dir p)\<rparr>))
                 else Some (Stay p []))
              else
                (case get_child d (snd r) of
                   Some _ \<Rightarrow> Some (ShowDir (p\<lparr>cur_dir := cur_dir p @ [snd r]\<rparr>))
                 | None \<Rightarrow> Some (Stay p [])))
           else if cur_file p = Some (cur_dir p @ [snd r]) \<and> get_child d (snd r) \<noteq> None
           then Some (Stay p [])
           else
             (case get_child d (snd r) of
                None \<Rightarrow> if cur_file p = None then Some (Stay p []) else None
              | Some f \<Rightarrow>
                  let p1 = p\<lparr>cur_file := Some (cur_dir p @ [snd r])\<rparr>
                  in Some (Stay (update_print_btn p1) (show_file_detail p1 f now)))))"

section \<open>Replies\<close>

text \<open>Assignment through the pointer \<open>cur_file\<close>.\<close>

fun update_at :: "'j tree \<Rightarrow> string list \<Rightarrow> ('j tree \<Rightarrow> 'j tree) \<Rightarrow> 'j tree" where
  "update_at t [] f = f t"
| "update_at t (k # ks) f =
     (case get_child t k of
        None \<Rightarrow> t
      | Some c \<Rightarrow> Tree (info t) (smap_put k (update_at c ks f) (children t)))"

text \<open>The first part of \<open>handle_metadata\<close>: \<open>None\<close> when a later scan is still due.\<close>

definition close_scan :: "'j panel \<Rightarrow> string \<Rightarrow> meta_method \<Rightarrow> u32 \<Rightarrow> bool \<Rightarrow> u32 \<Rightarrow> 'j panel option" where
  "close_scan p path meth asked_on found now =
     (case map_of (scans p) path of
        None \<Rightarrow> Some p
      | Some c \<Rightarrow>
          if meth = FilesMetascan \<and> c \<noteq> asked_on then None
          else if meth = FilesMetascan \<or> (found \<and> c \<noteq> now)
          then Some (p\<lparr>scans := smap_erase path (scans p)\<rparr>)
          else Some p)"

text \<open>The rest, for a reply without a result about the file still selected.\<close>

definition metadata_missing ::
  "'j panel \<Rightarrow> string \<Rightarrow> u32 \<Rightarrow> meta_method \<Rightarrow> u32 \<Rightarrow> u32 \<Rightarrow> 'j panel \<times> 'j effect list" where
  "metadata_missing p path modified meth asked_on now =
     (let p1 = (if meth = FilesMetascan
                then p\<lparr>unscannable := smap_put path asked_on (unscannable p)\<rparr> else p)
      in if map_of (unscannable p1) path = Some now
         then (update_print_btn p1, [ShowWithoutMetadata path modified NoDetails])
         else if map_of (scans p1) path = Some now
         then (update_print_btn p1, [ShowWithoutMetadata path modified Scanning])
         else (update_print_btn (p1\<lparr>scans := smap_put path now (scans p1)\<rparr>),
               [ShowWithoutMetadata path modified Scanning,
                request_metadata path FilesMetascan now]))"

definition handle_metadata ::
  "'j panel \<Rightarrow> string \<Rightarrow> meta_method \<Rightarrow> u32 \<Rightarrow> 'j reply \<Rightarrow> u32 \<Rightarrow> 'j panel \<times> 'j effect list" where
  "handle_metadata p path meth asked_on j now =
     (case close_scan p path meth asked_on (j \<noteq> NoResult) now of
        None \<Rightarrow> (p, [])
      | Some p1 \<Rightarrow>
          (case cur_file p1 of
             None \<Rightarrow> (p1, [])
           | Some ks \<Rightarrow>
               (case node_at (root p1) ks of
                  None \<Rightarrow> (p1, [])
                | Some f \<Rightarrow>
                    if full_path (info f) \<noteq> path then (p1, [])
                    else
                      (case j of
                         Result m \<Rightarrow>
                           (update_print_btn (p1\<lparr>root := update_at (root p1) ks (\<lambda>t. set_metadata t m)\<rparr>),
                            [RefreshView (Some m) path])
                       | NoResult \<Rightarrow>
                           metadata_missing p1 path (date_modified (info f)) meth asked_on now))))"

section \<open>Refetching the list\<close>

text \<open>
  The reply handler of \<open>subscribe\<close> up to \<open>populate_files\<close>: the rebuilt tree, the
  directory found again and the selection looked up in it.
\<close>

definition relocate :: "'j panel \<Rightarrow> (string \<times> u32) list option \<Rightarrow> 'j panel" where
  "relocate p result =
     (let cur_path = (case node_at (root p) (cur_dir p) of
                        None \<Rightarrow> [] | Some d \<Rightarrow> full_path (info d));
          cur = (case cur_file p of None \<Rightarrow> None | Some ks \<Rightarrow> node_at (root p) ks);
          r = rebuild (root p) result;
          dir = find_path r (split cur_path CHR ''/'');
          file = (case cur of
                    None \<Rightarrow> None
                  | Some f \<Rightarrow>
                      if name (info f) = [] then None
                      else case node_at r (dir @ [name (info f)]) of
                             None \<Rightarrow> None
                           | Some f' \<Rightarrow>
                               if is_leaf f' \<and> full_path (info f') = full_path (info f)
                               then Some (dir @ [name (info f)]) else None)
      in p\<lparr>root := r, cur_dir := dir, cur_file := file\<rparr>)"

text \<open>\<open>populate_files\<close> and the rest of the handler, \<open>es\<close> the sorted entries.\<close>

definition list_reply ::
  "'j panel \<Rightarrow> (string \<times> u32) list option \<Rightarrow> 'j tree list \<Rightarrow> u32 \<Rightarrow> 'j panel \<times> 'j effect list" where
  "list_reply p result es now =
     (let p1 = relocate p result;
          (p2, fx) = show_dir p1 es Refetch now;
          kept = (case cur_file p1 of None \<Rightarrow> None | Some ks \<Rightarrow> node_at (root p1) ks);
          fx' = (case kept of
                   None \<Rightarrow> []
                 | Some f \<Rightarrow>
                     if \<not> contains_metadata f \<or> scan_lost p2 (full_path (info f)) now
                     then show_file_detail p2 f now else [])
      in (update_print_btn p2, fx @ fx'))"

section \<open>Buttons\<close>

text \<open>The two sort buttons, before the \<open>show_dir\<close> that follows.\<close>

definition modified_sort_btn :: "'j panel \<Rightarrow> 'j panel" where
  "modified_sort_btn p =
     p\<lparr>sort_reversed := (if sort_column p = SortedByModified then \<not> sort_reversed p else True),
       sort_column := SortedByModified\<rparr>"

definition az_sort_btn :: "'j panel \<Rightarrow> 'j panel" where
  "az_sort_btn p =
     p\<lparr>sort_reversed := (if sort_column p = SortedByName then \<not> sort_reversed p else False),
       sort_column := SortedByName\<rparr>"

text \<open>
  \<open>handle_print_callback\<close>; \<open>pstat\<close> is \<open>print_stats/state\<close> of the printer state,
  \<open>None\<close> when it is null.
\<close>

definition handle_print_callback :: "'j panel \<Rightarrow> string option \<Rightarrow> 'j effect list" where
  "handle_print_callback p pstat =
     (case selected_path p of
        None \<Rightarrow> []
      | Some path \<Rightarrow>
          if map_of (scans p) path \<noteq> None then []
          else if pstat \<noteq> None \<and> pstat \<noteq> Some ''printing'' \<and> pstat \<noteq> Some ''paused''
          then [PrintStart path, PrintStatusForeground]
          else [ShowPrompt])"

section \<open>The panel and Moonraker\<close>

type_synonym request = "string \<times> meta_method \<times> u32"

fun requests_of :: "'j effect list \<Rightarrow> request multiset" where
  "requests_of [] = {#}"
| "requests_of (Request path meth a # fx) = add_mset (path, meth, a) (requests_of fx)"
| "requests_of (_ # fx) = requests_of fx"

text \<open>
  The panel with the connection count of the websocket and the requests that have not
  been answered. A request stays unanswered when the connection it went out on is gone;
  one whose reply was under way is answered after the count has moved on, so a reply can
  arrive at any time.
\<close>

record 'j sys =
  panel :: "'j panel"
  conn :: u32
  pending :: "request multiset"

definition initial_sys :: "'j sys" where
  "initial_sys = \<lparr>panel = initial_panel, conn = 0, pending = {#}\<rparr>"

inductive panel_step :: "'j sys \<Rightarrow> 'j sys \<Rightarrow> bool" where
  reply: "(path, meth, a) \<in># pending s \<Longrightarrow>
    handle_metadata (panel s) path meth a j (conn s) = (p', fx) \<Longrightarrow>
    panel_step s (s\<lparr>panel := p', pending := pending s - {#(path, meth, a)#} + requests_of fx\<rparr>)"
| reconnect: "unat (conn s) < 2 ^ 32 - 1 \<Longrightarrow> panel_step s (s\<lparr>conn := conn s + 1\<rparr>)"
| click: "r \<in> set (file_table (panel s)) \<Longrightarrow>
    handle_callback (panel s) r (conn s) = Some (Stay p' fx) \<Longrightarrow>
    panel_step s (s\<lparr>panel := p', pending := pending s + requests_of fx\<rparr>)"
| click_dir: "r \<in> set (file_table (panel s)) \<Longrightarrow>
    handle_callback (panel s) r (conn s) = Some (ShowDir p1) \<Longrightarrow> sorted_entries p1 es \<Longrightarrow>
    show_dir p1 es UserAction (conn s) = (p', fx) \<Longrightarrow>
    panel_step s (s\<lparr>panel := p', pending := pending s + requests_of fx\<rparr>)"
| relist: "(\<forall>fs. result = Some fs \<longrightarrow> (\<forall>f \<in> set fs. [] \<notin> set (split (fst f) CHR ''/''))) \<Longrightarrow>
    sorted_entries (relocate (panel s) result) es \<Longrightarrow>
    list_reply (panel s) result es (conn s) = (p', fx) \<Longrightarrow>
    panel_step s (s\<lparr>panel := p', pending := pending s + requests_of fx\<rparr>)"
| sort_btn: "p1 = modified_sort_btn (panel s) \<or> p1 = az_sort_btn (panel s) \<Longrightarrow>
    sorted_entries p1 es \<Longrightarrow> show_dir p1 es UserAction (conn s) = (p', fx) \<Longrightarrow>
    panel_step s (s\<lparr>panel := p', pending := pending s + requests_of fx\<rparr>)"

inductive panel_reachable :: "'j sys \<Rightarrow> bool" where
  start: "panel_reachable initial_sys"
| step: "panel_reachable s \<Longrightarrow> panel_step s s' \<Longrightarrow> panel_reachable s'"

section \<open>Invariants\<close>

text \<open>The tree is well formed and the two pointers into it are valid.\<close>

definition tree_inv :: "'j panel \<Rightarrow> bool" where
  "tree_inv p \<longleftrightarrow> tree_ok (root p) \<and> keys_ok (root p) \<and> full_path (info (root p)) = [] \<and>
     node_at (root p) (cur_dir p) \<noteq> None \<and>
     (\<forall>ks. cur_file p = Some ks \<longrightarrow> (\<exists>f. node_at (root p) ks = Some f \<and> is_leaf f))"

text \<open>The rows on screen are the entries of the directory on screen.\<close>

definition table_inv :: "'j panel \<Rightarrow> bool" where
  "table_inv p \<longleftrightarrow> (file_table p = [] \<or>
     (\<exists>d rs. node_at (root p) (cur_dir p) = Some d \<and> file_table p = (True, ''..'') # rs \<and>
       mset rs = mset (map (row_of \<circ> snd) (children d))))"

text \<open>The button shows whether the selected file is being scanned.\<close>

definition button_inv :: "'j panel \<Rightarrow> bool" where
  "button_inv p \<longleftrightarrow> print_enabled p = print_enabled (update_print_btn p)"

text \<open>
  \<open>scans\<close> against the unanswered requests: an entry stands for an unanswered scan
  asked on the connection it names, and an unanswered scan asked on the present
  connection has its entry.
\<close>

definition scan_inv :: "(string \<times> u32) list \<Rightarrow> u32 \<Rightarrow> request multiset \<Rightarrow> bool" where
  "scan_inv sc now pend \<longleftrightarrow>
     (\<forall>path c. map_of sc path = Some c \<longrightarrow> (path, FilesMetascan, c) \<in># pend) \<and>
     (\<forall>path. (path, FilesMetascan, now) \<in># pend \<longrightarrow> map_of sc path = Some now) \<and>
     (\<forall>path c. count pend (path, FilesMetascan, c) \<le> 1) \<and>
     (\<forall>path meth a. (path, meth, a) \<in># pend \<longrightarrow> unat a \<le> unat now)"

text \<open>A file refused on the present connection is not waiting for another scan.\<close>

definition refused_inv :: "'j panel \<Rightarrow> u32 \<Rightarrow> bool" where
  "refused_inv p now \<longleftrightarrow>
     (\<forall>path a. map_of (unscannable p) path = Some a \<longrightarrow>
        unat a \<le> unat now \<and> (a = now \<longrightarrow> map_of (scans p) path = None))"

definition sys_inv :: "'j sys \<Rightarrow> bool" where
  "sys_inv s \<longleftrightarrow> tree_inv (panel s) \<and> table_inv (panel s) \<and> button_inv (panel s) \<and>
     scan_inv (scans (panel s)) (conn s) (pending s) \<and> refused_inv (panel s) (conn s)"

section \<open>Scans and requests\<close>

text \<open>Effects whose requests only ask for stored metadata, on the present connection.\<close>

definition asks_metadata :: "u32 \<Rightarrow> 'j effect list \<Rightarrow> bool" where
  "asks_metadata now fx \<longleftrightarrow> (\<forall>(path, meth, a) \<in># requests_of fx. meth = FilesMetadata \<and> a = now)"

lemma requests_of_append [simp]: "requests_of (xs @ ys) = requests_of xs + requests_of ys"
  by (induction xs rule: requests_of.induct) auto

lemma asks_metadata_Nil [simp]: "asks_metadata now []"
  by (simp add: asks_metadata_def)

lemma asks_metadata_append [simp]:
  "asks_metadata now (xs @ ys) \<longleftrightarrow> asks_metadata now xs \<and> asks_metadata now ys"
  by (simp add: asks_metadata_def ball_Un)

lemma asks_show_file_detail [simp]: "asks_metadata now (show_file_detail p f now)"
  by (auto simp: asks_metadata_def show_file_detail_def request_metadata_def)

lemma scans_update_print_btn [simp]:
  "scans (update_print_btn p) = scans p" "root (update_print_btn p) = root p"
  "cur_dir (update_print_btn p) = cur_dir p" "cur_file (update_print_btn p) = cur_file p"
  "file_table (update_print_btn p) = file_table p" "unscannable (update_print_btn p) = unscannable p"
  by (simp_all add: update_print_btn_def)

lemma selected_path_print_enabled [simp]: "selected_path (p\<lparr>print_enabled := b\<rparr>) = selected_path p"
  by (simp add: selected_path_def split: option.split)

lemma selected_path_frame:
  "root p1 = root p \<Longrightarrow> cur_file p1 = cur_file p \<Longrightarrow> selected_path p1 = selected_path p"
  by (simp add: selected_path_def split: option.split)

lemma button_update_print_btn [simp]: "button_inv (update_print_btn p)"
  by (cases "selected_path p") (simp_all add: button_inv_def update_print_btn_def)

lemma show_dir_scans:
  "show_dir p es why now = (p', fx) \<Longrightarrow>
     scans p' = scans p \<and> unscannable p' = unscannable p \<and> asks_metadata now fx"
  by (auto simp: show_dir_def Let_def split: if_splits option.splits)

lemma handle_callback_scans:
  "handle_callback p r now = Some (Stay p' fx) \<Longrightarrow>
     scans p' = scans p \<and> unscannable p' = unscannable p \<and> asks_metadata now fx"
  by (auto simp: handle_callback_def Let_def split: if_splits option.splits)

lemma handle_callback_dir_scans:
  "handle_callback p r now = Some (ShowDir p') \<Longrightarrow>
     scans p' = scans p \<and> unscannable p' = unscannable p"
  by (auto simp: handle_callback_def Let_def split: if_splits option.splits)

lemma relocate_scans [simp]:
  "scans (relocate p result) = scans p" "unscannable (relocate p result) = unscannable p"
  by (simp_all add: relocate_def Let_def)

lemma list_reply_scans:
  "list_reply p result es now = (p', fx) \<Longrightarrow>
     scans p' = scans p \<and> unscannable p' = unscannable p \<and> asks_metadata now fx"
  using show_dir_scans [of "relocate p result" es Refetch now]
  by (auto simp: list_reply_def Let_def split: prod.splits option.splits)

lemma scan_inv_asks_metadata:
  assumes "scan_inv sc now pend" "asks_metadata now fx"
  shows "scan_inv sc now (pend + requests_of fx)"
proof -
  have "count (requests_of fx) (path, FilesMetascan, c) = 0" for path c
    using assms(2) by (fastforce simp: asks_metadata_def count_eq_zero_iff)
  then show ?thesis
    using assms by (fastforce simp: scan_inv_def asks_metadata_def not_in_iff)
qed

lemma scan_inv_reconnect:
  assumes "scan_inv sc now pend" "unat now < 2 ^ 32 - 1"
  shows "scan_inv sc (now + 1) pend"
proof -
  have n: "unat (now + 1) = unat now + 1"
    using assms(2) by (simp add: unat_word_ariths)
  have "(path, meth, now + 1) \<notin># pend" for path meth
    using assms(1) n by (force simp: scan_inv_def)
  with assms(1) n show ?thesis by (fastforce simp: scan_inv_def)
qed

text \<open>Taking an answered request out: the bounds carry over, the two directions remain.\<close>

lemma in_remove_other: "x \<noteq> y \<Longrightarrow> x \<in># M - {#y#} \<longleftrightarrow> x \<in># M"
  by (simp add: in_diff_count)

lemma scan_inv_remove:
  assumes "scan_inv sc now pend"
    and "\<And>q c. map_of sc' q = Some c \<Longrightarrow> (q, FilesMetascan, c) \<in># pend - {#r#}"
    and "\<And>q. (q, FilesMetascan, now) \<in># pend - {#r#} \<Longrightarrow> map_of sc' q = Some now"
  shows "scan_inv sc' now (pend - {#r#})"
proof -
  have "count (pend - {#r#}) x \<le> count pend x" for x by simp
  with assms(1) have "count (pend - {#r#}) (path, FilesMetascan, c) \<le> 1" for path c
    unfolding scan_inv_def by (meson order_trans)
  with assms show ?thesis unfolding scan_inv_def by (meson in_diffD)
qed

text \<open>Answering a request for stored metadata, before anything else is done.\<close>

lemma scan_inv_remove_metadata:
  assumes "scan_inv sc now pend"
  shows "scan_inv sc now (pend - {#(path, FilesMetadata, a)#})"
  by (rule scan_inv_remove [OF assms])
     (use assms in \<open>auto simp: scan_inv_def in_remove_other\<close>)

text \<open>Answering the scan that the entry stands for, which closes it.\<close>

lemma scan_inv_close:
  assumes "scan_inv sc now pend" "map_of sc path = Some a \<or> map_of sc path = None"
  shows "scan_inv (smap_erase path sc) now (pend - {#(path, FilesMetascan, a)#})"
proof -
  have "(path, FilesMetascan, now) \<notin># pend - {#(path, FilesMetascan, a)#}"
  proof
    assume *: "(path, FilesMetascan, now) \<in># pend - {#(path, FilesMetascan, a)#}"
    with assms(1) have "map_of sc path = Some now" by (auto simp: scan_inv_def dest: in_diffD)
    with assms(2) have "a = now" by auto
    with * have "1 < count pend (path, FilesMetascan, now)" by (simp add: in_diff_count)
    moreover from assms(1) have "count pend (path, FilesMetascan, now) \<le> 1"
      by (auto simp: scan_inv_def)
    ultimately show False by simp
  qed
  then show ?thesis
    using assms(1) by (intro scan_inv_remove [OF assms(1)])
      (auto simp: scan_inv_def smap_simps in_remove_other dest: in_diffD split: if_splits)
qed

text \<open>Answering an earlier scan of a file whose entry names a later one.\<close>

lemma scan_inv_stale:
  assumes "scan_inv sc now pend" "map_of sc path = Some c" "c \<noteq> a"
  shows "scan_inv sc now (pend - {#(path, FilesMetascan, a)#})"
proof (rule scan_inv_remove [OF assms(1)])
  fix q d
  assume q: "map_of sc q = Some d"
  with assms(2,3) have "(q, FilesMetascan, d) \<noteq> (path, FilesMetascan, a)" by auto
  with q assms(1) show "(q, FilesMetascan, d) \<in># pend - {#(path, FilesMetascan, a)#}"
    by (simp add: in_remove_other scan_inv_def)
next
  fix q
  assume "(q, FilesMetascan, now) \<in># pend - {#(path, FilesMetascan, a)#}"
  with assms(1) show "map_of sc q = Some now" by (auto simp: scan_inv_def dest: in_diffD)
qed

text \<open>Metadata turned up for a file whose scan was asked on an earlier connection.\<close>

lemma scan_inv_forget:
  "scan_inv sc now pend \<Longrightarrow> map_of sc path = Some c \<Longrightarrow> c \<noteq> now \<Longrightarrow>
     scan_inv (smap_erase path sc) now pend"
  by (auto simp: scan_inv_def smap_simps)

lemma scan_inv_cong: "map_of sc = map_of sc' \<Longrightarrow> scan_inv sc now pend = scan_inv sc' now pend"
  by (simp add: scan_inv_def)

text \<open>Asking for a scan.\<close>

lemma scan_inv_ask:
  assumes "scan_inv sc now pend" "map_of sc path \<noteq> Some now"
  shows "scan_inv (smap_put path now sc) now (add_mset (path, FilesMetascan, now) pend)"
proof -
  from assms have "(path, FilesMetascan, now) \<notin># pend" by (auto simp: scan_inv_def)
  then show ?thesis
    using assms(1) by (auto simp: scan_inv_def smap_simps not_in_iff)
qed

lemma scan_inv_close_scan:
  assumes "scan_inv (scans p) now pend" "(path, meth, a) \<in># pend"
  shows "case close_scan p path meth a found now of
      None \<Rightarrow> scan_inv (scans p) now (pend - {#(path, meth, a)#})
    | Some p1 \<Rightarrow> scan_inv (scans p1) now (pend - {#(path, meth, a)#})"
proof (cases meth)
  case FilesMetadata
  have r: "scan_inv (scans p) now (pend - {#(path, FilesMetadata, a)#})"
    by (rule scan_inv_remove_metadata [OF assms(1)])
  with FilesMetadata scan_inv_forget [OF r, of path] show ?thesis
    by (auto simp: close_scan_def split: option.split)
next
  case FilesMetascan
  show ?thesis
  proof (cases "map_of (scans p) path")
    case None
    then have "map_of (smap_erase path (scans p)) = map_of (scans p)"
      by (auto simp: smap_simps)
    from scan_inv_close [OF assms(1) disjI2 [OF None], of a]
    have "scan_inv (scans p) now (pend - {#(path, FilesMetascan, a)#})"
      by (rule scan_inv_cong [THEN iffD1, rotated]) fact
    with None FilesMetascan show ?thesis by (simp add: close_scan_def)
  next
    case (Some c)
    with FilesMetascan scan_inv_close [OF assms(1), of path a] scan_inv_stale [OF assms(1) Some, of a]
    show ?thesis by (auto simp: close_scan_def)
  qed
qed

lemma scan_inv_metadata_missing:
  assumes "scan_inv (scans p) now pend"
    and "metadata_missing p path modified meth a now = (p', fx)"
  shows "scan_inv (scans p') now (pend + requests_of fx)"
  using assms scan_inv_ask [OF assms(1), of path]
  by (auto simp: metadata_missing_def Let_def request_metadata_def split: if_splits)

lemma scan_inv_handle_metadata:
  assumes "scan_inv (scans p) now pend" "(path, meth, a) \<in># pend"
    and "handle_metadata p path meth a j now = (p', fx)"
  shows "scan_inv (scans p') now (pend - {#(path, meth, a)#} + requests_of fx)"
proof (cases "close_scan p path meth a (j \<noteq> NoResult) now")
  case None
  with assms(3) scan_inv_close_scan [OF assms(1,2), of "j \<noteq> NoResult"] show ?thesis
    by (auto simp: handle_metadata_def)
next
  case (Some p1)
  from Some scan_inv_close_scan [OF assms(1,2), of "j \<noteq> NoResult"]
  have p1: "scan_inv (scans p1) now (pend - {#(path, meth, a)#})" by simp
  from Some assms(3) p1 scan_inv_metadata_missing [OF p1] show ?thesis
    by (auto simp: handle_metadata_def split: option.splits if_splits reply.splits)
qed

section \<open>Tree, table and button\<close>

lemma skel_update_at:
  "(\<And>x. skel (f x) = skel x) \<Longrightarrow> skel (update_at t ks f) = skel t"
proof (induction ks arbitrary: t)
  case Nil
  then show ?case by simp
next
  case (Cons k ks)
  show ?case
  proof (cases t)
    case (Tree i cs)
    with Cons skel_children_update [of cs k _ "update_at _ ks f"] show ?thesis
      by (auto simp: get_child_def smap_put_def split: option.split)
  qed
qed

lemma row_of_skel: "row_of (skel t) = row_of t"
  by (simp add: row_of_def)

lemma inv_skel:
  assumes "skel (root p') = skel (root p)" "cur_dir p' = cur_dir p" "cur_file p' = cur_file p"
    "file_table p' = file_table p"
  shows "tree_inv p \<Longrightarrow> tree_inv p'" "table_inv p \<Longrightarrow> table_inv p'"
proof -
  note ok = skel_eq_ok [OF assms(1)]
  show "tree_inv p'" if t: "tree_inv p"
  proof -
    from t obtain d where "node_at (root p) (cur_dir p) = Some d" by (auto simp: tree_inv_def)
    then obtain d' where "node_at (root p') (cur_dir p) = Some d'"
      by (rule skel_eq_node_at [OF assms(1) [symmetric]])
    moreover have "\<exists>f. node_at (root p') ks = Some f \<and> is_leaf f" if "cur_file p = Some ks" for ks
    proof -
      from t that obtain f where f: "node_at (root p) ks = Some f" "is_leaf f"
        by (auto simp: tree_inv_def)
      from assms(1) [symmetric] f(1) obtain f' where "node_at (root p') ks = Some f'" "skel f' = skel f"
        by (rule skel_eq_node_at)
      with f(2) skel_eq_ok(5) show ?thesis by blast
    qed
    ultimately show ?thesis using t ok assms by (simp add: tree_inv_def)
  qed
  show "table_inv p'" if t: "table_inv p"
  proof (cases "file_table p = []")
    case True
    then show ?thesis using assms by (simp add: table_inv_def)
  next
    case False
    with t obtain d rs where d: "node_at (root p) (cur_dir p) = Some d"
      "file_table p = (True, ''..'') # rs" "mset rs = mset (map (row_of \<circ> snd) (children d))"
      by (auto simp: table_inv_def)
    from assms(1) [symmetric] d(1) obtain d' where d': "node_at (root p') (cur_dir p) = Some d'" "skel d' = skel d"
      by (rule skel_eq_node_at)
    have rows: "map (row_of \<circ> snd) (children (skel x)) = map (row_of \<circ> snd) (children x)" for x :: "'a tree"
      by (auto simp: children_skel row_of_skel)
    have "mset rs = mset (map (row_of \<circ> snd) (children d'))" by (metis d(3) rows d'(2))
    with d(2) d'(1) show ?thesis using assms(2,4) unfolding table_inv_def by auto
  qed
qed

lemma entry_at:
  assumes "tree_ok t" "node_at t dir = Some d" "e \<in> snd ` set (children d)"
  shows "node_at t (dir @ [name (info e)]) = Some e" "get_child d (name (info e)) = Some e"
proof -
  from full_path_node_at [OF assms(1,2)] have d: "tree_ok d" by blast
  from assms(3) obtain k where "(k, e) \<in> set (children d)" by auto
  with d have k: "get_child d k = Some e" by (simp add: get_child_def smap_map_of tree_ok_smap)
  with tree_ok_child [OF d k] show "get_child d (name (info e)) = Some e" by simp
  with assms(2) show "node_at t (dir @ [name (info e)]) = Some e" by (simp add: node_at_append)
qed

lemma inv_update_print_btn [simp]:
  "tree_inv (update_print_btn p) = tree_inv p" "table_inv (update_print_btn p) = table_inv p"
  "table_inv (p\<lparr>cur_file := x\<rparr>) = table_inv p"
  by (simp_all add: tree_inv_def table_inv_def)

lemma tree_inv_cur_file:
  "tree_inv p \<Longrightarrow> node_at (root p) ks = Some f \<Longrightarrow> is_leaf f \<Longrightarrow> tree_inv (p\<lparr>cur_file := Some ks\<rparr>)"
  by (simp add: tree_inv_def)

lemma tree_inv_cur_dir: "tree_inv p \<Longrightarrow> node_at (root p) ks \<noteq> None \<Longrightarrow> tree_inv (p\<lparr>cur_dir := ks\<rparr>)"
  by (simp add: tree_inv_def)

lemma tree_inv_show_dir:
  assumes inv: "tree_inv p" and es: "sorted_entries p es" and sd: "show_dir p es why now = (p', fx)"
  shows "tree_inv p'" "table_inv p'" "why = UserAction \<Longrightarrow> button_inv p'"
    "root p' = root p" "cur_dir p' = cur_dir p" "cur_file p \<noteq> None \<Longrightarrow> why = Refetch \<Longrightarrow> cur_file p' = cur_file p"
proof -
  from es obtain d where d: "node_at (root p) (cur_dir p) = Some d"
    "mset es = mset (map snd (children d))"
    by (auto simp: sorted_entries_def split: option.splits)
  have table: "mset (map row_of es) = mset (map (row_of \<circ> snd) (children d))"
    using d(2) by (metis map_map mset_map)
  have ent: "node_at (root p) (cur_dir p @ [name (info e)]) = Some e" if "e \<in> set es" for e
    using that d entry_at(1) [OF _ d(1)] inv by (metis tree_inv_def list.set_map mset_eq_setD)
  show "root p' = root p" "cur_dir p' = cur_dir p" "why = UserAction \<Longrightarrow> button_inv p'"
    "cur_file p \<noteq> None \<Longrightarrow> why = Refetch \<Longrightarrow> cur_file p' = cur_file p"
    using sd by (auto simp: show_dir_def Let_def split: if_splits option.splits)
  show "tree_inv p'"
    using sd inv ent
    by (auto simp: show_dir_def Let_def tree_inv_def find_Some_iff split: if_splits option.splits)
  show "table_inv p'"
    using sd d table
    by (auto simp: show_dir_def Let_def table_inv_def rows_of_def split: if_splits option.splits)
qed

lemma handle_callback_inv:
  assumes inv: "tree_inv p" "table_inv p" "button_inv p" and r: "r \<in> set (file_table p)"
  shows "case handle_callback p r now of
      None \<Rightarrow> False
    | Some (Stay p' fx) \<Rightarrow> tree_inv p' \<and> table_inv p' \<and> button_inv p'
    | Some (ShowDir p1) \<Rightarrow> tree_inv p1"
proof -
  from inv(2) r obtain d rs where d: "node_at (root p) (cur_dir p) = Some d"
    "file_table p = (True, ''..'') # rs" "mset rs = mset (map (row_of \<circ> snd) (children d))"
    by (auto simp: table_inv_def)
  have up: "node_at (root p) (butlast (cur_dir p)) \<noteq> None" if "cur_dir p \<noteq> []"
    using node_at_append [of "root p" "butlast (cur_dir p)" "[last (cur_dir p)]"] that d(1)
    by (auto split: option.splits)
  have leaf: "\<exists>f. get_child d (snd r) = Some f \<and> is_leaf f" if "\<not> fst r"
  proof -
    from that r d(2) have "r \<in> set rs" by auto
    with mset_eq_setD [OF d(3)] obtain e where e: "e \<in> snd ` set (children d)" "r = row_of e" by auto
    with entry_at(2) [OF _ d(1) e(1)] inv(1) that show ?thesis
      by (auto simp: tree_inv_def row_of_def)
  qed
  have sub: "node_at (root p) (cur_dir p @ [k]) = Some c" if "get_child d k = Some c" for k c
    using that d(1) by (simp add: node_at_append)
  show ?thesis
  proof (cases "fst r")
    case True
    with inv d(1) up sub show ?thesis
      by (auto simp: handle_callback_def intro!: tree_inv_cur_dir split: option.split)
  next
    case False
    with leaf obtain f where f: "get_child d (snd r) = Some f" "is_leaf f" by auto
    with inv d(1) False tree_inv_cur_file [OF inv(1) sub [OF f(1)] f(2)] show ?thesis
      by (simp add: handle_callback_def Let_def)
  qed
qed

lemma find_path_valid: "node_at t (find_path t ks) \<noteq> None"
  by (auto simp: find_path_def split: option.split)

lemma tree_inv_relocate:
  assumes "tree_inv p"
    and "\<forall>fs. result = Some fs \<longrightarrow> (\<forall>f \<in> set fs. [] \<notin> set (split (fst f) CHR ''/''))"
  shows "tree_inv (relocate p result)"
proof -
  have "full_path (info (root p)) = []" using assms(1) by (simp add: tree_inv_def)
  from rebuild_ok [OF this assms(2)] show ?thesis
    using find_path_valid
    by (auto simp: tree_inv_def relocate_def Let_def split: option.splits if_splits)
qed

lemma list_reply_inv:
  assumes "tree_inv p" "sorted_entries (relocate p result) es"
    and "\<forall>fs. result = Some fs \<longrightarrow> (\<forall>f \<in> set fs. [] \<notin> set (split (fst f) CHR ''/''))"
    and "list_reply p result es now = (p', fx)"
  shows "tree_inv p' \<and> table_inv p' \<and> button_inv p'"
proof -
  obtain p2 fx2 where sd: "show_dir (relocate p result) es Refetch now = (p2, fx2)" by force
  from tree_inv_show_dir [OF tree_inv_relocate [OF assms(1,3)] assms(2) sd] assms(4) sd
  show ?thesis by (auto simp: list_reply_def Let_def)
qed

lemma close_scan_frame:
  "close_scan p path meth a found now = Some p1 \<Longrightarrow>
     root p1 = root p \<and> cur_dir p1 = cur_dir p \<and> cur_file p1 = cur_file p \<and>
     file_table p1 = file_table p \<and> print_enabled p1 = print_enabled p \<and>
     (\<forall>q. q \<noteq> path \<longrightarrow> map_of (scans p1) q = map_of (scans p) q)"
  by (auto simp: close_scan_def smap_simps split: option.splits if_splits)

lemma metadata_missing_inv:
  "metadata_missing p path modified meth a now = (p', fx) \<Longrightarrow>
     root p' = root p \<and> cur_dir p' = cur_dir p \<and> cur_file p' = cur_file p \<and>
     file_table p' = file_table p \<and> button_inv p'"
  by (auto simp: metadata_missing_def Let_def split: if_splits)

text \<open>A reply about a file that is not selected does not concern the button.\<close>

lemma button_inv_other:
  assumes "button_inv p" "root p1 = root p" "cur_file p1 = cur_file p" "print_enabled p1 = print_enabled p"
    and "\<And>q. q \<noteq> path \<Longrightarrow> map_of (scans p1) q = map_of (scans p) q" "selected_path p \<noteq> Some path"
  shows "button_inv p1"
proof -
  have "selected_path p1 = selected_path p" using assms(2,3) by (rule selected_path_frame)
  with assms(1,4-6) show ?thesis
    by (auto simp: button_inv_def update_print_btn_def split: option.splits)
qed

lemma handle_metadata_inv:
  assumes inv: "tree_inv p" "table_inv p" "button_inv p"
    and hm: "handle_metadata p path meth a j now = (p', fx)"
  shows "tree_inv p' \<and> table_inv p' \<and> button_inv p'"
proof (cases "close_scan p path meth a (j \<noteq> NoResult) now")
  case None
  with inv hm show ?thesis by (simp add: handle_metadata_def)
next
  case (Some p1)
  note fr = close_scan_frame [OF Some]
  have p1: "tree_inv p1" "table_inv p1"
    using inv_skel [of p1 p] fr inv by auto
  show ?thesis
  proof (cases "selected_path p = Some path")
    case False
    with fr selected_path_frame [of p1 p] have "selected_path p1 \<noteq> Some path" by simp
    then have "p' = p1"
      using Some hm by (auto simp: handle_metadata_def selected_path_def split: option.splits if_splits)
    moreover have "button_inv p1"
      using button_inv_other [OF inv(3), of p1 path] fr False by simp
    ultimately show ?thesis using p1 by simp
  next
    case True
    with fr obtain ks f where f: "cur_file p1 = Some ks" "node_at (root p1) ks = Some f"
      "full_path (info f) = path"
      by (auto simp: selected_path_def split: option.splits)
    show ?thesis
    proof (cases j)
      case (Result m)
      let ?q = "p1\<lparr>root := update_at (root p1) ks (\<lambda>t. set_metadata t m)\<rparr>"
      have "skel (root ?q) = skel (root p1)" by (simp add: skel_update_at)
      from inv_skel [OF this] p1 have "tree_inv ?q" "table_inv ?q" by simp_all
      with Result Some f hm show ?thesis by (auto simp: handle_metadata_def)
    next
      case NoResult
      with Some f hm have "metadata_missing p1 path (date_modified (info f)) meth a now = (p', fx)"
        by (simp add: handle_metadata_def)
      note mm = metadata_missing_inv [OF this]
      then show ?thesis using inv_skel [of p' p1] p1 by auto
    qed
  qed
qed

lemma sorted_frame:
  "p1 = modified_sort_btn p \<or> p1 = az_sort_btn p \<Longrightarrow>
     scans p1 = scans p \<and> unscannable p1 = unscannable p \<and> root p1 = root p \<and> (tree_inv p \<longrightarrow> tree_inv p1)"
  by (auto simp: modified_sort_btn_def az_sort_btn_def tree_inv_def)

lemma refused_inv_frame:
  "scans p' = scans p \<Longrightarrow> unscannable p' = unscannable p \<Longrightarrow> refused_inv p' now = refused_inv p now"
  by (simp add: refused_inv_def)

lemma refused_inv_reconnect:
  assumes "refused_inv p now" "unat now < 2 ^ 32 - 1"
  shows "refused_inv p (now + 1)"
proof -
  have n: "unat (now + 1) = unat now + 1" using assms(2) by (simp add: unat_word_ariths)
  have "map_of (unscannable p) path \<noteq> Some (now + 1)" for path
    using assms(1) n by (fastforce simp: refused_inv_def)
  with assms(1) n show ?thesis by (fastforce simp: refused_inv_def)
qed

lemma close_scan_refused:
  assumes "close_scan p path meth a found now = Some p1"
  shows "unscannable p1 = unscannable p" "meth = FilesMetascan \<Longrightarrow> map_of (scans p1) path = None"
    "refused_inv p now \<Longrightarrow> refused_inv p1 now"
  using assms by (auto simp: close_scan_def refused_inv_def smap_simps split: option.splits if_splits)

lemma metadata_missing_refused:
  assumes "metadata_missing p path modified meth a now = (p', fx)" "refused_inv p now"
    and "unat a \<le> unat now" "meth = FilesMetascan \<Longrightarrow> map_of (scans p) path = None"
  shows "refused_inv p' now"
  using assms
  by (auto simp: metadata_missing_def Let_def refused_inv_def smap_simps split: if_splits)

lemma handle_metadata_refused:
  assumes "handle_metadata p path meth a j now = (p', fx)" "refused_inv p now" "unat a \<le> unat now"
  shows "refused_inv p' now"
proof (cases "close_scan p path meth a (j \<noteq> NoResult) now")
  case None
  with assms show ?thesis by (simp add: handle_metadata_def)
next
  case (Some p1)
  note c = close_scan_refused [OF Some]
  have p1: "refused_inv p1 now" using c(3) assms(2) by simp
  show ?thesis
    using assms(1) Some p1 metadata_missing_refused [OF _ p1 assms(3) c(2)]
    by (auto simp: handle_metadata_def refused_inv_def split: option.splits if_splits reply.splits)
qed

lemma sys_inv_initial: "sys_inv initial_sys"
  by (simp add: sys_inv_def initial_sys_def initial_panel_def tree_inv_def table_inv_def button_inv_def
      update_print_btn_def selected_path_def scan_inv_def refused_inv_def)

lemma sys_inv_step: "panel_step s s' \<Longrightarrow> sys_inv s \<Longrightarrow> sys_inv s'"
proof (induction rule: panel_step.induct)
  case (reply path meth a s j p' fx)
  then show ?case
    using scan_inv_handle_metadata [OF _ reply(1,2)] handle_metadata_inv [OF _ _ _ reply(2)]
      handle_metadata_refused [OF reply(2)]
    by (auto simp: sys_inv_def scan_inv_def)
next
  case (reconnect s)
  then show ?case by (auto simp: sys_inv_def intro: scan_inv_reconnect refused_inv_reconnect)
next
  case (click r s p' fx)
  then show ?case
    using handle_callback_inv [of "panel s" r "conn s"] handle_callback_scans [OF click(2)]
      scan_inv_asks_metadata refused_inv_frame [of p' "panel s"]
    by (auto simp: sys_inv_def)
next
  case (click_dir r s p1 es p' fx)
  then have "tree_inv p1"
    using handle_callback_inv [of "panel s" r "conn s"] by (auto simp: sys_inv_def)
  with click_dir show ?case
    using tree_inv_show_dir [of p1 es UserAction "conn s" p' fx] show_dir_scans [OF click_dir(4)]
      handle_callback_dir_scans [OF click_dir(2)] scan_inv_asks_metadata
      refused_inv_frame [of p' "panel s"]
    by (auto simp: sys_inv_def)
next
  case (relist result s es p' fx)
  then show ?case
    using list_reply_inv [OF _ relist(2,1,3)] list_reply_scans [OF relist(3)] scan_inv_asks_metadata
      refused_inv_frame [of p' "panel s"]
    by (auto simp: sys_inv_def)
next
  case (sort_btn p1 s es p' fx)
  then show ?case
    using tree_inv_show_dir [of p1 es UserAction "conn s" p' fx] show_dir_scans [OF sort_btn(3)]
      sorted_frame [OF sort_btn(1)] scan_inv_asks_metadata
      refused_inv_frame [of p' "panel s"]
    by (auto simp: sys_inv_def)
qed

lemma reachable_sys_inv: "panel_reachable s \<Longrightarrow> sys_inv s"
  by (induction rule: panel_reachable.induct) (auto intro: sys_inv_initial sys_inv_step)

lemma selected_path_skel:
  assumes "skel (root p') = skel (root p)" "cur_file p' = cur_file p"
  shows "selected_path p' = selected_path p"
proof (cases "cur_file p")
  case None
  with assms(2) show ?thesis by (simp add: selected_path_def)
next
  case (Some ks)
  from node_at_skel [of "root p'" ks] node_at_skel [of "root p" ks] assms(1)
  have "map_option skel (node_at (root p') ks) = map_option skel (node_at (root p) ks)" by simp
  then have "map_option (\<lambda>n. full_path (info n)) (node_at (root p') ks) =
      map_option (\<lambda>n. full_path (info n)) (node_at (root p) ks)"
    by (cases "node_at (root p') ks"; cases "node_at (root p) ks") (simp_all, metis info_skel(2))
  with Some assms(2) show ?thesis by (simp add: selected_path_def)
qed

lemma print_enabled_update:
  "selected_path p = Some path \<Longrightarrow> print_enabled (update_print_btn p) \<longleftrightarrow> map_of (scans p) path = None"
  by (simp add: update_print_btn_def)

text \<open>A reply about the selected file, once the scan entry has been dealt with.\<close>

lemma handle_metadata_selected:
  assumes "selected_path p = Some path" "close_scan p path meth a (j \<noteq> NoResult) now = Some p1"
    and "handle_metadata p path meth a j now = (p', fx)"
  shows "(j \<noteq> NoResult \<longrightarrow> scans p' = scans p1 \<and> (print_enabled p' \<longleftrightarrow> map_of (scans p1) path = None)) \<and>
    (j = NoResult \<longrightarrow> (\<exists>modified. metadata_missing p1 path modified meth a now = (p', fx)))"
proof -
  note fr = close_scan_frame [OF assms(2)]
  with assms(1) obtain ks f where f: "cur_file p1 = Some ks" "node_at (root p1) ks = Some f"
    "full_path (info f) = path"
    by (auto simp: selected_path_def split: option.splits)
  show ?thesis
  proof (cases j)
    case (Result m)
    let ?q = "p1\<lparr>root := update_at (root p1) ks (\<lambda>t. set_metadata t m)\<rparr>"
    have "selected_path ?q = selected_path p1"
      by (rule selected_path_skel) (simp_all add: skel_update_at)
    also have "\<dots> = Some path" using selected_path_frame [of p1 p] fr assms(1) by simp
    finally have "print_enabled (update_print_btn ?q) \<longleftrightarrow> map_of (scans p1) path = None"
      by (simp add: print_enabled_update)
    with assms(2,3) Result f show ?thesis by (auto simp: handle_metadata_def)
  next
    case NoResult
    with assms(2,3) f show ?thesis by (auto simp: handle_metadata_def)
  qed
qed

section \<open>A run of the panel\<close>

text \<open>A list with one file arrives; its metadata is asked for and missing; a scan is asked.\<close>

definition leaf_a :: "nat tree" where
  "leaf_a = new_tree ''a'' ''a'' 5"

definition sample_listed :: "nat sys" where
  "sample_listed =
     (let (p, fx) = list_reply initial_panel (Some [(''a'', 5)]) [leaf_a] 0
      in \<lparr>panel = p, conn = 0, pending = requests_of fx\<rparr>)"

definition sample_scanning :: "nat sys" where
  "sample_scanning =
     (let (p, fx) = handle_metadata (panel sample_listed) ''a'' FilesMetadata 0 NoResult 0
      in sample_listed\<lparr>panel := p, pending := requests_of fx\<rparr>)"

lemma sample_listed_eq:
  "panel sample_listed =
     \<lparr>root = Tree \<lparr>name = [], full_path = [], date_modified = 5, metadata = None, has_metadata = False\<rparr>
               [(''a'', leaf_a)],
      cur_dir = [], cur_file = Some [''a''], scans = [], unscannable = [], print_enabled = True,
      file_table = [(True, ''..''), (False, ''a'')], sort_column = SortedByModified,
      sort_reversed = True\<rparr>"
  "pending sample_listed = {#(''a'', FilesMetadata, 0)#}" "conn sample_listed = 0"
  by code_simp+

lemma sample_scanning_eq:
  "panel sample_scanning =
     (panel sample_listed)\<lparr>scans := [(''a'', 0)], print_enabled := False\<rparr>"
  "pending sample_scanning = {#(''a'', FilesMetascan, 0)#}" "conn sample_scanning = 0"
  by code_simp+

lemma sample_listed_reachable: "panel_reachable sample_listed"
proof (rule panel_reachable.step [OF panel_reachable.start])
  have fs: "[] \<notin> set (split ''a'' CHR ''/'')" by code_simp
  have rel: "node_at (root (relocate initial_panel (Some [(''a'', 5)]))) [] =
      Some (Tree \<lparr>name = [], full_path = [], date_modified = 5, metadata = None, has_metadata = False\<rparr>
               [(''a'', leaf_a)])" "cur_dir (relocate initial_panel (Some [(''a'', 5)]) :: nat panel) = []"
    by code_simp+
  show "panel_step initial_sys sample_listed"
    using panel_step.relist [of "Some [(''a'', 5)]" "initial_sys :: nat sys" "[leaf_a]"] fs rel
    by (auto simp: sample_listed_def initial_sys_def sorted_entries_def split: prod.split)
qed

lemma sample_scanning_reachable: "panel_reachable sample_scanning"
proof (rule panel_reachable.step [OF sample_listed_reachable])
  show "panel_step sample_listed sample_scanning"
    using panel_step.reply [of "''a''" FilesMetadata 0 sample_listed NoResult] sample_listed_eq(2,3)
    by (auto simp: sample_scanning_def split: prod.split)
qed

section \<open>Properties\<close>

text \<open>C4. Print is never started on a file while a scan of it asked on the present
  connection is unanswered: whatever the panel went through, a click on Print that starts
  a print starts the selected file, with no scan of it outstanding and the printer known to be
  neither printing nor paused.\<close>

theorem print_waits_for_scan:
  assumes "panel_reachable s" "PrintStart path \<in> set (handle_print_callback (panel s) pstat)"
  shows "selected_path (panel s) = Some path \<and> (path, FilesMetascan, conn s) \<notin># pending s \<and>
    (\<exists>st. pstat = Some st \<and> st \<noteq> ''printing'' \<and> st \<noteq> ''paused'')"
  using reachable_sys_inv [OF assms(1)] assms(2)
  by (auto simp: handle_print_callback_def sys_inv_def scan_inv_def split: option.splits if_splits)

theorem print_waits_for_scan_witness:
  "selected_path (panel sample_listed) = Some ''a'' \<and> (''a'', FilesMetascan, 0) \<notin># pending sample_listed"
proof -
  have "PrintStart ''a'' \<in> set (handle_print_callback (panel sample_listed) (Some ''standby''))"
    by code_simp
  from print_waits_for_scan [OF sample_listed_reachable this] show ?thesis
    by (simp add: sample_listed_eq)
qed

text \<open>C5. The bookkeeping of scans is exact: in every reachable state a file is recorded
  as being scanned on the present connection if and only if exactly one scan of it asked on
  that connection is unanswered, and the Print button is enabled if and only if the selected
  file is not recorded as being scanned.\<close>

theorem scans_exact:
  assumes "panel_reachable s"
  shows "(map_of (scans (panel s)) path = Some (conn s) \<longleftrightarrow>
      count (pending s) (path, FilesMetascan, conn s) = 1) \<and>
    count (pending s) (path, FilesMetascan, conn s) \<le> 1 \<and>
    (selected_path (panel s) = Some path \<longrightarrow>
      (print_enabled (panel s) \<longleftrightarrow> map_of (scans (panel s)) path = None))"
proof -
  note inv = reachable_sys_inv [OF assms]
  have "count (pending s) (path, FilesMetascan, conn s) \<le> 1"
    using inv unfolding sys_inv_def scan_inv_def by blast
  moreover have "map_of (scans (panel s)) path = Some (conn s) \<longleftrightarrow>
      (path, FilesMetascan, conn s) \<in># pending s"
    using inv unfolding sys_inv_def scan_inv_def by blast
  moreover from calculation have "map_of (scans (panel s)) path = Some (conn s) \<longleftrightarrow>
      count (pending s) (path, FilesMetascan, conn s) = 1"
    by (metis count_greater_eq_one_iff eq_iff)
  ultimately show ?thesis
    using inv by (auto simp: sys_inv_def button_inv_def update_print_btn_def)
qed

theorem scans_exact_witness:
  "count (pending sample_scanning) (''a'', FilesMetascan, 0) = 1 \<and> \<not> print_enabled (panel sample_scanning)"
  using scans_exact [OF sample_scanning_reachable, of "''a''"]
  by (simp add: sample_scanning_eq sample_listed_eq selected_path_def get_child_def leaf_a_def)

text \<open>C6. A held Print is always released by what is outstanding. When the selected file
  is held by a scan asked on the present connection, any answer to that scan releases it.
  When it is held by a scan asked on a connection that is gone, the answer to the metadata
  request releases it if it carries a result, and otherwise a new scan is asked on the
  present connection and recorded.\<close>

theorem held_print_released:
  assumes "panel_reachable s" "selected_path (panel s) = Some path"
    and "map_of (scans (panel s)) path = Some c"
  shows "(c = conn s \<longrightarrow> (path, FilesMetascan, c) \<in># pending s \<and>
      (\<forall>j. map_of (scans (fst (handle_metadata (panel s) path FilesMetascan c j (conn s)))) path = None \<and>
           print_enabled (fst (handle_metadata (panel s) path FilesMetascan c j (conn s))))) \<and>
    (c \<noteq> conn s \<longrightarrow> (\<forall>a j. case handle_metadata (panel s) path FilesMetadata a j (conn s) of (p', fx) \<Rightarrow>
      if j = NoResult
      then map_of (scans p') path = Some (conn s) \<and> Request path FilesMetascan (conn s) \<in> set fx
      else map_of (scans p') path = None \<and> print_enabled p'))"
proof (intro conjI impI allI)
  note inv = reachable_sys_inv [OF assms(1), unfolded sys_inv_def]
  let ?p = "panel s" and ?now = "conn s"
  show "(path, FilesMetascan, c) \<in># pending s"
    using inv assms(3) by (auto simp: scan_inv_def)
  fix a j
  assume "c = ?now"
  obtain p' fx where hm: "handle_metadata ?p path FilesMetascan c j ?now = (p', fx)" by force
  have cl: "close_scan ?p path FilesMetascan c (j \<noteq> NoResult) ?now =
      Some (?p\<lparr>scans := smap_erase path (scans ?p)\<rparr>)"
    using assms(3) by (simp add: close_scan_def)
  have sel: "selected_path (?p\<lparr>scans := x, unscannable := y\<rparr>) = Some path" for x y
    using assms(2) selected_path_frame [of "?p\<lparr>scans := x, unscannable := y\<rparr>" ?p] by simp
  from handle_metadata_selected [OF assms(2) cl hm] \<open>c = ?now\<close>
  have "map_of (scans p') path = None \<and> print_enabled p'"
    by (cases "j = NoResult") (auto simp: metadata_missing_def smap_simps Let_def print_enabled_update [OF sel])
  with hm show "map_of (scans (fst (handle_metadata ?p path FilesMetascan c j ?now))) path = None"
    "print_enabled (fst (handle_metadata ?p path FilesMetascan c j ?now))" by simp_all
next
  note inv = reachable_sys_inv [OF assms(1), unfolded sys_inv_def]
  let ?p = "panel s" and ?now = "conn s"
  fix a j
  assume c: "c \<noteq> ?now"
  obtain p' fx where hm: "handle_metadata ?p path FilesMetadata a j ?now = (p', fx)" by force
  have refused: "map_of (unscannable ?p) path \<noteq> Some ?now"
    using inv assms(3) by (auto simp: refused_inv_def)
  show "case handle_metadata ?p path FilesMetadata a j ?now of (p', fx) \<Rightarrow>
      if j = NoResult
      then map_of (scans p') path = Some ?now \<and> Request path FilesMetascan ?now \<in> set fx
      else map_of (scans p') path = None \<and> print_enabled p'"
  proof (cases "j = NoResult")
    case True
    have cl: "close_scan ?p path FilesMetadata a (j \<noteq> NoResult) ?now = Some ?p"
      using assms(3) True by (simp add: close_scan_def)
    from handle_metadata_selected [OF assms(2) cl hm] True c refused assms(3) show ?thesis
      unfolding hm by (auto simp: Let_def metadata_missing_def smap_simps request_metadata_def)
  next
    case False
    have cl: "close_scan ?p path FilesMetadata a (j \<noteq> NoResult) ?now =
        Some (?p\<lparr>scans := smap_erase path (scans ?p)\<rparr>)"
      using assms(3) False c by (simp add: close_scan_def)
    from handle_metadata_selected [OF assms(2) cl hm] False show ?thesis
      unfolding hm by (auto simp: smap_simps)
  qed
qed

theorem held_print_released_witness:
  "print_enabled (fst (handle_metadata (panel sample_scanning) ''a'' FilesMetascan 0 NoResult 0))"
proof -
  have "selected_path (panel sample_scanning) = Some ''a''"
    "map_of (scans (panel sample_scanning)) ''a'' = Some 0"
    by (simp_all add: sample_scanning_eq sample_listed_eq selected_path_def get_child_def leaf_a_def)
  from held_print_released [OF sample_scanning_reachable this] show ?thesis
    by (simp add: sample_scanning_eq(3))
qed

text \<open>C7. A click on any row of the table is safe: in every reachable state the node
  behind the row exists, so that neither the change of directory nor the selection of a file
  follows a null pointer, and a refetch in between keeps it so.\<close>

theorem click_never_dangles:
  assumes "panel_reachable s" "r \<in> set (file_table (panel s))"
  shows "handle_callback (panel s) r (conn s) \<noteq> None"
proof
  assume "handle_callback (panel s) r (conn s) = None"
  with handle_callback_inv [of "panel s" r "conn s"] reachable_sys_inv [OF assms(1)] assms(2)
  show False by (auto simp: sys_inv_def)
qed

theorem click_never_dangles_witness:
  "handle_callback (panel sample_listed) (False, ''a'') (conn sample_listed) \<noteq> None"
  using click_never_dangles [OF sample_listed_reachable, of "(False, ''a'')"]
  by (simp add: sample_listed_eq)

end
