(* ===== verification/Event_Queue.thy ===== *)
theory Event_Queue
  imports Prelude
begin

text \<open>
  The contract of the queues between a network thread and the LVGL thread: events are
  appended, the oldest is dropped when the queue is full, and a drain takes everything
  queued so far. \<open>KWebSocketClient\<close> and \<open>WpaEvent\<close> each have such a queue; both are
  instances below, in their own theories.
\<close>

locale bounded_queue =
  fixes items :: "'q \<Rightarrow> 'e list"
    and push :: "'e \<Rightarrow> 'q \<Rightarrow> 'q"
    and swap_out :: "'q \<Rightarrow> 'e list \<times> 'q"
    and queue_max :: nat
  assumes items_push: "items (push e q) =
      (if length (items q) \<ge> queue_max then tl (items q) else items q) @ [e]"
    and swapped: "fst (swap_out q) = items q"
    and items_swap_out: "items (snd (swap_out q)) = []"
    and queue_max_pos: "0 < queue_max"
begin

text \<open>The last \<open>n\<close> elements of a list.\<close>

definition newest :: "nat \<Rightarrow> 'x list \<Rightarrow> 'x list" where
  "newest n xs = drop (length xs - n) xs"

lemma newest_small: "length xs \<le> n \<Longrightarrow> newest n xs = xs"
  by (simp add: newest_def)

lemma length_newest: "length (newest n xs) \<le> n"
  by (simp add: newest_def)

lemma items_push_newest:
  assumes "length (items q) \<le> queue_max"
  shows "items (push e q) = newest queue_max (items q @ [e])"
proof (cases "length (items q) < queue_max")
  case True
  then show ?thesis by (simp add: items_push newest_def)
next
  case False
  with assms have "length (items q) = queue_max" by simp
  with queue_max_pos show ?thesis by (simp add: items_push newest_def drop_Suc)
qed

lemma newest_snoc: "0 < n \<Longrightarrow> newest n (newest n xs @ ys) = newest n (xs @ ys)"
  by (cases "length xs \<le> n") (auto simp: newest_def add.commute)

lemma length_push: "length (items q) \<le> queue_max \<Longrightarrow> length (items (push e q)) \<le> queue_max"
  by (simp add: items_push_newest length_newest)

lemma items_fold_push:
  "length (items q) \<le> queue_max \<Longrightarrow> items (fold push es q) = newest queue_max (items q @ es)"
proof (induction es arbitrary: q)
  case Nil
  then show ?case by (simp add: newest_small)
next
  case (Cons e es)
  then have "items (fold push es (push e q)) = newest queue_max (items (push e q) @ es)"
    using length_push by blast
  with Cons.prems show ?case
    by (simp add: items_push_newest newest_snoc queue_max_pos)
qed

text \<open>
  What the next drain delivers: the newest \<open>queue_max\<close> of the events pushed since the
  last one, oldest first.
\<close>

lemma delivered:
  "fst (swap_out (fold push es (snd (swap_out q)))) = drop (length es - queue_max) es"
  using items_fold_push [of "snd (swap_out q)" es]
  by (simp add: swapped items_swap_out newest_def)

end

end
