(* ===== verification/WebSocket_Client.thy ===== *)
theory WebSocket_Client
  imports Event_Queue
begin

text \<open>
  \<open>KWebSocketClient\<close> (\<open>src/src/websocket_client.h\<close>, \<open>websocket_client.cpp\<close>): the
  queue between libhv's thread and the LVGL thread, the registry of JSON-RPC replies that are
  still due, and the dispatch of what arrives.

  A message is reduced to the fields \<open>dispatch\<close> and the gcode reply handler read of it;
  the rest of the JSON is the opaque \<open>payload\<close>. A field that is there but not of the
  type \<open>get\<close> asks for makes \<open>get\<close> throw, and \<open>KGuard::event\<close> ends the
  event there. Handlers are names (\<open>'h\<close>, \<open>'c\<close>); what they do to the client when
  they run is the argument \<open>run\<close>: the calls they make on it, and whether they
  throw. Sending is the list \<open>sent\<close>; \<open>send\<close> of libhv is not modelled further.
\<close>

section \<open>Messages, events and handlers\<close>

datatype 'a field = Absent | WrongType | Is 'a

record 'j message =
  msg_id :: "u64 field"
  msg_method :: "string field"
  msg_error :: "(string option \<times> string) option" \<comment> \<open>\<open>/error/message\<close> if a string, \<open>error\<close> dumped\<close>
  payload :: 'j

datatype 'j event = Message "'j message" | Connected | Disconnected

text \<open>A reply callback: one passed by a panel, or the one \<open>gcode_script\<close> installs.\<close>

datatype 'h callback = Fn 'h | GcodeReply string

datatype ('h, 'c) invocation =
    CallBack "'h callback"
  | Consume 'c
  | OnConnected
  | OnDisconnected

record ('h, 'c, 'j) client =
  queue :: "'j event list"
  queue_dropped :: bool
  callbacks :: "(u64 \<times> 'h callback) list"
  consumers :: "(u64 \<times> 'c) list"
  notify_consumers :: "'c list"
  method_resp_cbs :: "(string \<times> (string \<times> 'h callback) list) list"
  next_id :: u64
  opened :: u32
  sent :: "(u64 \<times> string) list" \<comment> \<open>id and method of every request, newest last\<close>

definition new_client :: "('h, 'c, 'j) client" where
  "new_client = \<lparr>queue = [], queue_dropped = False, callbacks = [], consumers = [],
     notify_consumers = [], method_resp_cbs = [], next_id = 0, opened = 0, sent = []\<rparr>"

section \<open>The queue\<close>

definition queue_max :: nat where
  "queue_max = 512"

definition push :: "'j event \<Rightarrow> ('h, 'c, 'j) client \<Rightarrow> ('h, 'c, 'j) client" where
  "push ev cl =
     (let full = length (queue cl) \<ge> queue_max
      in cl\<lparr>queue := (if full then tl (queue cl) else queue cl) @ [ev],
            queue_dropped := (queue_dropped cl \<or> full)\<rparr>)"

text \<open>The locked part of \<open>drain\<close>.\<close>

definition take_batch :: "('h, 'c, 'j) client \<Rightarrow> 'j event list \<times> ('h, 'c, 'j) client" where
  "take_batch cl = (queue cl, cl\<lparr>queue := [], queue_dropped := False\<rparr>)"

interpretation wsq: bounded_queue "queue :: ('h, 'c, 'j) client \<Rightarrow> 'j event list" push take_batch queue_max
  by unfold_locales (simp_all add: push_def take_batch_def queue_max_def Let_def)

section \<open>Requests\<close>

text \<open>\<open>rpc_id = id++\<close> and \<open>send_rpc\<close>.\<close>

definition send_rpc :: "string \<Rightarrow> u64 \<Rightarrow> ('h, 'c, 'j) client \<Rightarrow> ('h, 'c, 'j) client" where
  "send_rpc meth rpc_id cl = cl\<lparr>sent := sent cl @ [(rpc_id, meth)]\<rparr>"

definition send_jsonrpc_cb :: "string \<Rightarrow> 'h callback \<Rightarrow> ('h, 'c, 'j) client \<Rightarrow> ('h, 'c, 'j) client" where
  "send_jsonrpc_cb meth cb cl =
     (let rpc_id = next_id cl;
          cl1 = cl\<lparr>next_id := rpc_id + 1, callbacks := smap_insert_new rpc_id cb (callbacks cl)\<rparr>
      in send_rpc meth rpc_id cl1)"

definition send_jsonrpc_consumer :: "string \<Rightarrow> 'c \<Rightarrow> ('h, 'c, 'j) client \<Rightarrow> ('h, 'c, 'j) client" where
  "send_jsonrpc_consumer meth c cl =
     (let rpc_id = next_id cl;
          cl1 = cl\<lparr>next_id := rpc_id + 1, consumers := smap_insert_new rpc_id c (consumers cl)\<rparr>
      in send_rpc meth rpc_id cl1)"

definition send_jsonrpc :: "string \<Rightarrow> ('h, 'c, 'j) client \<Rightarrow> ('h, 'c, 'j) client" where
  "send_jsonrpc meth cl = send_rpc meth (next_id cl) (cl\<lparr>next_id := next_id cl + 1\<rparr>)"

definition gcode_script :: "string \<Rightarrow> ('h, 'c, 'j) client \<Rightarrow> ('h, 'c, 'j) client" where
  "gcode_script gcode cl = send_jsonrpc_cb ''printer.gcode.script'' (GcodeReply gcode) cl"

text \<open>The reply handler \<open>gcode_script\<close> installs: the text it hands to the error handler.\<close>

definition gcode_reply :: "'j message \<Rightarrow> string option" where
  "gcode_reply m =
     (case msg_error m of
        None \<Rightarrow> None
      | Some (text, dump) \<Rightarrow> Some (case text of Some t \<Rightarrow> t | None \<Rightarrow> dump))"

section \<open>Registration\<close>

definition register_notify_update :: "'c \<Rightarrow> ('h, 'c, 'j) client \<Rightarrow> ('h, 'c, 'j) client" where
  "register_notify_update c cl =
     (if c \<in> set (notify_consumers cl) then cl
      else cl\<lparr>notify_consumers := notify_consumers cl @ [c]\<rparr>)"

definition unregister_notify_update :: "'c \<Rightarrow> ('h, 'c, 'j) client \<Rightarrow> ('h, 'c, 'j) client" where
  "unregister_notify_update c cl =
     cl\<lparr>notify_consumers := filter (\<lambda>x. x \<noteq> c) (notify_consumers cl)\<rparr>"

definition register_method_callback ::
  "string \<Rightarrow> string \<Rightarrow> 'h callback \<Rightarrow> ('h, 'c, 'j) client \<Rightarrow> ('h, 'c, 'j) client" where
  "register_method_callback resp_method handler_name cb cl =
     (case map_of (method_resp_cbs cl) resp_method of
        None \<Rightarrow> cl\<lparr>method_resp_cbs :=
                   smap_insert_new resp_method (smap_insert_new handler_name cb []) (method_resp_cbs cl)\<rparr>
      | Some hs \<Rightarrow> cl\<lparr>method_resp_cbs :=
                   smap_put resp_method (smap_insert_new handler_name cb hs) (method_resp_cbs cl)\<rparr>)"

text \<open>The calls a handler (or a panel) can make on the client.\<close>

datatype ('h, 'c) op =
    SendCb string "'h callback"
  | SendConsumer string 'c
  | Send string
  | GcodeScript string
  | RegisterNotify 'c
  | UnregisterNotify 'c
  | RegisterMethod string string "'h callback"

fun apply_op :: "('h, 'c) op \<Rightarrow> ('h, 'c, 'j) client \<Rightarrow> ('h, 'c, 'j) client" where
  "apply_op (SendCb meth cb) cl = send_jsonrpc_cb meth cb cl"
| "apply_op (SendConsumer meth c) cl = send_jsonrpc_consumer meth c cl"
| "apply_op (Send meth) cl = send_jsonrpc meth cl"
| "apply_op (GcodeScript g) cl = gcode_script g cl"
| "apply_op (RegisterNotify c) cl = register_notify_update c cl"
| "apply_op (UnregisterNotify c) cl = unregister_notify_update c cl"
| "apply_op (RegisterMethod m n cb) cl = register_method_callback m n cb cl"

section \<open>Dispatch\<close>

text \<open>
  What a handler does when it runs: the calls it makes on the client, and whether it then
  throws.
\<close>

type_synonym ('h, 'c, 'j) handlers = "('h, 'c) invocation \<Rightarrow> 'j \<Rightarrow> ('h, 'c) op list \<times> bool"

text \<open>
  Invoking a list of handlers in turn; a throw skips the rest. The result is the
  client, what was invoked, and whether something threw.
\<close>

fun invoke_all ::
  "('h, 'c, 'j) handlers \<Rightarrow> 'j \<Rightarrow> ('h, 'c) invocation list \<Rightarrow> ('h, 'c, 'j) client \<Rightarrow>
     ('h, 'c, 'j) client \<times> ('h, 'c) invocation list \<times> bool" where
  "invoke_all run j [] cl = (cl, [], False)"
| "invoke_all run j (i # is) cl =
     (let (ops, threw) = run i j;
          cl1 = fold apply_op ops cl
      in if threw then (cl1, [i], True)
         else let (cl2, tr, t) = invoke_all run j is cl1 in (cl2, i # tr, t))"

text \<open>The handlers a reply takes out of the registry.\<close>

definition take_reply :: "u64 \<Rightarrow> ('h, 'c, 'j) client \<Rightarrow> ('h, 'c) invocation list \<times> ('h, 'c, 'j) client" where
  "take_reply n cl =
     ((case map_of (consumers cl) n of None \<Rightarrow> [] | Some c \<Rightarrow> [Consume c]) @
      (case map_of (callbacks cl) n of None \<Rightarrow> [] | Some cb \<Rightarrow> [CallBack cb]),
      cl\<lparr>consumers := smap_erase n (consumers cl), callbacks := smap_erase n (callbacks cl)\<rparr>)"

text \<open>The handlers of a notification, in the order they are called.\<close>

definition notified :: "string \<Rightarrow> ('h, 'c, 'j) client \<Rightarrow> ('h, 'c) invocation list" where
  "notified meth cl =
     (if meth = ''notify_status_update'' then map Consume (notify_consumers cl) else []) @
     (if meth = ''notify_klippy_disconnected'' then [OnDisconnected]
      else if meth = ''notify_klippy_ready'' then [OnConnected] else []) @
     (case map_of (method_resp_cbs cl) meth of None \<Rightarrow> [] | Some hs \<Rightarrow> map (CallBack \<circ> snd) hs)"

definition dispatch_reply ::
  "('h, 'c, 'j) handlers \<Rightarrow> 'j message \<Rightarrow> ('h, 'c, 'j) client \<Rightarrow>
     ('h, 'c, 'j) client \<times> ('h, 'c) invocation list \<times> bool" where
  "dispatch_reply run m cl =
     (case msg_id m of
        Absent \<Rightarrow> (cl, [], False)
      | WrongType \<Rightarrow> (cl, [], True)
      | Is n \<Rightarrow> let (is, cl1) = take_reply n cl in invoke_all run (payload m) is cl1)"

definition dispatch_notification ::
  "('h, 'c, 'j) handlers \<Rightarrow> 'j message \<Rightarrow> ('h, 'c, 'j) client \<Rightarrow>
     ('h, 'c, 'j) client \<times> ('h, 'c) invocation list \<times> bool" where
  "dispatch_notification run m cl =
     (case msg_method m of
        Absent \<Rightarrow> (cl, [], False)
      | WrongType \<Rightarrow> (cl, [], True)
      | Is meth \<Rightarrow> invoke_all run (payload m) (notified meth cl) cl)"

definition dispatch ::
  "('h, 'c, 'j) handlers \<Rightarrow> 'j message \<Rightarrow> ('h, 'c, 'j) client \<Rightarrow>
     ('h, 'c, 'j) client \<times> ('h, 'c) invocation list" where
  "dispatch run m cl =
     (let (cl1, tr1, threw) = dispatch_reply run m cl
      in if threw then (cl1, tr1)
         else let (cl2, tr2, t) = dispatch_notification run m cl1 in (cl2, tr1 @ tr2))"

text \<open>One event of the batch; \<open>KGuard::event\<close> contains a throw. The \<open>json()\<close> of
  the two connection events is the argument \<open>nul\<close>.\<close>

definition handle_event ::
  "('h, 'c, 'j) handlers \<Rightarrow> 'j \<Rightarrow> 'j event \<Rightarrow> ('h, 'c, 'j) client \<Rightarrow>
     ('h, 'c, 'j) client \<times> ('h, 'c) invocation list" where
  "handle_event run nul ev cl =
     (case ev of
        Message m \<Rightarrow> dispatch run m cl
      | Connected \<Rightarrow>
          (let (cl1, tr, t) = invoke_all run nul [OnConnected] (cl\<lparr>opened := opened cl + 1\<rparr>)
           in (cl1, tr))
      | Disconnected \<Rightarrow>
          (let (cl1, tr, t) = invoke_all run nul [OnDisconnected] cl in (cl1, tr)))"

fun handle_batch ::
  "('h, 'c, 'j) handlers \<Rightarrow> 'j \<Rightarrow> 'j event list \<Rightarrow> ('h, 'c, 'j) client \<Rightarrow>
     ('h, 'c, 'j) client \<times> ('h, 'c) invocation list" where
  "handle_batch run nul [] cl = (cl, [])"
| "handle_batch run nul (ev # evs) cl =
     (let (cl1, tr1) = handle_event run nul ev cl;
          (cl2, tr2) = handle_batch run nul evs cl1
      in (cl2, tr1 @ tr2))"

definition drain ::
  "('h, 'c, 'j) handlers \<Rightarrow> 'j \<Rightarrow> ('h, 'c, 'j) client \<Rightarrow>
     ('h, 'c, 'j) client \<times> ('h, 'c) invocation list" where
  "drain run nul cl = (let (batch, cl1) = take_batch cl in handle_batch run nul batch cl1)"

section \<open>Invariants of the client\<close>

text \<open>What happens to a client: calls on it, and events it handles.\<close>

datatype ('h, 'c, 'j) activity = Call "('h, 'c) op" | Handle "'j event"

fun run_activity ::
  "('h, 'c, 'j) handlers \<Rightarrow> 'j \<Rightarrow> ('h, 'c, 'j) activity list \<Rightarrow> ('h, 'c, 'j) client \<Rightarrow> ('h, 'c, 'j) client" where
  "run_activity run nul [] cl = cl"
| "run_activity run nul (Call x # xs) cl = run_activity run nul xs (apply_op x cl)"
| "run_activity run nul (Handle ev # xs) cl = run_activity run nul xs (fst (handle_event run nul ev cl))"

text \<open>An event that answers only requests with an id in \<open>K\<close>.\<close>

definition answers_in :: "u64 set \<Rightarrow> 'j event \<Rightarrow> bool" where
  "answers_in K ev \<longleftrightarrow> (case ev of Message m \<Rightarrow> (\<forall>n. msg_id m = Is n \<longrightarrow> n \<in> K) | _ \<Rightarrow> True)"

definition activity_in :: "u64 set \<Rightarrow> ('h, 'c, 'j) activity \<Rightarrow> bool" where
  "activity_in K x \<longleftrightarrow> (case x of Handle ev \<Rightarrow> answers_in K ev | Call _ \<Rightarrow> True)"

text \<open>
  A predicate that every call keeps, and every reply to an id in \<open>K\<close>, is kept by any
  activity that answers ids in \<open>K\<close> only, whatever the handlers do.
\<close>

locale client_invariant =
  fixes P :: "('h, 'c, 'j) client \<Rightarrow> bool" and K :: "u64 set"
  assumes P_op: "P cl \<Longrightarrow> P (apply_op x cl)"
    and P_reply: "P cl \<Longrightarrow> n \<in> K \<Longrightarrow> P (snd (take_reply n cl))"
    and P_opened: "P cl \<Longrightarrow> P (cl\<lparr>opened := k\<rparr>)"
begin

lemma P_ops: "P cl \<Longrightarrow> P (fold apply_op xs cl)"
  by (induction xs arbitrary: cl) (auto intro: P_op)

lemma P_invoke_all: "P cl \<Longrightarrow> P (fst (invoke_all run j is cl))"
proof (induction "is" arbitrary: cl)
  case Nil
  then show ?case by simp
next
  case (Cons i "is")
  then show ?case using P_ops by (auto simp: Let_def split: prod.splits) (metis fst_conv)
qed

lemma P_notification: "P cl \<Longrightarrow> P (fst (dispatch_notification run m cl))"
  using P_invoke_all by (auto simp: dispatch_notification_def split: field.splits)

lemma P_dispatch_split: "P (fst (dispatch_reply run m cl)) \<Longrightarrow> P (fst (dispatch run m cl))"
  using P_notification by (auto simp: dispatch_def split: prod.splits) (metis fst_conv)

text \<open>It is enough that the predicate holds once the answered handlers are taken out.\<close>

lemma P_after_reply:
  "msg_id m = Is n \<Longrightarrow> P (snd (take_reply n cl)) \<Longrightarrow> P (fst (dispatch run m cl))"
  by (rule P_dispatch_split) (auto simp: dispatch_reply_def case_prod_unfold Let_def intro: P_invoke_all)

lemma P_dispatch:
  assumes "P cl" "\<forall>n. msg_id m = Is n \<longrightarrow> n \<in> K"
  shows "P (fst (dispatch run m cl))"
proof (cases "msg_id m")
  case (Is n)
  with assms P_reply P_after_reply show ?thesis by blast
qed (use assms(1) in \<open>auto simp: dispatch_reply_def intro: P_dispatch_split\<close>)

lemma P_handle_event:
  assumes "P cl" "answers_in K ev"
  shows "P (fst (handle_event run nul ev cl))"
proof (cases ev)
  case (Message m)
  with assms P_dispatch show ?thesis by (simp add: handle_event_def answers_in_def)
next
  case Connected
  with assms(1) P_opened P_invoke_all show ?thesis
    by (simp add: handle_event_def case_prod_unfold Let_def del: invoke_all.simps)
next
  case Disconnected
  with assms(1) P_invoke_all show ?thesis
    by (simp add: handle_event_def case_prod_unfold Let_def del: invoke_all.simps)
qed

lemma P_activity:
  "P cl \<Longrightarrow> list_all (activity_in K) xs \<Longrightarrow> P (run_activity run nul xs cl)"
  by (induction run nul xs cl rule: run_activity.induct)
     (auto simp: activity_in_def intro: P_op P_handle_event)

end

lemmas client_op_defs = send_jsonrpc_cb_def send_jsonrpc_consumer_def send_jsonrpc_def gcode_script_def
  send_rpc_def register_notify_update_def unregister_notify_update_def register_method_callback_def
  Let_def

text \<open>A registered callback stays registered until its id is answered.\<close>

interpretation waiting: client_invariant
  "\<lambda>cl :: ('h, 'c, 'j) client. map_of (callbacks cl) n = Some cb" "- {n}" for n cb
proof
  fix cl :: "('h, 'c, 'j) client" and x
  assume "map_of (callbacks cl) n = Some cb"
  then show "map_of (callbacks (apply_op x cl)) n = Some cb"
    by (cases x) (auto simp: client_op_defs smap_simps split: option.splits)
qed (auto simp: take_reply_def smap_simps)

text \<open>Ids in use: those a reply is still due for.\<close>

definition due :: "('h, 'c, 'j) client \<Rightarrow> u64 set" where
  "due cl = dom (map_of (callbacks cl)) \<union> dom (map_of (consumers cl))"

text \<open>The ids given out so far are 0, 1, and so on, and only those can be due.\<close>

definition ids_ok :: "('h, 'c, 'j) client \<Rightarrow> bool" where
  "ids_ok cl \<longleftrightarrow> next_id cl = of_nat (length (sent cl)) \<and> due cl \<subseteq> of_nat ` {..<length (sent cl)}"

lemma ids_op:
  "(next_id (apply_op x cl) = next_id cl \<and> sent (apply_op x cl) = sent cl \<and> due (apply_op x cl) = due cl) \<or>
   (next_id (apply_op x cl) = next_id cl + 1 \<and> length (sent (apply_op x cl)) = Suc (length (sent cl)) \<and>
    due cl \<subseteq> due (apply_op x cl) \<and> due (apply_op x cl) \<subseteq> insert (next_id cl) (due cl))"
  by (cases x) (auto simp: client_op_defs due_def smap_simps split: option.splits if_splits)

interpretation ids: client_invariant "ids_ok :: ('h, 'c, 'j) client \<Rightarrow> bool" UNIV
proof
  fix cl :: "('h, 'c, 'j) client" and x
  assume "ids_ok cl"
  then have old: "insert (next_id cl) (due cl) \<subseteq> of_nat ` {..<Suc (length (sent cl))}"
    by (auto simp: ids_ok_def lessThan_Suc)
  from ids_op [of x cl] show "ids_ok (apply_op x cl)"
  proof
    assume new: "next_id (apply_op x cl) = next_id cl + 1 \<and>
      length (sent (apply_op x cl)) = Suc (length (sent cl)) \<and>
      due cl \<subseteq> due (apply_op x cl) \<and> due (apply_op x cl) \<subseteq> insert (next_id cl) (due cl)"
    then have "due (apply_op x cl) \<subseteq> of_nat ` {..<Suc (length (sent cl))}" using old by blast
    with new \<open>ids_ok cl\<close> show ?thesis by (simp add: ids_ok_def)
  qed (use \<open>ids_ok cl\<close> in \<open>simp add: ids_ok_def\<close>)
qed (auto simp: ids_ok_def take_reply_def due_def smap_simps)

text \<open>Ids do not come round again as long as fewer than \<open>2^64\<close> requests were sent.\<close>

definition given_out :: "u64 \<Rightarrow> ('h, 'c, 'j) client \<Rightarrow> bool" where
  "given_out n cl \<longleftrightarrow> ids_ok cl \<and> n \<in> of_nat ` {..<length (sent cl)}"

lemma of_nat_eq_u64: "a < 2 ^ 64 \<Longrightarrow> b < 2 ^ 64 \<Longrightarrow> (of_nat a :: u64) = of_nat b \<longleftrightarrow> a = b"
  by (simp add: word_of_nat_eq_iff take_bit_eq_mod)

lemma given_out_not_next:
  "given_out n cl \<Longrightarrow> length (sent cl) < 2 ^ 64 \<Longrightarrow> n \<noteq> next_id cl"
  by (auto simp: given_out_def ids_ok_def of_nat_eq_u64)

lemma next_not_due: "ids_ok cl \<Longrightarrow> length (sent cl) < 2 ^ 64 \<Longrightarrow> next_id cl \<notin> due cl"
  by (fastforce simp: ids_ok_def of_nat_eq_u64)

lemma given_out_op: "given_out n cl \<Longrightarrow> given_out n (apply_op x cl)"
  using ids_op [of x cl] ids.P_op [of cl x] by (auto simp: given_out_def lessThan_Suc)

text \<open>An id given out with no consumer waiting, or nobody waiting, stays so.\<close>

definition no_consumer :: "u64 \<Rightarrow> ('h, 'c, 'j) client \<Rightarrow> bool" where
  "no_consumer n cl \<longleftrightarrow> (length (sent cl) < 2 ^ 64 \<longrightarrow> given_out n cl \<and> map_of (consumers cl) n = None)"

definition answered :: "u64 \<Rightarrow> ('h, 'c, 'j) client \<Rightarrow> bool" where
  "answered n cl \<longleftrightarrow> (length (sent cl) < 2 ^ 64 \<longrightarrow> given_out n cl \<and> n \<notin> due cl)"

lemma consumers_op:
  "n \<noteq> next_id cl \<Longrightarrow> map_of (consumers (apply_op x cl)) n = map_of (consumers cl) n"
  by (cases x) (auto simp: client_op_defs smap_simps split: option.splits)

interpretation longer: client_invariant "\<lambda>cl :: ('h, 'c, 'j) client. k \<le> length (sent cl)" UNIV for k
proof
  fix cl :: "('h, 'c, 'j) client" and x
  assume "k \<le> length (sent cl)"
  with ids_op [of x cl] show "k \<le> length (sent (apply_op x cl))" by auto
qed (simp_all add: take_reply_def)

interpretation unconsumed: client_invariant "no_consumer n :: ('h, 'c, 'j) client \<Rightarrow> bool" UNIV for n
proof
  fix cl :: "('h, 'c, 'j) client" and x
  assume "no_consumer n cl"
  then show "no_consumer n (apply_op x cl)"
    using given_out_op given_out_not_next consumers_op longer.P_op [of "length (sent cl)" cl x]
    unfolding no_consumer_def by fastforce
qed (auto simp: no_consumer_def given_out_def ids_ok_def take_reply_def due_def smap_simps)

interpretation closed: client_invariant "answered n :: ('h, 'c, 'j) client \<Rightarrow> bool" UNIV for n
proof
  fix cl :: "('h, 'c, 'j) client" and x
  assume "answered n cl"
  moreover have "n \<noteq> next_id cl \<Longrightarrow> n \<notin> due cl \<Longrightarrow> n \<notin> due (apply_op x cl)"
    using ids_op [of x cl] by auto
  ultimately show "answered n (apply_op x cl)"
    using given_out_op given_out_not_next longer.P_op [of "length (sent cl)" cl x]
    unfolding answered_def by fastforce
qed (auto simp: answered_def given_out_def ids_ok_def take_reply_def due_def smap_simps)

section \<open>Properties\<close>

text \<open>C8. Between two drains the queue holds at most 512 events and delivers, oldest
  first, exactly the newest 512 of those that arrived: a wedged UI loses the oldest events
  only, in order and without duplicates.\<close>

theorem drain_delivers_newest:
  "fst (take_batch (fold push es (snd (take_batch cl)))) = drop (length es - 512) es \<and>
   length (queue (fold push es (snd (take_batch cl)))) \<le> 512"
  using wsq.delivered [of es cl] by (simp add: queue_max_def take_batch_def)


text \<open>A client that sent one request, and the handlers of an example run.\<close>

definition quiet :: "(nat, nat, unit) handlers" where
  "quiet i j = ([], False)"

definition reply_msg :: "u64 \<Rightarrow> unit message" where
  "reply_msg n = \<lparr>msg_id = Is n, msg_method = Absent, msg_error = None, payload = ()\<rparr>"




end
