(* ===== verification/Update_Check.thy ===== *)
theory Update_Check
  imports Prelude
begin

text \<open>
  The update notice (\<open>src/src/update_check.cpp\<close>): a detached thread runs
  \<open>update.sh --check\<close> and leaves its answer in a shared \<open>Check\<close> object; a timer on
  the LVGL thread collects it. A \<open>Check\<close> object is an entry of the store \<open>checks\<close>,
  a \<open>shared_ptr\<close> to it is its number. A timer is present or not. The configuration
  values and the path of the script are arguments of the calls that read them.
\<close>

section \<open>Parsing the answer of the script\<close>

text \<open>The lines of the output; \<open>out.find\<close> up to the next line feed or the end.\<close>

fun lines_of :: "string \<Rightarrow> string list" where
  "lines_of [] = []"
| "lines_of (c # cs) =
     (let l = takeWhile (\<lambda>x. x \<noteq> CHR 0x0A) (c # cs) in
      l # lines_of (drop (Suc (length l)) (c # cs)))"

text \<open>\<open>pop_back\<close> while the value ends in a carriage return or a space.\<close>

definition trim_end :: "string \<Rightarrow> string" where
  "trim_end v = rev (dropWhile (\<lambda>c. c = CHR 0x0D \<or> c = CHR '' '') (rev v))"

fun parse_line :: "string \<times> string \<Rightarrow> string \<Rightarrow> string \<times> string" where
  "parse_line (status, latest) line =
     (if CHR ''='' \<notin> set line then (status, latest)
      else let key = takeWhile (\<lambda>c. c \<noteq> CHR ''='') line;
               val = trim_end (tl (dropWhile (\<lambda>c. c \<noteq> CHR ''='') line))
           in if key = ''status'' then (val, latest)
              else if key = ''latest'' then (status, val)
              else (status, latest))"

definition parse_answer :: "string \<Rightarrow> string \<times> string" where
  "parse_answer out = foldl parse_line ([], []) (lines_of out)"

section \<open>State\<close>

record check =
  finished :: bool
  status :: string
  latest :: string

record uc =
  in_flight :: "nat option"
  checks :: "nat \<rightharpoonup> check"
  started :: nat \<comment> \<open>the number of the next \<open>Check\<close> object\<close>
  poll_timer :: "u32 option" \<comment> \<open>its period\<close>
  collect_timer :: bool
  available :: bool
  available_version :: string
  waited_ms :: u32
  listener :: bool \<comment> \<open>whether one is set\<close>
  notices :: nat \<comment> \<open>calls of the listener\<close>

definition initial_uc :: uc where
  "initial_uc = \<lparr>in_flight = None, checks = Map.empty, started = 0, poll_timer = None,
     collect_timer = False, available = False, available_version = [], waited_ms = 0, listener = False,
     notices = 0\<rparr>"

definition COLLECT_MS :: u32 where "COLLECT_MS = 500"

definition ABANDON_MS :: u32 where "ABANDON_MS = 3 * 60 * 1000"

section \<open>Operations\<close>

text \<open>The end of \<open>run_check\<close>, on its own thread: the answer lands in the thread's object.\<close>

definition run_check :: "nat \<Rightarrow> string \<Rightarrow> uc \<Rightarrow> uc" where
  "run_check i out s =
     (let (st, la) = parse_answer out
      in s\<lparr>checks := (checks s)(i \<mapsto> \<lparr>finished = True, status = st, latest = la\<rparr>)\<rparr>)"

definition set_available :: "bool \<Rightarrow> string \<Rightarrow> uc \<Rightarrow> uc" where
  "set_available now_available version s =
     (if available s = now_available \<and> available_version s = version then s
      else s\<lparr>available := now_available, available_version := version,
             notices := (if listener s then notices s + 1 else notices s)\<rparr>)"

definition collect :: "uc \<Rightarrow> uc" where
  "collect s =
     (case in_flight s of
        None \<Rightarrow> s\<lparr>collect_timer := False\<rparr>
      | Some i \<Rightarrow>
          (case checks s i of
             None \<Rightarrow> s
           | Some c \<Rightarrow>
               if \<not> finished c then
                 (let s1 = s\<lparr>waited_ms := waited_ms s + COLLECT_MS\<rparr>
                  in if waited_ms s1 \<ge> ABANDON_MS
                     then s1\<lparr>in_flight := None, collect_timer := False\<rparr> else s1)
               else
                 set_available (status c = ''available'')
                   (if status c = ''available'' then latest c else [])
                   (s\<lparr>in_flight := None, collect_timer := False\<rparr>)))"

text \<open>\<open>script\<close> is \<open>script_path()\<close>, empty when there is none.\<close>

definition check_now :: "string \<Rightarrow> uc \<Rightarrow> uc" where
  "check_now script s =
     (if in_flight s \<noteq> None \<or> script = [] then s
      else s\<lparr>in_flight := Some (started s),
             checks := (checks s)(started s \<mapsto> \<lparr>finished = False, status = [], latest = []\<rparr>),
             started := started s + 1, waited_ms := 0, collect_timer := True\<rparr>)"

text \<open>\<open>configured\<close> is the value of \<open>update_check_interval_hours\<close> if it is a number.\<close>

definition interval_hours :: "int option \<Rightarrow> int" where
  "interval_hours configured =
     (let hours = (case configured of None \<Rightarrow> 24 | Some h \<Rightarrow> h) in if hours < 1 then 1 else hours)"

definition period_ms :: "int \<Rightarrow> u32" where
  "period_ms hours = of_int hours * 60 * 60 * 1000"

text \<open>\<open>enabled\<close> is \<open>update_check_enabled\<close>, \<open>None\<close> when it is null.\<close>

definition reconfigure :: "bool option \<Rightarrow> string \<Rightarrow> int option \<Rightarrow> uc \<Rightarrow> uc" where
  "reconfigure enabled script configured s =
     (let s1 = s\<lparr>poll_timer := None\<rparr>
      in if enabled = Some False then
           set_available False [] (s1\<lparr>in_flight := None, collect_timer := False\<rparr>)
         else if script = [] then s1
         else check_now script (s1\<lparr>poll_timer := Some (period_ms (interval_hours configured))\<rparr>))"

text \<open>The listener is a \<open>std::function\<close>; an empty one is no listener.\<close>

definition set_listener :: "bool \<Rightarrow> uc \<Rightarrow> uc" where
  "set_listener cb s = s\<lparr>listener := cb\<rparr>"

section \<open>Interleavings\<close>

text \<open>
  The LVGL thread runs the calls and the timers that exist; a check's thread may finish at
  any time, also long after its object was abandoned.
\<close>

inductive background_step :: "uc \<Rightarrow> uc \<Rightarrow> bool" where
  finish: "checks s i = Some c \<Longrightarrow> \<not> finished c \<Longrightarrow> background_step s (run_check i out s)"
| collect_tick: "collect_timer s \<Longrightarrow> background_step s (collect s)"
| poll_tick: "poll_timer s \<noteq> None \<Longrightarrow> background_step s (check_now script s)"

inductive uc_reachable :: "uc \<Rightarrow> bool" where
  uc_start: "uc_reachable initial_uc"
| uc_background: "uc_reachable s \<Longrightarrow> background_step s s' \<Longrightarrow> uc_reachable s'"
| uc_settings: "uc_reachable s \<Longrightarrow> uc_reachable (reconfigure enabled script configured s)"
| uc_listener: "uc_reachable s \<Longrightarrow> uc_reachable (set_listener cb s)"

section \<open>Invariant\<close>

text \<open>The time waited after \<open>k\<close> ticks.\<close>

definition ticks :: "nat \<Rightarrow> u32" where
  "ticks k = of_nat (500 * k)"

lemma ticks_0: "ticks 0 = 0"
  by (simp add: ticks_def)

lemma ticks_Suc: "ticks k + COLLECT_MS = ticks (Suc k)"
  by (simp add: ticks_def COLLECT_MS_def)

lemma ticks_abandon: "k < 360 \<Longrightarrow> ABANDON_MS \<le> ticks (Suc k) \<longleftrightarrow> k = 359"
proof -
  assume k: "k < 360"
  then have "unat (ticks (Suc k)) = 500 * Suc k"
    unfolding ticks_def unat_of_nat by (intro mod_less) simp
  with k show ?thesis by (auto simp: word_le_nat_alt ABANDON_MS_def)
qed

text \<open>
  A check in flight is watched by the timer, its object exists and it has waited a
  whole number of ticks, fewer than are allowed; a notice on show was announced by a
  finished check.
\<close>

definition uc_inv :: "uc \<Rightarrow> bool" where
  "uc_inv s \<longleftrightarrow>
     (\<forall>i. checks s i \<noteq> None \<longrightarrow> i < started s) \<and>
     (\<forall>i. in_flight s = Some i \<longrightarrow> collect_timer s \<and> checks s i \<noteq> None \<and>
        (\<exists>k < 360. waited_ms s = ticks k)) \<and>
     (available s \<longrightarrow> (\<exists>i c. checks s i = Some c \<and> finished c \<and> status c = ''available'' \<and>
        latest c = available_version s)) \<and>
     (\<not> available s \<longrightarrow> available_version s = [])"

text \<open>One tick while the script has not answered.\<close>

lemma collect_waiting:
  assumes "in_flight s = Some i" "checks s i = Some c" "\<not> finished c" "waited_ms s = ticks k" "k < 360"
  shows "collect s = (if k = 359
    then s\<lparr>waited_ms := ticks (Suc k), in_flight := None, collect_timer := False\<rparr>
    else s\<lparr>waited_ms := ticks (Suc k)\<rparr>)"
  using assms ticks_abandon [OF assms(5)] by (simp add: collect_def ticks_Suc)

lemma uc_inv_initial: "uc_inv initial_uc"
  by (simp add: uc_inv_def initial_uc_def)

lemma uc_inv_run_check:
  assumes "uc_inv s" "checks s i = Some c" "\<not> finished c"
  shows "uc_inv (run_check i out s)"
proof -
  obtain st la where "parse_answer out = (st, la)" by force
  with assms show ?thesis unfolding uc_inv_def run_check_def by (auto; metis option.inject)
qed

lemma uc_inv_collect:
  assumes "uc_inv s"
  shows "uc_inv (collect s)"
proof (cases "in_flight s")
  case None
  with assms show ?thesis by (auto simp: uc_inv_def collect_def)
next
  case (Some i)
  with assms obtain c k where c: "checks s i = Some c" "k < 360" "waited_ms s = ticks k"
    by (auto simp: uc_inv_def)
  show ?thesis
  proof (cases "finished c")
    case True
    with Some c(1) assms show ?thesis
      by (auto simp: uc_inv_def collect_def set_available_def)
  next
    case False
    from collect_waiting [OF Some c(1) False c(3,2)] assms c(2) show ?thesis
      by (auto simp: uc_inv_def intro: exI [of _ "Suc k"])
  qed
qed

lemma uc_inv_check_now: "uc_inv s \<Longrightarrow> uc_inv (check_now script s)"
  unfolding uc_inv_def check_now_def
  by (auto simp: ticks_0 [symmetric] intro: exI [of _ 0] less_SucI) (metis less_irrefl option.distinct(1))+

lemma uc_inv_reconfigure: "uc_inv s \<Longrightarrow> uc_inv (reconfigure enabled script configured s)"
  unfolding reconfigure_def Let_def
  by (auto intro!: uc_inv_check_now) (auto simp: uc_inv_def set_available_def)

lemma reachable_uc_inv: "uc_reachable s \<Longrightarrow> uc_inv s"
proof (induction rule: uc_reachable.induct)
  case (uc_background s s')
  from uc_background(2,3) show ?case
    by (induction rule: background_step.induct)
       (auto intro: uc_inv_run_check uc_inv_collect uc_inv_check_now)
next
  case (uc_listener s cb)
  then show ?case by (simp add: uc_inv_def set_listener_def)
qed (auto intro: uc_inv_initial uc_inv_reconfigure)

section \<open>Properties\<close>

subsection \<open>No check wedges the notice\<close>

text \<open>Ticks without an answer count up to the limit and there drop the check.\<close>

lemma collect_idle:
  "in_flight s = None \<Longrightarrow> \<not> collect_timer s \<Longrightarrow> (collect ^^ n) s = s"
  by (induction n) (auto simp: collect_def)

lemma collect_drops:
  assumes "uc_inv s" "in_flight s = Some i" "waited_ms s = ticks k" "k < 360" "k + n = 360"
  shows "in_flight ((collect ^^ n) s) = None \<and> \<not> collect_timer ((collect ^^ n) s) \<and>
    started ((collect ^^ n) s) = started s"
  using assms
proof (induction n arbitrary: s k)
  case 0
  then show ?case by simp
next
  case (Suc n)
  from Suc.prems obtain c where c: "checks s i = Some c" by (auto simp: uc_inv_def)
  note k = Suc.prems(4)
  have step: "(collect ^^ Suc n) s = (collect ^^ n) (collect s)" by (simp add: funpow_swap1)
  show ?case
  proof (cases "finished c \<or> k = 359")
    case True
    have "in_flight (collect s) = None \<and> \<not> collect_timer (collect s) \<and> started (collect s) = started s"
      using True Suc.prems(2) c collect_waiting [OF Suc.prems(2) c _ Suc.prems(3) k]
      by (cases "finished c") (auto simp: collect_def set_available_def)
    then show ?thesis unfolding step by (simp add: collect_idle)
  next
    case False
    then have "collect s = s\<lparr>waited_ms := ticks (Suc k)\<rparr>"
      using collect_waiting [OF Suc.prems(2) c _ Suc.prems(3) k] by simp
    then show ?thesis
      using Suc.IH [of "collect s" "Suc k"] Suc.prems uc_inv_collect [of s] False
      unfolding step by simp
  qed
qed

text \<open>
  C11. One wedged run cannot stop the notice. From every reachable state, whatever the
  check in flight has or has not answered, 360 ticks of the collecting timer (three
  minutes) leave nothing in flight and no timer, and the next \<open>check_now\<close> starts a fresh
  check with its clock at zero.
\<close>

theorem never_wedged:
  assumes "uc_reachable s" "script \<noteq> []"
  shows "in_flight ((collect ^^ 360) s) = None \<and> \<not> collect_timer ((collect ^^ 360) s) \<and>
    in_flight (check_now script ((collect ^^ 360) s)) = Some (started s) \<and>
    waited_ms (check_now script ((collect ^^ 360) s)) = 0 \<and>
    collect_timer (check_now script ((collect ^^ 360) s))"
proof -
  have inv: "uc_inv s" by (rule reachable_uc_inv [OF assms(1)])
  have "in_flight ((collect ^^ 360) s) = None \<and> \<not> collect_timer ((collect ^^ 360) s) \<and>
    started ((collect ^^ 360) s) = started s"
  proof (cases "in_flight s")
    case None
    have "(collect ^^ 360) s = (collect ^^ 359) (collect s)"
      using funpow_Suc_right [of 359 collect] by (simp del: funpow.simps)
    with None show ?thesis by (simp add: collect_idle collect_def)
  next
    case (Some i)
    with inv obtain k where "k < 360" "waited_ms s = ticks k" by (auto simp: uc_inv_def)
    have "(collect ^^ 360) s = (collect ^^ k) ((collect ^^ (360 - k)) s)"
      using \<open>k < 360\<close> funpow_add [of k "360 - k" collect] by simp
    with collect_drops [OF inv Some \<open>waited_ms s = ticks k\<close> \<open>k < 360\<close>, of "360 - k"] \<open>k < 360\<close>
    show ?thesis by (simp add: collect_idle)
  qed
  with assms(2) show ?thesis by (simp add: check_now_def)
qed

lemma first_check:
  "uc_reachable (reconfigure None ''/update.sh'' None initial_uc)"
  "in_flight (reconfigure None ''/update.sh'' None initial_uc) = Some 0"
  "started (reconfigure None ''/update.sh'' None initial_uc) = 1"
  by (intro uc_settings uc_start) (simp_all add: reconfigure_def check_now_def initial_uc_def)

theorem never_wedged_witness:
  "in_flight (reconfigure None ''/update.sh'' None initial_uc) = Some 0 \<and>
   in_flight ((collect ^^ 360) (reconfigure None ''/update.sh'' None initial_uc)) = None \<and>
   in_flight (check_now ''/update.sh'' ((collect ^^ 360) (reconfigure None ''/update.sh'' None initial_uc)))
     = Some 1"
  using never_wedged [OF first_check(1), of "''/update.sh''"] by (simp only: first_check) simp

subsection \<open>The notice is truthful\<close>

text \<open>
  C12. The notice says only what a check found: whenever an update is announced, some
  check has finished with the status \<open>available\<close> and with exactly the announced version,
  and when none is announced the version is empty. A collected answer other than
  \<open>available\<close>, such as \<open>devbuild\<close>, takes a notice down; the listener hears of an answer
  only if it changes the notice.
\<close>

theorem notice_truthful:
  assumes "uc_reachable s"
  shows "(available s \<longrightarrow> (\<exists>i c. checks s i = Some c \<and> finished c \<and> status c = ''available'' \<and>
       latest c = available_version s)) \<and>
     (\<not> available s \<longrightarrow> available_version s = []) \<and>
     (\<forall>i c. in_flight s = Some i \<and> checks s i = Some c \<and> finished c \<longrightarrow>
       (available (collect s) \<longleftrightarrow> status c = ''available'') \<and>
       (status c = ''available'' \<longrightarrow> available_version (collect s) = latest c) \<and>
       (notices (collect s) = (if listener s \<and>
          (available (collect s), available_version (collect s)) \<noteq> (available s, available_version s)
        then notices s + 1 else notices s)))"
  using reachable_uc_inv [OF assms] by (auto simp: uc_inv_def collect_def set_available_def)

lemma answered_reachable: "uc_reachable (collect (run_check 0 (''status=available'' @ CHR 0x0A # ''latest=v2'')
    (reconfigure None ''/update.sh'' None initial_uc)))"
proof -
  let ?s = "reconfigure None ''/update.sh'' None initial_uc"
  let ?r = "run_check 0 (''status=available'' @ CHR 0x0A # ''latest=v2'') ?s"
  have c: "checks ?s 0 = Some \<lparr>finished = False, status = [], latest = []\<rparr>"
    by (simp add: reconfigure_def check_now_def initial_uc_def)
  have "uc_reachable ?r"
    by (rule uc_background [OF first_check(1)], rule finish [OF c]) simp
  moreover have "collect_timer ?r"
    by (simp add: reconfigure_def check_now_def initial_uc_def run_check_def split: prod.splits)
  ultimately show ?thesis by (blast intro: uc_background collect_tick)
qed

theorem notice_truthful_witness:
  "available (collect (run_check 0 (''status=available'' @ CHR 0x0A # ''latest=v2'')
     (reconfigure None ''/update.sh'' None initial_uc))) \<and>
   (\<exists>i c. checks (collect (run_check 0 (''status=available'' @ CHR 0x0A # ''latest=v2'')
     (reconfigure None ''/update.sh'' None initial_uc))) i = Some c \<and> latest c = ''v2'')"
proof -
  let ?t = "collect (run_check 0 (''status=available'' @ CHR 0x0A # ''latest=v2'')
     (reconfigure None ''/update.sh'' None initial_uc))"
  have "available ?t \<and> available_version ?t = ''v2''" by code_simp
  with notice_truthful [OF answered_reachable] show ?thesis by auto
qed

subsection \<open>Switching the check off\<close>

text \<open>
  C13. Off means off. After the check has been disabled in the settings, no interleaving of
  the timers and of threads still running puts a notice back or starts a check, even though
  the thread of the check that was running may still deliver its answer.
\<close>

theorem disabled_stays_off:
  assumes "background_step\<^sup>*\<^sup>* (reconfigure (Some False) script configured s) t"
  shows "\<not> available t \<and> available_version t = [] \<and> in_flight t = None \<and>
    poll_timer t = None \<and> \<not> collect_timer t"
  using assms
proof (induction rule: rtranclp_induct)
  case base
  show ?case by (simp add: reconfigure_def set_available_def Let_def)
next
  case (step t u)
  from step(2,3) show ?case
    by (induction rule: background_step.induct) (auto simp: run_check_def split: prod.splits)
qed

theorem disabled_stays_off_witness:
  "\<exists>t :: uc. checks t 0 = Some \<lparr>finished = True, status = ''available'', latest = []\<rparr> \<and> \<not> available t"
proof -
  let ?s = "reconfigure None ''/update.sh'' None initial_uc"
  let ?d = "reconfigure (Some False) ''/update.sh'' None ?s"
  let ?t = "run_check 0 ''status=available'' ?d"
  have c: "checks ?d 0 = Some \<lparr>finished = False, status = [], latest = []\<rparr>"
    by (simp add: reconfigure_def check_now_def initial_uc_def set_available_def)
  have "background_step\<^sup>*\<^sup>* ?d ?t"
    by (rule r_into_rtranclp, rule finish [OF c]) simp
  from disabled_stays_off [OF this] have "\<not> available ?t" by simp
  moreover have "parse_answer ''status=available'' = (''available'', [])" by code_simp
  then have "checks ?t 0 = Some \<lparr>finished = True, status = ''available'', latest = []\<rparr>"
    by (simp add: run_check_def)
  ultimately show ?thesis by blast
qed

subsection \<open>Reading the answer and the interval\<close>

lemma lines_of_line:
  assumes "CHR 0x0A \<notin> set l"
  shows "lines_of (l @ CHR 0x0A # rest) = l # lines_of rest"
proof (cases l)
  case (Cons c cs)
  have "takeWhile (\<lambda>x. x \<noteq> CHR 0x0A) (l @ CHR 0x0A # rest) = l"
    using assms by (subst takeWhile_append2) auto
  with Cons show ?thesis by (simp add: Let_def)
qed simp

lemma trim_end_append:
  assumes "set ws \<subseteq> {CHR 0x0D, CHR '' ''}" "v = [] \<or> last v \<notin> {CHR 0x0D, CHR '' ''}"
  shows "trim_end (v @ ws) = v"
proof -
  have "dropWhile (\<lambda>c. c = CHR 0x0D \<or> c = CHR '' '') (rev ws @ rev v) = rev v"
    using assms by (cases v rule: rev_cases) (auto simp: dropWhile_append3 subset_eq)
  then show ?thesis by (simp add: trim_end_def)
qed

lemma parse_line_field:
  assumes "CHR ''='' \<notin> set key"
  shows "parse_line (s, l) (key @ CHR ''='' # v) =
    (if key = ''status'' then (trim_end v, l) else if key = ''latest'' then (s, trim_end v) else (s, l))"
proof -
  have "takeWhile (\<lambda>c. c \<noteq> CHR ''='') (key @ CHR ''='' # v) = key"
    "dropWhile (\<lambda>c. c \<noteq> CHR ''='') (key @ CHR ''='' # v) = CHR ''='' # v"
    using assms by (subst takeWhile_append2 dropWhile_append2; auto)+
  then show ?thesis by (simp add: Let_def)
qed





end
