(* ===== verification/Byte_Order.thy ===== *)
theory Byte_Order
  imports Prelude
begin

text \<open>
  Reading and writing of integers in buffers (\<open>src/utils/common.h\<close> of wpa\_supplicant).
  \<open>WPA_GET_*\<close> reads from the start of a buffer, \<open>WPA_PUT_*\<close> gives the bytes that are
  stored there. The locale is what every pair promises; each pair interprets it.
\<close>

section \<open>Accessors\<close>

definition WPA_GET_BE16 :: "u8 list \<Rightarrow> u16" where
  "WPA_GET_BE16 a = push_bit 8 (ucast (a ! 0)) OR ucast (a ! 1)"

definition WPA_PUT_BE16 :: "u16 \<Rightarrow> u8 list" where
  "WPA_PUT_BE16 val = [ucast (drop_bit 8 val), ucast (val AND 0xff)]"

definition WPA_GET_LE16 :: "u8 list \<Rightarrow> u16" where
  "WPA_GET_LE16 a = push_bit 8 (ucast (a ! 1)) OR ucast (a ! 0)"

definition WPA_PUT_LE16 :: "u16 \<Rightarrow> u8 list" where
  "WPA_PUT_LE16 val = [ucast (val AND 0xff), ucast (drop_bit 8 val)]"

definition WPA_GET_BE24 :: "u8 list \<Rightarrow> u32" where
  "WPA_GET_BE24 a = push_bit 16 (ucast (a ! 0)) OR push_bit 8 (ucast (a ! 1)) OR ucast (a ! 2)"

definition WPA_PUT_BE24 :: "u32 \<Rightarrow> u8 list" where
  "WPA_PUT_BE24 val = [ucast (drop_bit 16 val AND 0xff), ucast (drop_bit 8 val AND 0xff), ucast (val AND 0xff)]"

definition WPA_GET_LE24 :: "u8 list \<Rightarrow> u32" where
  "WPA_GET_LE24 a = push_bit 16 (ucast (a ! 2)) OR push_bit 8 (ucast (a ! 1)) OR ucast (a ! 0)"

definition WPA_PUT_LE24 :: "u32 \<Rightarrow> u8 list" where
  "WPA_PUT_LE24 val = [ucast (val AND 0xff), ucast (drop_bit 8 val AND 0xff), ucast (drop_bit 16 val AND 0xff)]"

definition WPA_GET_BE32 :: "u8 list \<Rightarrow> u32" where
  "WPA_GET_BE32 a = push_bit 24 (ucast (a ! 0)) OR push_bit 16 (ucast (a ! 1)) OR
     push_bit 8 (ucast (a ! 2)) OR ucast (a ! 3)"

definition WPA_PUT_BE32 :: "u32 \<Rightarrow> u8 list" where
  "WPA_PUT_BE32 val = [ucast (drop_bit 24 val AND 0xff), ucast (drop_bit 16 val AND 0xff),
     ucast (drop_bit 8 val AND 0xff), ucast (val AND 0xff)]"

definition WPA_GET_LE32 :: "u8 list \<Rightarrow> u32" where
  "WPA_GET_LE32 a = push_bit 24 (ucast (a ! 3)) OR push_bit 16 (ucast (a ! 2)) OR
     push_bit 8 (ucast (a ! 1)) OR ucast (a ! 0)"

definition WPA_PUT_LE32 :: "u32 \<Rightarrow> u8 list" where
  "WPA_PUT_LE32 val = [ucast (val AND 0xff), ucast (drop_bit 8 val AND 0xff),
     ucast (drop_bit 16 val AND 0xff), ucast (drop_bit 24 val AND 0xff)]"

definition WPA_GET_LE48 :: "u8 list \<Rightarrow> u64" where
  "WPA_GET_LE48 a = push_bit 40 (ucast (a ! 5)) OR push_bit 32 (ucast (a ! 4)) OR
     push_bit 24 (ucast (a ! 3)) OR push_bit 16 (ucast (a ! 2)) OR
     push_bit 8 (ucast (a ! 1)) OR ucast (a ! 0)"

definition WPA_PUT_LE48 :: "u64 \<Rightarrow> u8 list" where
  "WPA_PUT_LE48 val = [ucast (val AND 0xff), ucast (drop_bit 8 val), ucast (drop_bit 16 val),
     ucast (drop_bit 24 val), ucast (drop_bit 32 val), ucast (drop_bit 40 val)]"

definition WPA_GET_BE64 :: "u8 list \<Rightarrow> u64" where
  "WPA_GET_BE64 a = push_bit 56 (ucast (a ! 0)) OR push_bit 48 (ucast (a ! 1)) OR
     push_bit 40 (ucast (a ! 2)) OR push_bit 32 (ucast (a ! 3)) OR
     push_bit 24 (ucast (a ! 4)) OR push_bit 16 (ucast (a ! 5)) OR
     push_bit 8 (ucast (a ! 6)) OR ucast (a ! 7)"

definition WPA_PUT_BE64 :: "u64 \<Rightarrow> u8 list" where
  "WPA_PUT_BE64 val = [ucast (drop_bit 56 val), ucast (drop_bit 48 val), ucast (drop_bit 40 val),
     ucast (drop_bit 32 val), ucast (drop_bit 24 val), ucast (drop_bit 16 val),
     ucast (drop_bit 8 val), ucast (val AND 0xff)]"

definition WPA_GET_LE64 :: "u8 list \<Rightarrow> u64" where
  "WPA_GET_LE64 a = push_bit 56 (ucast (a ! 7)) OR push_bit 48 (ucast (a ! 6)) OR
     push_bit 40 (ucast (a ! 5)) OR push_bit 32 (ucast (a ! 4)) OR
     push_bit 24 (ucast (a ! 3)) OR push_bit 16 (ucast (a ! 2)) OR
     push_bit 8 (ucast (a ! 1)) OR ucast (a ! 0)"

definition WPA_PUT_LE64 :: "u64 \<Rightarrow> u8 list" where
  "WPA_PUT_LE64 val = [ucast (val AND 0xff), ucast (drop_bit 8 val), ucast (drop_bit 16 val),
     ucast (drop_bit 24 val), ucast (drop_bit 32 val), ucast (drop_bit 40 val),
     ucast (drop_bit 48 val), ucast (drop_bit 56 val)]"

section \<open>What a pair of accessors promises\<close>

locale byte_order =
  fixes get :: "u8 list \<Rightarrow> 'w::len word" and put :: "'w word \<Rightarrow> u8 list" and n :: nat
  assumes length_put: "length (put v) = n"
    and get_put: "take_bit (8 * n) v = v \<Longrightarrow> get (put v @ rest) = v"
    and put_get: "n \<le> length a \<Longrightarrow> put (get a) = take n a"
    and get_range: "take_bit (8 * n) (get a) = get a"
begin

lemma get_take: "n \<le> length a \<Longrightarrow> get (take n a) = get a"
proof -
  assume "n \<le> length a"
  then have "put (get a) @ [] = take n a" by (simp add: put_get)
  with get_put [OF get_range, of a "[]"] show ?thesis by simp
qed

lemma put_inject: "take_bit (8 * n) v = v \<Longrightarrow> take_bit (8 * n) w = w \<Longrightarrow> put v = put w \<longleftrightarrow> v = w"
  by (metis get_put)

lemma get_inject: "n \<le> length a \<Longrightarrow> n \<le> length b \<Longrightarrow> get a = get b \<longleftrightarrow> take n a = take n b"
  by (metis put_get get_take)

end

section \<open>Bytes of a word\<close>

text \<open>The reference: a word as a list of bytes, lowest first.\<close>

fun le_of :: "u8 list \<Rightarrow> 'w::len word" where
  "le_of [] = 0"
| "le_of (b # bs) = ucast b OR push_bit 8 (le_of bs)"

fun le_bytes :: "nat \<Rightarrow> 'w::len word \<Rightarrow> u8 list" where
  "le_bytes 0 w = []"
| "le_bytes (Suc n) w = ucast w # le_bytes n (drop_bit 8 w)"

lemma length_le_bytes [simp]: "length (le_bytes n w) = n"
  by (induction n arbitrary: w) simp_all

lemma le_of_le_bytes: "le_of (le_bytes n w) = take_bit (8 * n) w"
proof (induction n arbitrary: w)
  case (Suc n)
  have "le_of (le_bytes (Suc n) w) = ucast (ucast w :: u8) OR push_bit 8 (take_bit (8 * n) (drop_bit 8 w))"
    by (simp add: Suc)
  also have "\<dots> = take_bit (8 * Suc n) w"
    by (rule bit_word_eqI) (auto simp: bit_simps)
  finally show ?case .
qed simp

lemma le_of_range: "take_bit (8 * length bs) (le_of bs) = le_of bs"
proof (induction bs)
  case (Cons b bs)
  have "take_bit (8 * length (b # bs)) (le_of (b # bs) :: 'a word) =
      ucast b OR push_bit 8 (take_bit (8 * length bs) (le_of bs))"
    by (rule bit_word_eqI) (auto simp: bit_simps dest: bit_imp_le_length)
  with Cons show ?case by simp
qed simp

lemma le_bytes_le_of: "8 * length bs \<le> LENGTH('w::len) \<Longrightarrow> le_bytes (length bs) (le_of bs :: 'w word) = bs"
proof (induction bs)
  case (Cons b bs)
  have "bit (le_of bs :: 'w word) k \<Longrightarrow> k < 8 * length bs" for k
    using le_of_range [of bs, where 'a = 'w] by (metis bit_take_bit_iff)
  then have room: "bit (le_of bs :: 'w word) k \<Longrightarrow> 8 + k < LENGTH('w)" for k
    using Cons.prems by fastforce
  have "drop_bit 8 (ucast b OR push_bit 8 (le_of bs)) = (le_of bs :: 'w word)"
    by (rule bit_word_eqI) (use Cons.prems room in \<open>auto simp: bit_simps dest: bit_imp_le_length\<close>)
  moreover have "ucast (ucast b OR push_bit 8 (le_of bs :: 'w word)) = b"
    by (rule bit_word_eqI) (use Cons.prems in \<open>auto simp: bit_simps dest: bit_imp_le_length\<close>)
  ultimately show ?case using Cons by simp
qed simp

section \<open>Interpretations\<close>

lemma low_byte: "(ucast (w AND 0xff) :: u8) = ucast (w :: 'a::len word)" if "8 \<le> LENGTH('a)"
proof -
  have m: "(0xff :: 'a word) = mask 8" by (simp add: mask_eq_exp_minus_1)
  show ?thesis unfolding m by (rule bit_word_eqI) (use that in \<open>auto simp: bit_simps\<close>)
qed

text \<open>A pair that reads and writes the reference bytes, or their reverse, keeps the promise.\<close>

lemma byte_order_le:
  fixes get :: "u8 list \<Rightarrow> 'w::len word"
  assumes "\<And>a. get a = le_of (map ((!) a) [0..<n])" "\<And>v. put v = le_bytes n v" "8 * n \<le> LENGTH('w)"
  shows "byte_order get put n"
proof
  have "map ((!) (le_bytes n v @ rest)) [0..<n] = le_bytes n v" for v :: "'w word" and rest
    by (rule nth_equalityI) (auto simp: nth_append)
  then show "take_bit (8 * n) v = v \<Longrightarrow> get (put v @ rest) = v" for v rest
    by (simp add: assms le_of_le_bytes)
  have "n \<le> length a \<Longrightarrow> map ((!) a) [0..<n] = take n a" for a :: "u8 list"
    by (rule nth_equalityI) auto
  then show "n \<le> length a \<Longrightarrow> put (get a) = take n a" for a
    using le_bytes_le_of [of "take n a", where 'w = 'w] assms(3) by (simp add: assms(1,2))
  show "take_bit (8 * n) (get a) = get a" for a
    using le_of_range [of "map ((!) a) [0..<n]", where 'a = 'w] by (simp add: assms(1))
qed (simp add: assms(2))

lemma byte_order_be:
  fixes get :: "u8 list \<Rightarrow> 'w::len word"
  assumes "\<And>a. get a = le_of (rev (map ((!) a) [0..<n]))" "\<And>v. put v = rev (le_bytes n v)"
    and "8 * n \<le> LENGTH('w)"
  shows "byte_order get put n"
proof
  have "map ((!) (rev (le_bytes n v) @ rest)) [0..<n] = rev (le_bytes n v)" for v :: "'w word" and rest
    by (rule nth_equalityI) (auto simp: nth_append)
  then show "take_bit (8 * n) v = v \<Longrightarrow> get (put v @ rest) = v" for v rest
    by (simp add: assms le_of_le_bytes)
  have "n \<le> length a \<Longrightarrow> map ((!) a) [0..<n] = take n a" for a :: "u8 list"
    by (rule nth_equalityI) auto
  then show "n \<le> length a \<Longrightarrow> put (get a) = take n a" for a
    using le_bytes_le_of [of "rev (take n a)", where 'w = 'w] assms(3) by (simp add: assms(1,2))
  show "take_bit (8 * n) (get a) = get a" for a
    using le_of_range [of "rev (map ((!) a) [0..<n])", where 'a = 'w] by (simp add: assms(1))
qed (simp add: assms(2))

text \<open>The accessors do so.\<close>

lemmas accessor_simps = low_byte or.assoc or.commute or.left_commute push_bit_or upt_rec eval_nat_numeral

interpretation be16: byte_order WPA_GET_BE16 WPA_PUT_BE16 2
  by (rule byte_order_be) (simp_all add: WPA_GET_BE16_def WPA_PUT_BE16_def accessor_simps)

interpretation le16: byte_order WPA_GET_LE16 WPA_PUT_LE16 2
  by (rule byte_order_le) (simp_all add: WPA_GET_LE16_def WPA_PUT_LE16_def accessor_simps)

interpretation be24: byte_order WPA_GET_BE24 WPA_PUT_BE24 3
  by (rule byte_order_be) (simp_all add: WPA_GET_BE24_def WPA_PUT_BE24_def accessor_simps)

interpretation le24: byte_order WPA_GET_LE24 WPA_PUT_LE24 3
  by (rule byte_order_le) (simp_all add: WPA_GET_LE24_def WPA_PUT_LE24_def accessor_simps)

interpretation be32: byte_order WPA_GET_BE32 WPA_PUT_BE32 4
  by (rule byte_order_be) (simp_all add: WPA_GET_BE32_def WPA_PUT_BE32_def accessor_simps)

interpretation le32: byte_order WPA_GET_LE32 WPA_PUT_LE32 4
  by (rule byte_order_le) (simp_all add: WPA_GET_LE32_def WPA_PUT_LE32_def accessor_simps)

interpretation le48: byte_order WPA_GET_LE48 WPA_PUT_LE48 6
  by (rule byte_order_le) (simp_all add: WPA_GET_LE48_def WPA_PUT_LE48_def accessor_simps)

interpretation be64: byte_order WPA_GET_BE64 WPA_PUT_BE64 8
  by (rule byte_order_be) (simp_all add: WPA_GET_BE64_def WPA_PUT_BE64_def accessor_simps)

interpretation le64: byte_order WPA_GET_LE64 WPA_PUT_LE64 8
  by (rule byte_order_le) (simp_all add: WPA_GET_LE64_def WPA_PUT_LE64_def accessor_simps)

text \<open>A value of the full width always fits.\<close>

lemma get_put_full [simp]:
  "WPA_GET_BE16 (WPA_PUT_BE16 v16 @ r) = v16" "WPA_GET_LE16 (WPA_PUT_LE16 v16 @ r) = v16"
  "WPA_GET_BE32 (WPA_PUT_BE32 v32 @ r) = v32" "WPA_GET_LE32 (WPA_PUT_LE32 v32 @ r) = v32"
  "WPA_GET_BE64 (WPA_PUT_BE64 v64 @ r) = v64" "WPA_GET_LE64 (WPA_PUT_LE64 v64 @ r) = v64"
  using take_bit_length_eq [of v16] take_bit_length_eq [of v32] take_bit_length_eq [of v64]
  by (auto intro: be16.get_put le16.get_put be32.get_put le32.get_put be64.get_put le64.get_put)

lemmas length_put [simp] = be16.length_put le16.length_put be24.length_put le24.length_put
  be32.length_put le32.length_put le48.length_put be64.length_put le64.length_put

section \<open>Properties\<close>

text \<open>
  Integers survive the buffer: what a \<open>WPA_PUT\<close> accessor stores, the \<open>WPA_GET\<close>
  accessor of the same width and byte order reads back, whatever follows in the buffer, and
  for the 24 and 48 bit accessors exactly for the values that fit; reading and storing again
  rewrites the same bytes.
\<close>

theorem accessors_roundtrip:
  "WPA_GET_BE16 (WPA_PUT_BE16 v16 @ r) = v16 \<and> WPA_GET_LE16 (WPA_PUT_LE16 v16 @ r) = v16 \<and>
   WPA_GET_BE32 (WPA_PUT_BE32 v32 @ r) = v32 \<and> WPA_GET_LE32 (WPA_PUT_LE32 v32 @ r) = v32 \<and>
   WPA_GET_BE64 (WPA_PUT_BE64 v64 @ r) = v64 \<and> WPA_GET_LE64 (WPA_PUT_LE64 v64 @ r) = v64 \<and>
   (WPA_GET_BE24 (WPA_PUT_BE24 v32 @ r) = v32 \<longleftrightarrow> take_bit 24 v32 = v32) \<and>
   (WPA_GET_LE24 (WPA_PUT_LE24 v32 @ r) = v32 \<longleftrightarrow> take_bit 24 v32 = v32) \<and>
   (WPA_GET_LE48 (WPA_PUT_LE48 v64 @ r) = v64 \<longleftrightarrow> take_bit 48 v64 = v64) \<and>
   (8 \<le> length a \<longrightarrow> WPA_PUT_BE16 (WPA_GET_BE16 a) = take 2 a \<and> WPA_PUT_LE16 (WPA_GET_LE16 a) = take 2 a \<and>
     WPA_PUT_BE24 (WPA_GET_BE24 a) = take 3 a \<and> WPA_PUT_LE24 (WPA_GET_LE24 a) = take 3 a \<and>
     WPA_PUT_BE32 (WPA_GET_BE32 a) = take 4 a \<and> WPA_PUT_LE32 (WPA_GET_LE32 a) = take 4 a \<and>
     WPA_PUT_LE48 (WPA_GET_LE48 a) = take 6 a \<and>
     WPA_PUT_BE64 (WPA_GET_BE64 a) = take 8 a \<and> WPA_PUT_LE64 (WPA_GET_LE64 a) = take 8 a)"
  using be24.get_put [of v32 r] le24.get_put [of v32 r] le48.get_put [of v64 r]
    be24.get_range [of "WPA_PUT_BE24 v32 @ r"] le24.get_range [of "WPA_PUT_LE24 v32 @ r"]
    le48.get_range [of "WPA_PUT_LE48 v64 @ r"]
  by (auto simp: be16.put_get le16.put_get be24.put_get le24.put_get be32.put_get le32.put_get le48.put_get
      be64.put_get le64.put_get)

theorem accessors_roundtrip_witness:
  "WPA_PUT_BE24 (WPA_GET_BE24 [1, 2, 3, 4, 5, 6, 7, 8]) = [1, 2, 3]"
  using accessors_roundtrip [of 0 "[]" 0 0 "[1, 2, 3, 4, 5, 6, 7, 8]"] by simp

end
