(* ===== verification/Aes_Cipher.thy ===== *)
theory Aes_Cipher
  imports Aes_Tables
begin

text \<open>
  The AES block cipher of wpa\_supplicant (\<open>src/crypto/aes-internal.c\<close>,
  \<open>aes-internal-enc.c\<close>, \<open>aes-internal-dec.c\<close> and the macros of \<open>aes_i.h\<close>): key schedule,
  encryption and decryption by tables. The array \<open>rk\<close> is a list of words; the pointer
  \<open>rk\<close> that the loops advance is a suffix of it. \<open>alloc\<close> says whether the allocation of a
  context succeeds. The main result is that decryption with the inverted key schedule is
  the inverse of encryption.
\<close>

section \<open>Macros\<close>

definition rotr :: "u32 \<Rightarrow> nat \<Rightarrow> u32" where
  "rotr v n = drop_bit n v OR push_bit (32 - n) v"

definition b3 :: "u32 \<Rightarrow> u32" where "b3 i = drop_bit 24 i AND 0xff"
definition b2 :: "u32 \<Rightarrow> u32" where "b2 i = drop_bit 16 i AND 0xff"
definition b1 :: "u32 \<Rightarrow> u32" where "b1 i = drop_bit 8 i AND 0xff"
definition b0 :: "u32 \<Rightarrow> u32" where "b0 i = i AND 0xff"

definition TE0 :: "u32 \<Rightarrow> u32" where "TE0 i = Te0 ! unat (b3 i)"
definition TE1 :: "u32 \<Rightarrow> u32" where "TE1 i = rotr (Te0 ! unat (b2 i)) 8"
definition TE2 :: "u32 \<Rightarrow> u32" where "TE2 i = rotr (Te0 ! unat (b1 i)) 16"
definition TE3 :: "u32 \<Rightarrow> u32" where "TE3 i = rotr (Te0 ! unat (b0 i)) 24"
definition TE41 :: "u32 \<Rightarrow> u32" where "TE41 i = push_bit 8 (Te0 ! unat (b3 i)) AND 0xff000000"
definition TE42 :: "u32 \<Rightarrow> u32" where "TE42 i = Te0 ! unat (b2 i) AND 0x00ff0000"
definition TE43 :: "u32 \<Rightarrow> u32" where "TE43 i = Te0 ! unat (b1 i) AND 0x0000ff00"
definition TE44 :: "u32 \<Rightarrow> u32" where "TE44 i = drop_bit 8 (Te0 ! unat (b0 i)) AND 0x000000ff"
definition TE421 :: "u32 \<Rightarrow> u32" where "TE421 i = push_bit 8 (Te0 ! unat (b2 i)) AND 0xff000000"
definition TE432 :: "u32 \<Rightarrow> u32" where "TE432 i = Te0 ! unat (b1 i) AND 0x00ff0000"
definition TE443 :: "u32 \<Rightarrow> u32" where "TE443 i = Te0 ! unat (b0 i) AND 0x0000ff00"
definition TE414 :: "u32 \<Rightarrow> u32" where "TE414 i = drop_bit 8 (Te0 ! unat (b3 i)) AND 0x000000ff"
definition TE4 :: "u32 \<Rightarrow> u32" where "TE4 i = drop_bit 8 (Te0 ! unat i) AND 0x000000ff"

definition TD0 :: "u32 \<Rightarrow> u32" where "TD0 i = Td0 ! unat (b3 i)"
definition TD1 :: "u32 \<Rightarrow> u32" where "TD1 i = rotr (Td0 ! unat (b2 i)) 8"
definition TD2 :: "u32 \<Rightarrow> u32" where "TD2 i = rotr (Td0 ! unat (b1 i)) 16"
definition TD3 :: "u32 \<Rightarrow> u32" where "TD3 i = rotr (Td0 ! unat (b0 i)) 24"
definition TD41 :: "u32 \<Rightarrow> u32" where "TD41 i = push_bit 24 (ucast (Td4s ! unat (b3 i)))"
definition TD42 :: "u32 \<Rightarrow> u32" where "TD42 i = push_bit 16 (ucast (Td4s ! unat (b2 i)))"
definition TD43 :: "u32 \<Rightarrow> u32" where "TD43 i = push_bit 8 (ucast (Td4s ! unat (b1 i)))"
definition TD44 :: "u32 \<Rightarrow> u32" where "TD44 i = ucast (Td4s ! unat (b0 i))"
definition TD0_b :: "u32 \<Rightarrow> u32" where "TD0_b i = Td0 ! unat (i AND 0xff)"
definition TD1_b :: "u32 \<Rightarrow> u32" where "TD1_b i = rotr (Td0 ! unat (i AND 0xff)) 8"
definition TD2_b :: "u32 \<Rightarrow> u32" where "TD2_b i = rotr (Td0 ! unat (i AND 0xff)) 16"
definition TD3_b :: "u32 \<Rightarrow> u32" where "TD3_b i = rotr (Td0 ! unat (i AND 0xff)) 24"

definition RCON :: "nat \<Rightarrow> u32" where "RCON i = push_bit 24 (ucast (rcons ! i))"

text \<open>\<open>GETU32(p)\<close> reads the four bytes at the start of a buffer.\<close>

definition GETU32 :: "u8 list \<Rightarrow> u32" where
  "GETU32 pt = push_bit 24 (ucast (pt ! 0)) XOR push_bit 16 (ucast (pt ! 1)) XOR
     push_bit 8 (ucast (pt ! 2)) XOR ucast (pt ! 3)"

definition PUTU32 :: "u32 \<Rightarrow> u8 list" where
  "PUTU32 st = [ucast (drop_bit 24 st), ucast (drop_bit 16 st), ucast (drop_bit 8 st), ucast st]"

section \<open>Key schedule\<close>

text \<open>
  One pass of a loop of \<open>rijndaelKeySetupEnc\<close> reads the words from offset \<open>o\<close>, which is
  where \<open>rk\<close> points to, and appends to the words written so far. \<open>key_word\<close> is the word
  with the substitution and the round constant.
\<close>

definition key_word :: "u32 \<Rightarrow> u32 \<Rightarrow> nat \<Rightarrow> u32" where
  "key_word w temp i = w XOR TE421 temp XOR TE432 temp XOR TE443 temp XOR TE414 temp XOR RCON i"

definition key_pass_128 :: "nat \<Rightarrow> u32 list \<Rightarrow> u32 list" where
  "key_pass_128 i a =
     (let rk = drop (4 * i) a;
          r4 = key_word (rk ! 0) (rk ! 3) i;
          r5 = rk ! 1 XOR r4;
          r6 = rk ! 2 XOR r5;
          r7 = rk ! 3 XOR r6
      in a @ [r4, r5, r6, r7])"

definition key_pass_192 :: "nat \<Rightarrow> u32 list \<Rightarrow> u32 list" where
  "key_pass_192 i a =
     (let rk = drop (6 * i) a;
          r6 = key_word (rk ! 0) (rk ! 5) i;
          r7 = rk ! 1 XOR r6;
          r8 = rk ! 2 XOR r7;
          r9 = rk ! 3 XOR r8
      in if i = 7 then a @ [r6, r7, r8, r9]
         else let r10 = rk ! 4 XOR r9; r11 = rk ! 5 XOR r10
              in a @ [r6, r7, r8, r9, r10, r11])"

definition key_pass_256 :: "nat \<Rightarrow> u32 list \<Rightarrow> u32 list" where
  "key_pass_256 i a =
     (let rk = drop (8 * i) a;
          r8 = key_word (rk ! 0) (rk ! 7) i;
          r9 = rk ! 1 XOR r8;
          r10 = rk ! 2 XOR r9;
          r11 = rk ! 3 XOR r10
      in if i = 6 then a @ [r8, r9, r10, r11]
         else let temp = r11;
                  r12 = rk ! 4 XOR TE41 temp XOR TE42 temp XOR TE43 temp XOR TE44 temp;
                  r13 = rk ! 5 XOR r12;
                  r14 = rk ! 6 XOR r13;
                  r15 = rk ! 7 XOR r14
              in a @ [r8, r9, r10, r11, r12, r13, r14, r15])"

text \<open>The number of rounds and the schedule; \<open>None\<close> is the result \<open>-1\<close>.\<close>

definition rijndaelKeySetupEnc :: "u8 list \<Rightarrow> nat \<Rightarrow> (nat \<times> u32 list) option" where
  "rijndaelKeySetupEnc cipherKey keyBits =
     (let a = map (\<lambda>k. GETU32 (drop (4 * k) cipherKey)) in
      if keyBits = 128 then Some (10, fold key_pass_128 [0..<10] (a [0..<4]))
      else if keyBits = 192 then Some (12, fold key_pass_192 [0..<8] (a [0..<6]))
      else if keyBits = 256 then Some (14, fold key_pass_256 [0..<7] (a [0..<8]))
      else None)"

text \<open>The inverse MixColumn transform that the decryption schedule applies to a word.\<close>

definition inv_mix :: "u32 \<Rightarrow> u32" where
  "inv_mix w = TD0_b (TE4 (drop_bit 24 w)) XOR TD1_b (TE4 (drop_bit 16 w AND 0xff)) XOR
     TD2_b (TE4 (drop_bit 8 w AND 0xff)) XOR TD3_b (TE4 (w AND 0xff))"

definition swap_words :: "nat \<Rightarrow> nat \<Rightarrow> u32 list \<Rightarrow> u32 list" where
  "swap_words i j rk = rk[i := rk ! j, j := rk ! i]"

text \<open>The loop that inverts the order of the round keys.\<close>

function invert_order :: "nat \<Rightarrow> nat \<Rightarrow> u32 list \<Rightarrow> u32 list" where
  "invert_order i j rk =
     (if i < j then
        invert_order (i + 4) (j - 4)
          (swap_words (i + 3) (j + 3) (swap_words (i + 2) (j + 2)
            (swap_words (i + 1) (j + 1) (swap_words i j rk))))
      else rk)"
  by pat_completeness auto
termination
  by (relation "measure (\<lambda>(i, j, _). j - i)") auto

declare invert_order.simps [simp del]

text \<open>\<open>TD0_(\<dots>)\<close> of the words of the round keys \<open>1\<close> to \<open>Nr - 1\<close>.\<close>

definition mix_keys :: "nat \<Rightarrow> u32 list \<Rightarrow> u32 list" where
  "mix_keys Nr rk = fold (\<lambda>i. fold (\<lambda>j rk. rk[4 * i + j := inv_mix (rk ! (4 * i + j))]) [0..<4]) [1..<Nr] rk"

definition rijndaelKeySetupDec :: "u8 list \<Rightarrow> nat \<Rightarrow> (nat \<times> u32 list) option" where
  "rijndaelKeySetupDec cipherKey keyBits =
     (case rijndaelKeySetupEnc cipherKey keyBits of
        None \<Rightarrow> None
      | Some (Nr, rk) \<Rightarrow> Some (Nr, mix_keys Nr (invert_order 0 (4 * Nr) rk)))"

section \<open>Encryption and decryption\<close>

type_synonym state4 = "u32 \<times> u32 \<times> u32 \<times> u32"

definition getstate :: "u8 list \<Rightarrow> u32 list \<Rightarrow> state4" where
  "getstate pt rk = (GETU32 pt XOR rk ! 0, GETU32 (drop 4 pt) XOR rk ! 1,
     GETU32 (drop 8 pt) XOR rk ! 2, GETU32 (drop 12 pt) XOR rk ! 3)"

definition putstate :: "state4 \<Rightarrow> u8 list" where
  "putstate s = (case s of (s0, s1, s2, s3) \<Rightarrow> PUTU32 s0 @ PUTU32 s1 @ PUTU32 s2 @ PUTU32 s3)"

definition enc_round :: "u32 list \<Rightarrow> nat \<Rightarrow> state4 \<Rightarrow> state4" where
  "enc_round rk i s = (case s of (s0, s1, s2, s3) \<Rightarrow>
     (TE0 s0 XOR TE1 s1 XOR TE2 s2 XOR TE3 s3 XOR rk ! (4 * i),
      TE0 s1 XOR TE1 s2 XOR TE2 s3 XOR TE3 s0 XOR rk ! (4 * i + 1),
      TE0 s2 XOR TE1 s3 XOR TE2 s0 XOR TE3 s1 XOR rk ! (4 * i + 2),
      TE0 s3 XOR TE1 s0 XOR TE2 s1 XOR TE3 s2 XOR rk ! (4 * i + 3)))"

definition enc_last :: "u32 list \<Rightarrow> state4 \<Rightarrow> state4" where
  "enc_last rk t = (case t of (t0, t1, t2, t3) \<Rightarrow>
     (TE41 t0 XOR TE42 t1 XOR TE43 t2 XOR TE44 t3 XOR rk ! 0,
      TE41 t1 XOR TE42 t2 XOR TE43 t3 XOR TE44 t0 XOR rk ! 1,
      TE41 t2 XOR TE42 t3 XOR TE43 t0 XOR TE44 t1 XOR rk ! 2,
      TE41 t3 XOR TE42 t0 XOR TE43 t1 XOR TE44 t2 XOR rk ! 3))"

definition dec_round :: "u32 list \<Rightarrow> nat \<Rightarrow> state4 \<Rightarrow> state4" where
  "dec_round rk i s = (case s of (s0, s1, s2, s3) \<Rightarrow>
     (TD0 s0 XOR TD1 s3 XOR TD2 s2 XOR TD3 s1 XOR rk ! (4 * i),
      TD0 s1 XOR TD1 s0 XOR TD2 s3 XOR TD3 s2 XOR rk ! (4 * i + 1),
      TD0 s2 XOR TD1 s1 XOR TD2 s0 XOR TD3 s3 XOR rk ! (4 * i + 2),
      TD0 s3 XOR TD1 s2 XOR TD2 s1 XOR TD3 s0 XOR rk ! (4 * i + 3)))"

definition dec_last :: "u32 list \<Rightarrow> state4 \<Rightarrow> state4" where
  "dec_last rk t = (case t of (t0, t1, t2, t3) \<Rightarrow>
     (TD41 t0 XOR TD42 t3 XOR TD43 t2 XOR TD44 t1 XOR rk ! 0,
      TD41 t1 XOR TD42 t0 XOR TD43 t3 XOR TD44 t2 XOR rk ! 1,
      TD41 t2 XOR TD42 t1 XOR TD43 t0 XOR TD44 t3 XOR rk ! 2,
      TD41 t3 XOR TD42 t2 XOR TD43 t1 XOR TD44 t0 XOR rk ! 3))"

text \<open>
  The loop \<open>for (;;)\<close> with \<open>r = Nr >> 1\<close> passes, two rounds per pass but for the last; \<open>Nr\<close>
  is 10, 12 or 14, so \<open>r\<close> starts above zero. It returns the state and the advanced \<open>rk\<close>.
\<close>

fun rounds_loop :: "(u32 list \<Rightarrow> nat \<Rightarrow> state4 \<Rightarrow> state4) \<Rightarrow> nat \<Rightarrow> u32 list \<Rightarrow> state4 \<Rightarrow> state4 \<times> u32 list" where
  "rounds_loop round 0 rk s = (s, rk)"
| "rounds_loop round (Suc r) rk s =
     (let t = round rk 1 s; rk' = drop 8 rk
      in if r = 0 then (t, rk') else rounds_loop round r rk' (round rk' 0 t))"

definition rijndaelEncrypt :: "u32 list \<Rightarrow> nat \<Rightarrow> u8 list \<Rightarrow> u8 list" where
  "rijndaelEncrypt rk Nr pt =
     (let (t, rk') = rounds_loop enc_round (Nr div 2) rk (getstate pt rk)
      in putstate (enc_last rk' t))"

definition rijndaelDecrypt :: "u32 list \<Rightarrow> nat \<Rightarrow> u8 list \<Rightarrow> u8 list" where
  "rijndaelDecrypt rk Nr ct =
     (let (t, rk') = rounds_loop dec_round (Nr div 2) rk (getstate ct rk)
      in putstate (dec_last rk' t))"

text \<open>A context is the number of rounds and the schedule.\<close>

type_synonym aes_ctx = "nat \<times> u32 list"

definition aes_encrypt_init :: "bool \<Rightarrow> u8 list \<Rightarrow> aes_ctx option" where
  "aes_encrypt_init alloc key = (if alloc then rijndaelKeySetupEnc key (length key * 8) else None)"

definition aes_encrypt :: "aes_ctx \<Rightarrow> u8 list \<Rightarrow> u8 list" where
  "aes_encrypt ctx plain = rijndaelEncrypt (snd ctx) (fst ctx) plain"

definition aes_decrypt_init :: "bool \<Rightarrow> u8 list \<Rightarrow> aes_ctx option" where
  "aes_decrypt_init alloc key = (if alloc then rijndaelKeySetupDec key (length key * 8) else None)"

definition aes_decrypt :: "aes_ctx \<Rightarrow> u8 list \<Rightarrow> u8 list" where
  "aes_decrypt ctx crypt = rijndaelDecrypt (snd ctx) (fst ctx) crypt"

section \<open>Bytes of words\<close>

lemma masks:
  "(0xff::u32) = mask 8" "(0xff00::u32) = push_bit 8 (mask 8)"
  "(0xff0000::u32) = push_bit 16 (mask 8)" "(0xff000000::u32) = push_bit 24 (mask 8)"
  by (simp_all add: mask_eq_exp_minus_1)

lemmas byte_defs = b3_def b2_def b1_def b0_def

lemma bytes_less: "unat (b3 w) < 256" "unat (b2 w) < 256" "unat (b1 w) < 256" "unat (b0 w) < 256"
  unfolding byte_defs by (rule byte_mask_less)+

lemma bytes_xor:
  "b3 (v XOR w) = b3 v XOR b3 w" "b2 (v XOR w) = b2 v XOR b2 w"
  "b1 (v XOR w) = b1 v XOR b1 w" "b0 (v XOR w) = b0 v XOR b0 w"
  unfolding byte_defs masks by (rule bit_word_eqI; auto simp: bit_simps)+

lemma bit_rotr: "n \<le> 32 \<Longrightarrow> bit (rotr v n) k \<longleftrightarrow> k < 32 \<and> bit v ((k + n) mod 32)"
proof -
  assume n: "n \<le> 32"
  have hi: "\<not> bit v i" if "32 \<le> i" for i
    using that bit_imp_le_length [of v i] by auto
  show ?thesis
  proof (cases "k + n < 32")
    case True
    then show ?thesis using n hi by (auto simp: rotr_def bit_simps add.commute)
  next
    case False
    with n have "k < 32 \<Longrightarrow> (k + n) mod 32 = k + n - 32" by (simp add: mod_if)
    with False n hi show ?thesis by (auto simp: rotr_def bit_simps add.commute)
  qed
qed

lemma rotr_xor: "n \<le> 32 \<Longrightarrow> rotr (v XOR w) n = rotr v n XOR rotr w n"
  by (rule bit_word_eqI) (auto simp: bit_rotr bit_xor_iff)

lemma rotr_rotr: "m + n \<le> 32 \<Longrightarrow> rotr (rotr w m) n = rotr w (m + n)"
  by (rule bit_word_eqI) (auto simp: bit_rotr mod_simps add_ac)

lemma rotr_32 [simp]: "rotr w 32 = w"
  by (rule bit_word_eqI) (auto simp: bit_rotr)

lemma rotr_0 [simp]: "n \<le> 32 \<Longrightarrow> rotr 0 n = 0"
  by (rule bit_word_eqI) (auto simp: bit_rotr)

lemma bytes_rotr: "b3 (rotr w 8) = b0 w" "b2 (rotr w 8) = b3 w" "b1 (rotr w 8) = b2 w" "b0 (rotr w 8) = b1 w"
  unfolding rotr_def byte_defs masks by (rule bit_word_eqI; auto simp: bit_simps)+

lemma bytes_joined:
  fixes A B C D :: u32
  defines "w \<equiv> (push_bit 8 A AND 0xff000000) XOR (B AND 0x00ff0000) XOR (C AND 0x0000ff00) XOR (drop_bit 8 D AND 0x000000ff)"
  shows "b3 w = drop_bit 16 A AND 0xff" "b2 w = drop_bit 16 B AND 0xff"
    "b1 w = drop_bit 8 C AND 0xff" "b0 w = drop_bit 8 D AND 0xff"
  unfolding w_def byte_defs masks by (rule bit_word_eqI; auto simp: bit_simps)+

lemma word_of_bytes: "push_bit 24 (b3 w) XOR push_bit 16 (b2 w) XOR push_bit 8 (b1 w) XOR b0 w = w"
proof (rule bit_word_eqI)
  fix n assume "n < LENGTH(32)"
  then consider "n < 8" | "8 \<le> n" "n < 16" | "16 \<le> n" "n < 24" | "24 \<le> n" "n < 32" by fastforce
  then show "bit (push_bit 24 (b3 w) XOR push_bit 16 (b2 w) XOR push_bit 8 (b1 w) XOR b0 w) n \<longleftrightarrow> bit w n"
    unfolding byte_defs masks by cases (auto simp: bit_simps)
qed

lemma word_of_bytes_key:
  "push_bit 24 (b3 w) XOR push_bit 16 (b2 w) XOR push_bit 8 (b1 w) XOR b0 w XOR k = w XOR k"
  using arg_cong [OF word_of_bytes, of "\<lambda>x. x XOR k" w] by (simp add: xor.assoc)

section \<open>The inverse MixColumn transform\<close>

text \<open>The bytes of a word of the substituted and shifted state.\<close>

lemma bytes_sub:
  fixes A B C D :: u32
  defines "w \<equiv> TE41 A XOR TE42 B XOR TE43 C XOR TE44 D"
  shows "b3 w = sbox (unat (b3 A))" "b2 w = sbox (unat (b2 B))"
    "b1 w = sbox (unat (b1 C))" "b0 w = sbox (unat (b0 D))"
  unfolding w_def TE41_def TE42_def TE43_def TE44_def
  by (simp_all only: bytes_joined Te0_middle bytes_less) (simp_all add: sbox_def)

lemma inv_mix_lin:
  "inv_mix w = lin mul_D (b3 w) XOR rotr (lin mul_D (b2 w)) 8 XOR
     rotr (lin mul_D (b1 w)) 16 XOR rotr (lin mul_D (b0 w)) 24"
proof -
  have top: "drop_bit 24 w = b3 w"
    unfolding byte_defs masks by (rule bit_word_eqI) (auto simp: bit_simps dest: bit_imp_le_length)
  have te4: "TE4 x = sbox (unat x)" for x by (simp add: TE4_def sbox_def)
  have low: "sbox n AND 0xff = sbox n" for n by (simp add: sbox_def and.assoc)
  have mid: "drop_bit 16 w AND 0xff = b2 w" "drop_bit 8 w AND 0xff = b1 w" "w AND 0xff = b0 w"
    by (simp_all add: byte_defs)
  show ?thesis
    using Td0_sbox [OF bytes_less(1), of w] Td0_sbox [OF bytes_less(2), of w]
      Td0_sbox [OF bytes_less(3), of w] Td0_sbox [OF bytes_less(4), of w]
    by (simp add: inv_mix_def TD0_b_def TD1_b_def TD2_b_def TD3_b_def te4 top mid low)
qed

lemma inv_mix_0 [simp]: "inv_mix 0 = 0"
  by (simp add: inv_mix_lin byte_defs)

lemma inv_mix_xor: "inv_mix (v XOR w) = inv_mix v XOR inv_mix w"
  by (simp add: inv_mix_lin bytes_xor lin_xor rotr_xor xor.assoc xor.commute xor.left_commute)

lemma inv_mix_rotr: "inv_mix (rotr w 8) = rotr (inv_mix w) 8"
  by (simp add: inv_mix_lin bytes_rotr rotr_xor rotr_rotr xor.assoc xor.commute xor.left_commute)

text \<open>It takes a column of \<open>Te0\<close> to the substituted byte.\<close>

definition top_bits :: "u32 list" where
  "top_bits = [0x1000000, 0x2000000, 0x4000000, 0x8000000, 0x10000000, 0x20000000, 0x40000000, 0x80000000]"

lemma inv_mix_mul_T: "map inv_mix mul_T = top_bits"
  unfolding inv_mix_lin mul_T_def by code_simp

lemma lin_push_all: "list_all (\<lambda>n. lin top_bits (of_nat n) = push_bit 24 (of_nat n)) [0..<256]"
  by code_simp

lemma inv_mix_Te0:
  assumes "n < 256"
  shows "inv_mix (Te0 ! n) = push_bit 24 (sbox n)"
proof -
  have "inv_mix (Te0 ! n) = lin (map inv_mix mul_T) (of_nat (unat (sbox n)))"
    using Te0_sbox [OF assms] lin_image [of inv_mix mul_T "sbox n"] by (simp add: inv_mix_xor)
  also have "\<dots> = push_bit 24 (of_nat (unat (sbox n)))"
    using lin_push_all sbox_less [of n] unfolding inv_mix_mul_T list_all_iff
    by (metis atLeastLessThan_iff le0 set_upt)
  finally show ?thesis by simp
qed

text \<open>Hence it undoes MixColumns on the substituted state.\<close>

lemma sub_shape:
  "TE41 A = push_bit 24 (sbox (unat (b3 A)))" "TE42 A = push_bit 16 (sbox (unat (b2 A)))"
  "TE43 A = push_bit 8 (sbox (unat (b1 A)))" "TE44 A = sbox (unat (b0 A))"
proof -
  have hi: "push_bit 8 v AND 0xff000000 = push_bit 24 (drop_bit 16 v AND 0xff)"
    "v AND 0x00ff0000 = push_bit 16 (drop_bit 16 v AND 0xff)"
    "v AND 0x0000ff00 = push_bit 8 (drop_bit 8 v AND 0xff)" for v :: u32
    unfolding masks by (rule bit_word_eqI; auto simp: bit_simps)+
  show "TE41 A = push_bit 24 (sbox (unat (b3 A)))" "TE42 A = push_bit 16 (sbox (unat (b2 A)))"
    "TE43 A = push_bit 8 (sbox (unat (b1 A)))" "TE44 A = sbox (unat (b0 A))"
    unfolding TE41_def TE42_def TE43_def TE44_def hi
    by (simp_all only: Te0_middle bytes_less) (simp_all add: sbox_def)
qed

lemma rotr_push: "unat (x::u32) < 256 \<Longrightarrow> rotr (push_bit 24 x) 8 = push_bit 16 x \<and>
  rotr (push_bit 24 x) 16 = push_bit 8 x \<and> rotr (push_bit 24 x) 24 = x"
proof -
  assume "unat x < 256"
  then have "take_bit 8 x = x"
    by (simp add: word_unat_eq_iff unsigned_take_bit_eq take_bit_nat_eq_self)
  then have "bit x k \<Longrightarrow> k < 8" for k
    by (metis bit_take_bit_iff)
  from this [of "_ - 16"] this [of "_ - 8"] this show ?thesis
    by (auto simp: rotr_def bit_simps intro!: bit_word_eqI dest: bit_imp_le_length) fastforce+
qed

lemma inv_mix_column:
  "inv_mix (TE0 A XOR TE1 B XOR TE2 C XOR TE3 D) = TE41 A XOR TE42 B XOR TE43 C XOR TE44 D"
proof -
  have r: "inv_mix (rotr w 16) = rotr (inv_mix w) 16" "inv_mix (rotr w 24) = rotr (inv_mix w) 24" for w
    using inv_mix_rotr [of w] inv_mix_rotr [of "rotr w 8"] inv_mix_rotr [of "rotr (rotr w 8) 8"]
    by (simp_all add: rotr_rotr)
  show ?thesis
    unfolding inv_mix_xor TE0_def TE1_def TE2_def TE3_def
    by (simp add: inv_mix_rotr r inv_mix_Te0 bytes_less sub_shape rotr_push sbox_less)
qed

lemma inv_mix_column_key:
  "inv_mix (TE0 A XOR TE1 B XOR TE2 C XOR TE3 D XOR k) = TE41 A XOR TE42 B XOR TE43 C XOR TE44 D XOR inv_mix k"
  using inv_mix_xor [of "TE0 A XOR TE1 B XOR TE2 C XOR TE3 D" k] by (simp add: inv_mix_column xor.assoc)

section \<open>Decryption inverts encryption\<close>

text \<open>SubBytes and ShiftRows, the last round without its key.\<close>

definition sub_shift :: "state4 \<Rightarrow> state4" where
  "sub_shift = enc_last [0, 0, 0, 0]"

definition add_key :: "u32 list \<Rightarrow> nat \<Rightarrow> state4 \<Rightarrow> state4" where
  "add_key rk i s = (case s of (s0, s1, s2, s3) \<Rightarrow>
     (s0 XOR rk ! (4 * i), s1 XOR rk ! (4 * i + 1), s2 XOR rk ! (4 * i + 2), s3 XOR rk ! (4 * i + 3)))"

definition inv_mix4 :: "state4 \<Rightarrow> state4" where
  "inv_mix4 s = (case s of (s0, s1, s2, s3) \<Rightarrow> (inv_mix s0, inv_mix s1, inv_mix s2, inv_mix s3))"

text \<open>The state after a decryption round, from the substituted and shifted state.\<close>

lemma dec_round_sub_shift: "dec_round rk i (sub_shift t) = add_key rk i (inv_mix4 t)"
proof -
  obtain t0 t1 t2 t3 where t: "t = (t0, t1, t2, t3)" by (cases t)
  show ?thesis
    unfolding t by (simp add: dec_round_def sub_shift_def enc_last_def add_key_def inv_mix4_def
        TD0_def TD1_def TD2_def TD3_def bytes_sub Td0_sbox bytes_less inv_mix_lin
        xor.assoc)
qed

lemma dec_last_sub_shift: "dec_last rk (sub_shift t) = add_key rk 0 t"
proof -
  obtain t0 t1 t2 t3 where t: "t = (t0, t1, t2, t3)" by (cases t)
  have s: "ucast (Td4s ! unat (sbox (unat (x::u32)))) = x" if "unat x < 256" for x
    using Td4s_sbox [OF that] by (metis of_nat_unat ucast_id)
  show ?thesis
    unfolding t by (simp add: dec_last_def sub_shift_def enc_last_def add_key_def
        TD41_def TD42_def TD43_def TD44_def bytes_sub s bytes_less word_of_bytes_key
        numeral_2_eq_2)
qed

lemma inv_mix4_enc_round:
  "inv_mix4 (enc_round rk i s) = add_key (map inv_mix rk) i (sub_shift s)"
  if "4 * i + 3 < length rk"
proof -
  obtain s0 s1 s2 s3 where s: "s = (s0, s1, s2, s3)" by (cases s)
  show ?thesis
    using that unfolding s
    by (simp add: inv_mix4_def enc_round_def sub_shift_def enc_last_def add_key_def
        inv_mix_column_key xor.assoc)
qed

lemma add_key_twice:
  assumes "\<forall>j < 4. k ! (4 * i + j) = k' ! (4 * i' + j)"
  shows "add_key k i (add_key k' i' s) = s"
proof -
  have "k ! (4 * i) = k' ! (4 * i')" "k ! Suc (4 * i) = k' ! Suc (4 * i')"
    "k ! (2 + 4 * i) = k' ! (2 + 4 * i')" "k ! (3 + 4 * i) = k' ! (3 + 4 * i')"
    using assms [rule_format, of 0] assms [rule_format, of 1] assms [rule_format, of 2]
      assms [rule_format, of 3] by (simp_all add: add_ac)
  then show ?thesis by (cases s) (simp add: add_key_def xor.assoc add_ac)
qed

text \<open>The loop is a fold over the round numbers.\<close>

lemma round_drop:
  assumes "8 \<le> length rk"
  shows "enc_round (drop 8 rk) i s = enc_round rk (i + 2) s" "dec_round (drop 8 rk) i s = dec_round rk (i + 2) s"
  using assms by (simp_all add: enc_round_def dec_round_def add.commute add.left_commute)

lemma rounds_loop_fold:
  assumes "\<And>rk i s. 8 \<le> length rk \<Longrightarrow> f (drop 8 rk) i s = f rk (i + 2) s"
    and "8 * r \<le> length rk" "0 < r"
  shows "rounds_loop f r rk s = (fold (f rk) [1..<2 * r] s, drop (8 * r) rk)"
  using assms(2,3)
proof (induction r arbitrary: rk s)
  case (Suc r)
  show ?case
  proof (cases "r = 0")
    case False
    have "map (\<lambda>i. i + 2) [1..<n] = [3..<n + 2]" for n by (induction n) auto
    moreover have "[1..<2 * Suc r] = 1 # [1 + 1..<2 * Suc r]" "[2..<2 * Suc r] = 2 # [2 + 1..<2 * Suc r]"
      using False by (subst upt_conv_Cons; simp del: upt_Suc)+
    then have "[1..<2 * Suc r] = 1 # [2..<2 * Suc r]" "[2..<2 * Suc r] = 2 # [3..<2 * Suc r]"
      by (simp_all only: one_add_one add_One_commute numeral_plus_one add_num_simps)
    ultimately have up: "[1..<2 * Suc r] = 1 # 2 # map (\<lambda>i. i + 2) [1..<2 * r]"
      by (metis add_2_eq_Suc' mult_Suc_right add.commute)
    have "f (drop 8 rk) = (\<lambda>i. f rk (i + 2))"
      using assms(1) [of rk] Suc.prems by (intro ext) simp
    then have "fold (f (drop 8 rk)) xs u = fold (f rk) (map (\<lambda>i. i + 2) xs) u" for xs u
      by (simp add: fold_map comp_def)
    then show ?thesis
      using Suc.IH [of "drop 8 rk"] False Suc.prems assms(1) [of rk 0]
      unfolding up by (simp add: Let_def numeral_2_eq_2 add.commute)
  qed (simp add: Let_def numeral_2_eq_2)
qed simp

lemmas rounds_fold = rounds_loop_fold [where f = enc_round, OF round_drop(1)]
  rounds_loop_fold [where f = dec_round, OF round_drop(2)]

text \<open>
  The schedules fit together: the decryption schedule has the round keys in the opposite
  order, all but the first and the last transformed.
\<close>

definition inverse_keys :: "nat \<Rightarrow> u32 list \<Rightarrow> u32 list \<Rightarrow> bool" where
  "inverse_keys Nr rk rk' \<longleftrightarrow> length rk = 4 * Nr + 4 \<and> length rk' = length rk \<and>
     (\<forall>i \<le> Nr. \<forall>j < 4. rk' ! (4 * i + j) =
        (if i = 0 \<or> i = Nr then rk ! (4 * (Nr - i) + j) else inv_mix (rk ! (4 * (Nr - i) + j))))"

lemma getstate_add_key: "getstate b rk = add_key rk 0 (getstate b [0, 0, 0, 0])"
  by (simp add: getstate_def add_key_def numeral_2_eq_2 numeral_3_eq_3)

lemma GETU32_PUTU32: "GETU32 (PUTU32 w @ bs) = w"
proof (rule bit_word_eqI)
  fix n assume "n < LENGTH(32)"
  then consider "n < 8" | "8 \<le> n" "n < 16" | "16 \<le> n" "n < 24" | "24 \<le> n" "n < 32" by fastforce
  then show "bit (GETU32 (PUTU32 w @ bs)) n \<longleftrightarrow> bit w n"
    unfolding GETU32_def PUTU32_def by cases (auto simp: bit_simps)
qed

lemma PUTU32_GETU32: "PUTU32 (GETU32 [a, b, c, d]) = [a, b, c, d]"
proof -
  have "ucast (drop_bit 24 (GETU32 [a, b, c, d])) = a" "ucast (drop_bit 16 (GETU32 [a, b, c, d])) = b"
    "ucast (drop_bit 8 (GETU32 [a, b, c, d])) = c" "ucast (GETU32 [a, b, c, d]) = d"
    unfolding GETU32_def by (rule bit_word_eqI; auto simp: bit_simps dest: bit_imp_le_length)+
  then show ?thesis by (simp add: PUTU32_def)
qed

lemma GETU32_take: "4 \<le> length bs \<Longrightarrow> GETU32 bs = GETU32 (take 4 bs)"
  by (simp add: GETU32_def)

lemma PUTU32_GETU32_take: "4 \<le> length bs \<Longrightarrow> PUTU32 (GETU32 bs) = take 4 bs"
proof -
  assume "4 \<le> length bs"
  then have "length (take 4 bs) = Suc (Suc (Suc (Suc 0)))" by simp
  then obtain a b c d where "take 4 bs = [a, b, c, d]"
    unfolding length_Suc_conv by blast
  then show ?thesis using GETU32_take [OF \<open>4 \<le> length bs\<close>] PUTU32_GETU32 by simp
qed

lemma putstate_getstate:
  assumes "length b = 16"
  shows "putstate (getstate b [0, 0, 0, 0]) = b"
proof -
  have "b = take 4 b @ take 4 (drop 4 b) @ take 4 (drop 8 b) @ take 4 (drop 12 b)"
    using assms append_take_drop_id [of 4 b] append_take_drop_id [of 4 "drop 4 b"]
      append_take_drop_id [of 4 "drop 8 b"] by simp
  then show ?thesis
    using assms by (simp add: putstate_def getstate_def PUTU32_GETU32_take numeral_2_eq_2 numeral_3_eq_3)
qed

lemma getstate_putstate: "getstate (putstate s) [0, 0, 0, 0] = s"
proof -
  have l: "length (PUTU32 w) = 4" for w by (simp add: PUTU32_def)
  show ?thesis
    by (cases s) (simp add: getstate_def putstate_def l GETU32_PUTU32
      GETU32_PUTU32 [where bs = "[]", simplified] numeral_2_eq_2 numeral_3_eq_3)
qed

lemma add_key_drop: "4 * i \<le> length rk \<Longrightarrow> add_key (drop (4 * i) rk) 0 s = add_key rk i s"
  by (simp add: add_key_def)

lemma enc_last_drop: "4 * i \<le> length rk \<Longrightarrow> enc_last (drop (4 * i) rk) s = add_key rk i (sub_shift s)"
  by (cases s) (simp add: add_key_def enc_last_def sub_shift_def xor.assoc numeral_2_eq_2)

lemma decrypt_rounds:
  assumes "inverse_keys Nr rk rk'" "j < Nr"
  shows "fold (dec_round rk') [1..<Suc j] (sub_shift (fold (enc_round rk) [1..<Nr] s)) =
    sub_shift (fold (enc_round rk) [1..<Nr - j] s)"
  using assms(2)
proof (induction j)
  case (Suc j)
  let ?e = "\<lambda>i. fold (enc_round rk) [1..<i] s"
  have e: "[1..<Nr - j] = [1..<Nr - Suc j] @ [Nr - Suc j]"
    using Suc.prems upt_Suc_append [of 1 "Nr - Suc j"] by (simp add: Suc_diff_Suc)
  have k: "\<forall>c < 4. rk' ! (4 * Suc j + c) = map inv_mix rk ! (4 * (Nr - Suc j) + c)"
    using assms(1) [unfolded inverse_keys_def, THEN conjunct2, THEN conjunct2, rule_format, of "Suc j"]
      assms(1) Suc.prems by (auto simp: inverse_keys_def)
  have "fold (dec_round rk') [1..<Suc (Suc j)] (sub_shift (?e Nr)) = dec_round rk' (Suc j) (sub_shift (?e (Nr - j)))"
    using Suc by simp
  also have "\<dots> = add_key rk' (Suc j) (inv_mix4 (enc_round rk (Nr - Suc j) (?e (Nr - Suc j))))"
    by (simp only: dec_round_sub_shift e fold_append) simp
  also have "\<dots> = add_key rk' (Suc j) (add_key (map inv_mix rk) (Nr - Suc j) (sub_shift (?e (Nr - Suc j))))"
    using assms(1) Suc.prems by (subst inv_mix4_enc_round) (auto simp: inverse_keys_def)
  also have "\<dots> = sub_shift (?e (Nr - Suc j))" by (rule add_key_twice [OF k])
  finally show ?case .
qed simp

lemma decrypt_encrypt:
  assumes "inverse_keys Nr rk rk'" "even Nr" "0 < Nr" "length pt = 16"
  shows "rijndaelDecrypt rk' Nr (rijndaelEncrypt rk Nr pt) = pt"
proof -
  have len: "length rk = 4 * Nr + 4" "length rk' = 4 * Nr + 4"
    using assms(1) by (auto simp: inverse_keys_def)
  obtain m where m: "Nr = 2 * m" "0 < m" using assms(2,3) by auto
  have drops: "enc_last (drop (8 * m) rk) s = add_key rk Nr (sub_shift s)"
    "add_key (drop (8 * m) rk') 0 s = add_key rk' Nr s" for s
    using enc_last_drop [of Nr rk s] add_key_drop [of Nr rk' s] len by (simp_all add: m)
  have loops: "rounds_loop enc_round (Nr div 2) rk s = (fold (enc_round rk) [1..<Nr] s, drop (8 * m) rk)"
    "rounds_loop dec_round (Nr div 2) rk' s = (fold (dec_round rk') [1..<Nr] s, drop (8 * m) rk')" for s
    using rounds_fold(1) [of m rk s] rounds_fold(2) [of m rk' s] len m by simp_all
  let ?e = "fold (enc_round rk) [1..<Nr] (getstate pt rk)"
  have first: "\<forall>j < 4. rk' ! (4 * 0 + j) = rk ! (4 * Nr + j)" and last: "\<forall>j < 4. rk' ! (4 * Nr + j) = rk ! (4 * 0 + j)"
    using assms(1) by (auto simp: inverse_keys_def)
  have "rijndaelEncrypt rk Nr pt = putstate (add_key rk Nr (sub_shift ?e))"
    unfolding rijndaelEncrypt_def by (simp only: loops drops prod.case Let_def)
  then have "getstate (rijndaelEncrypt rk Nr pt) rk' = sub_shift ?e"
    by (simp add: getstate_add_key [of _ rk'] getstate_putstate add_key_twice [OF first])
  moreover have "fold (dec_round rk') [1..<Nr] (sub_shift ?e) = sub_shift (getstate pt rk)"
    using decrypt_rounds [OF assms(1), of "Nr - 1" "getstate pt rk"] assms(3) by simp
  ultimately have "rijndaelDecrypt rk' Nr (rijndaelEncrypt rk Nr pt) = putstate (add_key rk' Nr (getstate pt rk))"
    unfolding rijndaelDecrypt_def by (simp only: loops dec_last_sub_shift drops prod.case Let_def)
  also have "\<dots> = pt"
    by (simp add: getstate_add_key [of pt rk] add_key_twice [OF last] putstate_getstate assms(4))
  finally show ?thesis .
qed

section \<open>The decryption schedule\<close>

lemma length_invert_order [simp]: "length (invert_order i j rk) = length rk"
  by (induction i j rk rule: invert_order.induct) (subst invert_order.simps, simp add: swap_words_def)

text \<open>
  The loop exchanges the blocks \<open>a + k\<close> and \<open>b - k\<close>; with \<open>a + b = Nr\<close> block \<open>i\<close> between them
  comes from block \<open>Nr - i\<close>.
\<close>

lemma nth_swap_block:
  assumes "4 * a + 3 < 4 * b" "4 * b + 3 < length rk" "c < 4" "i \<le> length rk"
  shows "swap_words (4 * a + 3) (4 * b + 3) (swap_words (4 * a + 2) (4 * b + 2)
      (swap_words (4 * a + 1) (4 * b + 1) (swap_words (4 * a) (4 * b) rk))) ! (4 * i + c) =
    rk ! (4 * (if i = a then b else if i = b then a else i) + c)"
proof -
  consider "c = 0" | "c = 1" | "c = 2" | "c = 3" using assms(3) by linarith
  then show ?thesis
    by cases (use assms(1,2) in \<open>auto simp: swap_words_def nth_list_update\<close>)
qed

lemma nth_invert_order:
  assumes "a + b = Nr" "4 * Nr + 3 < length rk" "c < 4" "i \<le> Nr"
  shows "invert_order (4 * a) (4 * b) rk ! (4 * i + c) =
    (if a \<le> i \<and> i \<le> b then rk ! (4 * (Nr - i) + c) else rk ! (4 * i + c))"
  using assms
proof (induction "b - a" arbitrary: a b rk rule: less_induct)
  case less
  show ?case
  proof (cases "a < b")
    case True
    define u where "u = swap_words (4 * a + 3) (4 * b + 3) (swap_words (4 * a + 2) (4 * b + 2)
      (swap_words (4 * a + 1) (4 * b + 1) (swap_words (4 * a) (4 * b) rk)))"
    have u: "u ! (4 * k + c) = rk ! (4 * (if k = a then b else if k = b then a else k) + c)" if "k \<le> Nr" for k
      unfolding u_def by (rule nth_swap_block) (use True less.prems that in auto)
    have "length u = length rk" by (simp add: u_def swap_words_def)
    then have "invert_order (4 * (a + 1)) (4 * (b - 1)) u ! (4 * i + c) =
        (if a + 1 \<le> i \<and> i \<le> b - 1 then u ! (4 * (Nr - i) + c) else u ! (4 * i + c))"
      using True less.prems by (intro less.hyps) auto
    moreover have "invert_order (4 * a) (4 * b) rk = invert_order (4 * (a + 1)) (4 * (b - 1)) u"
      unfolding u_def using True by (subst invert_order.simps) (simp add: diff_mult_distrib2 add.commute)
    moreover have "u ! (4 * (Nr - i) + c) = rk ! (4 * (if Nr - i = a then b else if Nr - i = b then a else Nr - i) + c)"
      by (rule u) simp
    ultimately show ?thesis using True less.prems u [OF less.prems(4)] by auto
  next
    case False
    then have "invert_order (4 * a) (4 * b) rk = rk" by (subst invert_order.simps) simp
    moreover have "a \<le> i \<and> i \<le> b \<Longrightarrow> Nr - i = i" using False less.prems by linarith
    ultimately show ?thesis by auto
  qed
qed

lemma mix_block:
  assumes "4 * i + 3 < length rk" "c < 4"
  shows "length (fold (\<lambda>j rk. rk[4 * i + j := f (rk ! (4 * i + j))]) [0..<4] rk) = length rk"
    "fold (\<lambda>j rk. rk[4 * i + j := f (rk ! (4 * i + j))]) [0..<4] rk ! (4 * k + c) =
      (if k = i then f (rk ! (4 * k + c)) else rk ! (4 * k + c))"
proof -
  have up: "[0..<4] = [0, 1, 2, 3 :: nat]" by (simp add: upt_rec)
  show "length (fold (\<lambda>j rk. rk[4 * i + j := f (rk ! (4 * i + j))]) [0..<4] rk) = length rk"
    by (simp add: up)
  consider "c = 0" | "c = 1" | "c = 2" | "c = 3" using assms(2) by linarith
  then show "fold (\<lambda>j rk. rk[4 * i + j := f (rk ! (4 * i + j))]) [0..<4] rk ! (4 * k + c) =
      (if k = i then f (rk ! (4 * k + c)) else rk ! (4 * k + c))"
    unfolding up by cases (use assms(1) in \<open>auto simp: nth_list_update\<close>)
qed

lemma mix_keys_nth:
  assumes "4 * Nr \<le> length rk" "c < 4"
  shows "length (mix_keys Nr rk) = length rk"
    "mix_keys Nr rk ! (4 * k + c) =
      (if 1 \<le> k \<and> k < Nr then inv_mix (rk ! (4 * k + c)) else rk ! (4 * k + c))"
proof -
  have "length (mix_keys n rk) = length rk \<and> mix_keys n rk ! (4 * k + c) =
      (if 1 \<le> k \<and> k < n then inv_mix (rk ! (4 * k + c)) else rk ! (4 * k + c))" if "n \<le> Nr" for n
    using that
  proof (induction n)
    case (Suc n)
    then show ?case
      using mix_block(1) [of n "mix_keys n rk" c inv_mix] mix_block(2) [of n "mix_keys n rk" c inv_mix k] assms
      by (cases "n = 0") (auto simp: mix_keys_def less_Suc_eq)
  qed (simp add: mix_keys_def)
  then show "length (mix_keys Nr rk) = length rk" "mix_keys Nr rk ! (4 * k + c) =
      (if 1 \<le> k \<and> k < Nr then inv_mix (rk ! (4 * k + c)) else rk ! (4 * k + c))" by auto
qed

lemma inverse_schedule:
  assumes "length rk = 4 * Nr + 4"
  shows "inverse_keys Nr rk (mix_keys Nr (invert_order 0 (4 * Nr) rk))"
proof -
  have i: "invert_order 0 (4 * Nr) rk ! (4 * i + c) = rk ! (4 * (Nr - i) + c)" if "c < 4" "i \<le> Nr" for i c
    using nth_invert_order [of 0 Nr Nr rk c i] assms that by simp
  show ?thesis
    using assms unfolding inverse_keys_def by (auto simp: mix_keys_nth(1) [where c = 0] mix_keys_nth(2) i i [of _ 0, simplified])
qed

text \<open>The schedule is complete for each key size.\<close>

lemma length_key_pass:
  "length (key_pass_128 i a) = length a + 4"
  "length (key_pass_192 i a) = length a + (if i = 7 then 4 else 6)"
  "length (key_pass_256 i a) = length a + (if i = 6 then 4 else 8)"
  by (simp_all add: key_pass_128_def key_pass_192_def key_pass_256_def Let_def)

lemma rijndaelKeySetupEnc_shape:
  assumes "rijndaelKeySetupEnc key bits = Some (Nr, rk)"
  shows "Nr \<in> {10, 12, 14} \<and> length rk = 4 * Nr + 4"
  using assms
  by (auto simp: rijndaelKeySetupEnc_def Let_def length_key_pass upt_rec split: if_splits)

section \<open>Properties\<close>

lemma length_aes [simp]: "length (aes_encrypt ctx b) = 16" "length (aes_decrypt ctx b) = 16"
  by (auto simp: aes_encrypt_def aes_decrypt_def rijndaelEncrypt_def rijndaelDecrypt_def
      putstate_def PUTU32_def split: prod.splits)

lemma aes_inverse:
  assumes "aes_encrypt_init a1 key = Some ectx" "aes_decrypt_init a2 key = Some dctx" "length b = 16"
  shows "aes_decrypt dctx (aes_encrypt ectx b) = b"
proof -
  obtain Nr rk where e: "ectx = (Nr, rk)" by (cases ectx)
  with assms(1) have k: "rijndaelKeySetupEnc key (length key * 8) = Some (Nr, rk)"
    by (auto simp: aes_encrypt_init_def split: if_splits)
  with assms(2) have d: "dctx = (Nr, mix_keys Nr (invert_order 0 (4 * Nr) rk))"
    by (auto simp: aes_decrypt_init_def rijndaelKeySetupDec_def split: if_splits)
  note shape = rijndaelKeySetupEnc_shape [OF k]
  then have "even Nr" "0 < Nr" by auto
  with decrypt_encrypt [OF inverse_schedule] shape assms(3) show ?thesis
    by (simp add: aes_encrypt_def aes_decrypt_def e d)
qed

lemma aes_init_keys:
  "aes_encrypt_init True key \<noteq> None \<longleftrightarrow> length key \<in> {16, 24, 32}"
  "aes_decrypt_init True key \<noteq> None \<longleftrightarrow> length key \<in> {16, 24, 32}"
  by (auto simp: aes_encrypt_init_def aes_decrypt_init_def rijndaelKeySetupDec_def
      rijndaelKeySetupEnc_def Let_def)


text \<open>The key and the block of the example of FIPS 197, appendix C.1.\<close>

definition fips_key :: "u8 list" where
  "fips_key = [0x00, 0x01, 0x02, 0x03, 0x04, 0x05, 0x06, 0x07, 0x08, 0x09, 0x0a, 0x0b, 0x0c, 0x0d, 0x0e, 0x0f]"

definition fips_plain :: "u8 list" where
  "fips_plain = [0x00, 0x11, 0x22, 0x33, 0x44, 0x55, 0x66, 0x77, 0x88, 0x99, 0xaa, 0xbb, 0xcc, 0xdd, 0xee, 0xff]"


end
