(* ===== verification/Aes_Modes.thy ===== *)
theory Aes_Modes
  imports Aes_Cipher Byte_Order
begin

text \<open>
  Modes of operation of AES in wpa\_supplicant: a single block (\<open>src/crypto/aes-encblock.c\<close>),
  CBC (\<open>aes-cbc.c\<close>), counter mode (\<open>aes-ctr.c\<close>), key wrap (\<open>aes-wrap.c\<close>,
  \<open>aes-unwrap.c\<close>) and OMAC1 (\<open>aes-omac1.c\<close>). The loops take the block function as an
  argument; the functions of the interface set up the context and run them with
  \<open>aes_encrypt\<close> or \<open>aes_decrypt\<close>. The laws of the block cipher that the modes rest on are the
  locale \<open>block_cipher\<close>, which the model of AES interprets.
\<close>

section \<open>The block cipher as the modes see it\<close>

locale block_cipher =
  fixes einit dinit :: "bool \<Rightarrow> 'k \<Rightarrow> 'ctx option"
    and enc dec :: "'ctx \<Rightarrow> u8 list \<Rightarrow> u8 list"
  assumes length_enc: "length (enc e b) = 16"
    and dec_enc: "einit a1 k = Some e \<Longrightarrow> dinit a2 k = Some d \<Longrightarrow> length b = 16 \<Longrightarrow> dec d (enc e b) = b"

interpretation aes: block_cipher aes_encrypt_init aes_decrypt_init aes_encrypt aes_decrypt
  by unfold_locales (simp, rule aes_inverse)

section \<open>Single block\<close>

definition aes_128_encrypt_block :: "bool \<Rightarrow> u8 list \<Rightarrow> u8 list \<Rightarrow> u8 list outcome" where
  "aes_128_encrypt_block alloc key inp =
     (case aes_encrypt_init alloc (take 16 key) of None \<Rightarrow> Err (-1) | Some ctx \<Rightarrow> Ret (aes_encrypt ctx inp))"

section \<open>CBC\<close>

fun cbc_encrypt_loop :: "(u8 list \<Rightarrow> u8 list) \<Rightarrow> nat \<Rightarrow> u8 list \<Rightarrow> u8 list \<Rightarrow> u8 list" where
  "cbc_encrypt_loop E 0 cbc pos = pos"
| "cbc_encrypt_loop E (Suc blocks) cbc pos =
     (let c = E (xorl cbc (take 16 pos)) in c @ cbc_encrypt_loop E blocks c (drop 16 pos))"

definition aes_128_cbc_encrypt :: "bool \<Rightarrow> u8 list \<Rightarrow> u8 list \<Rightarrow> u8 list \<Rightarrow> u8 list outcome" where
  "aes_128_cbc_encrypt alloc key iv data =
     (case aes_encrypt_init alloc (take 16 key) of
        None \<Rightarrow> Err (-1)
      | Some ctx \<Rightarrow> Ret (cbc_encrypt_loop (aes_encrypt ctx) (length data div 16) iv data))"

fun cbc_decrypt_loop :: "(u8 list \<Rightarrow> u8 list) \<Rightarrow> nat \<Rightarrow> u8 list \<Rightarrow> u8 list \<Rightarrow> u8 list" where
  "cbc_decrypt_loop D 0 cbc pos = pos"
| "cbc_decrypt_loop D (Suc blocks) cbc pos =
     (let tmp = take 16 pos in
      xorl (D (take 16 pos)) cbc @ cbc_decrypt_loop D blocks tmp (drop 16 pos))"

definition aes_128_cbc_decrypt :: "bool \<Rightarrow> u8 list \<Rightarrow> u8 list \<Rightarrow> u8 list \<Rightarrow> u8 list outcome" where
  "aes_128_cbc_decrypt alloc key iv data =
     (case aes_decrypt_init alloc (take 16 key) of
        None \<Rightarrow> Err (-1)
      | Some ctx \<Rightarrow> Ret (cbc_decrypt_loop (aes_decrypt ctx) (length data div 16) iv data))"

section \<open>Counter mode\<close>

text \<open>The loop that increments the counter from its last byte, here the head of the reversed
  counter, and stops at the first byte that does not wrap to zero.\<close>

fun carry_inc :: "u8 list \<Rightarrow> u8 list" where
  "carry_inc [] = []"
| "carry_inc (c # cs) = (if c + 1 \<noteq> 0 then (c + 1) # cs else (c + 1) # carry_inc cs)"

definition ctr_inc :: "u8 list \<Rightarrow> u8 list" where
  "ctr_inc counter = rev (carry_inc (rev counter))"

function ctr_loop :: "(u8 list \<Rightarrow> u8 list) \<Rightarrow> u8 list \<Rightarrow> u8 list \<Rightarrow> u8 list" where
  "ctr_loop E counter pos =
     (if pos = [] then []
      else xorl (take 16 pos) (E counter) @ ctr_loop E (ctr_inc counter) (drop 16 pos))"
  by pat_completeness auto
termination
  by (relation "measure (\<lambda>(_, _, pos). length pos)") auto

declare ctr_loop.simps [simp del]

definition aes_ctr_encrypt :: "bool \<Rightarrow> u8 list \<Rightarrow> u8 list \<Rightarrow> u8 list \<Rightarrow> u8 list outcome" where
  "aes_ctr_encrypt alloc key nonce data =
     (case aes_encrypt_init alloc key of
        None \<Rightarrow> Err (-1)
      | Some ctx \<Rightarrow> Ret (ctr_loop (aes_encrypt ctx) nonce data))"

definition aes_128_ctr_encrypt :: "bool \<Rightarrow> u8 list \<Rightarrow> u8 list \<Rightarrow> u8 list \<Rightarrow> u8 list outcome" where
  "aes_128_ctr_encrypt alloc key nonce data = aes_ctr_encrypt alloc (take 16 key) nonce data"

section \<open>Key wrap\<close>

text \<open>\<open>a[7] ^= t; a[6] ^= t >> 8; a[5] ^= t >> 16; a[4] ^= t >> 24\<close>.\<close>

definition xor_t :: "u32 \<Rightarrow> u8 list \<Rightarrow> u8 list" where
  "xor_t t a = a[7 := a ! 7 XOR ucast t, 6 := a ! 6 XOR ucast (drop_bit 8 t),
     5 := a ! 5 XOR ucast (drop_bit 16 t), 4 := a ! 4 XOR ucast (drop_bit 24 t)]"

text \<open>One pass of the inner loop; \<open>r\<close> points to byte \<open>8 * (i - 1)\<close> of the registers.\<close>

definition wrap_step :: "(u8 list \<Rightarrow> u8 list) \<Rightarrow> nat \<Rightarrow> nat \<Rightarrow> nat \<Rightarrow> u8 list \<times> u8 list \<Rightarrow> u8 list \<times> u8 list" where
  "wrap_step E n j i s =
     (let (a, r) = s;
          b = E (a @ take 8 (drop (8 * (i - 1)) r));
          t = of_nat (n * j + i)
      in (xor_t t (take 8 b), put_at (8 * (i - 1)) (drop 8 b) r))"

definition aes_wrap :: "bool \<Rightarrow> u8 list \<Rightarrow> nat \<Rightarrow> u8 list \<Rightarrow> u8 list outcome" where
  "aes_wrap alloc kek n plain =
     (case aes_encrypt_init alloc kek of
        None \<Rightarrow> Err (-1)
      | Some ctx \<Rightarrow>
          let (a, r) = fold (\<lambda>j. fold (wrap_step (aes_encrypt ctx) n j) [1..<Suc n]) [0..<6]
                (replicate 8 0xa6, take (8 * n) plain)
          in Ret (a @ r))"

definition unwrap_step :: "(u8 list \<Rightarrow> u8 list) \<Rightarrow> nat \<Rightarrow> nat \<Rightarrow> nat \<Rightarrow> u8 list \<times> u8 list \<Rightarrow> u8 list \<times> u8 list" where
  "unwrap_step D n j i s =
     (let (a, r) = s;
          t = of_nat (n * j + i);
          b = D (xor_t t a @ take 8 (drop (8 * (i - 1)) r))
      in (take 8 b, put_at (8 * (i - 1)) (drop 8 b) r))"

definition aes_unwrap :: "bool \<Rightarrow> u8 list \<Rightarrow> nat \<Rightarrow> u8 list \<Rightarrow> u8 list outcome" where
  "aes_unwrap alloc kek n cipher =
     (case aes_decrypt_init alloc kek of
        None \<Rightarrow> Err (-1)
      | Some ctx \<Rightarrow>
          let (a, r) = fold (\<lambda>j. fold (unwrap_step (aes_decrypt ctx) n j) (rev [1..<Suc n])) (rev [0..<6])
                (take 8 cipher, take (8 * n) (drop 8 cipher))
          in if a \<noteq> replicate 8 0xa6 then Err (-1) else Ret r)"

section \<open>OMAC1\<close>

definition gf_mulx :: "u8 list \<Rightarrow> u8 list" where
  "gf_mulx pad =
     (let carry = pad ! 0 AND 0x80;
          shifted = map (\<lambda>i. push_bit 1 (pad ! i) OR drop_bit 7 (pad ! (i + 1))) [0..<15] @ [push_bit 1 (pad ! 15)]
      in if carry \<noteq> 0 then shifted[15 := shifted ! 15 XOR 0x87] else shifted)"

text \<open>
  The cursor over the vector: the bytes left of the current element and the elements
  after it. \<open>omac_read k stop\<close> reads \<open>k\<close> bytes and moves on to the next element at the end of
  one, except at the last byte of all if \<open>stop\<close>; \<open>None\<close> is an access outside of the buffers.
\<close>

type_synonym cursor = "u8 list \<times> u8 list list"

fun omac_read :: "nat \<Rightarrow> bool \<Rightarrow> cursor \<Rightarrow> (u8 list \<times> cursor) option" where
  "omac_read 0 stop c = Some ([], c)"
| "omac_read (Suc k) stop ([], rest) = None"
| "omac_read (Suc k) stop (b # cur, rest) =
     (if cur = [] \<and> \<not> (k = 0 \<and> stop) then
        (case rest of
           [] \<Rightarrow> None
         | nxt # rest' \<Rightarrow> map_option (apfst ((#) b)) (omac_read k stop (nxt, rest')))
      else map_option (apfst ((#) b)) (omac_read k stop (cur, rest)))"

function omac_blocks :: "(u8 list \<Rightarrow> u8 list) \<Rightarrow> u8 list \<Rightarrow> nat \<Rightarrow> cursor \<Rightarrow> (u8 list \<times> nat \<times> cursor) option" where
  "omac_blocks E cbc left c =
     (if left < 16 then Some (cbc, left, c)
      else case omac_read 16 (left = 16) c of
             None \<Rightarrow> None
           | Some (bs, c') \<Rightarrow>
               let cbc1 = xorl cbc bs;
                   cbc2 = (if left > 16 then E cbc1 else cbc1)
               in omac_blocks E cbc2 (left - 16) c')"
  by pat_completeness auto
termination
  by (relation "measure (\<lambda>(_, _, left, _). left)") auto

declare omac_blocks.simps [simp del]

text \<open>The bytes after the last whole block, and the padding.\<close>

definition omac_tail :: "u8 list \<Rightarrow> nat \<Rightarrow> cursor \<Rightarrow> u8 list option" where
  "omac_tail cbc left c =
     (case omac_read left True c of
        None \<Rightarrow> None
      | Some (bs, _) \<Rightarrow>
          let cbc1 = xorl (take left cbc) bs @ drop left cbc
          in Some (cbc1[left := cbc1 ! left XOR 0x80]))"

definition omac_finish :: "(u8 list \<Rightarrow> u8 list) \<Rightarrow> u8 list \<Rightarrow> u8 list \<Rightarrow> u8 list" where
  "omac_finish E pad cbc = E (xorl pad cbc)"

definition omac1 :: "(u8 list \<Rightarrow> u8 list) \<Rightarrow> u8 list list \<Rightarrow> u8 list outcome" where
  "omac1 E addr =
     (let total_len = sum_list (map length addr) in
      case omac_blocks E (replicate 16 0) total_len (addr ! 0, tl addr) of
        None \<Rightarrow> OutOfBounds
      | Some (cbc, left, c) \<Rightarrow>
          let pad = gf_mulx (E (replicate 16 0)) in
          if left \<noteq> 0 \<or> total_len = 0 then
            (case omac_tail cbc left c of
               None \<Rightarrow> OutOfBounds
             | Some cbc' \<Rightarrow> Ret (omac_finish E (gf_mulx pad) cbc'))
          else Ret (omac_finish E pad cbc))"

definition omac1_aes_vector :: "bool \<Rightarrow> u8 list \<Rightarrow> u8 list list \<Rightarrow> u8 list outcome" where
  "omac1_aes_vector alloc key addr =
     (case aes_encrypt_init alloc key of
        None \<Rightarrow> Err (-1)
      | Some ctx \<Rightarrow> if addr = [] then OutOfBounds else omac1 (aes_encrypt ctx) addr)"

definition omac1_aes_128_vector :: "bool \<Rightarrow> u8 list \<Rightarrow> u8 list list \<Rightarrow> u8 list outcome" where
  "omac1_aes_128_vector alloc key addr = omac1_aes_vector alloc (take 16 key) addr"

definition omac1_aes_128 :: "bool \<Rightarrow> u8 list \<Rightarrow> u8 list \<Rightarrow> u8 list outcome" where
  "omac1_aes_128 alloc key data = omac1_aes_128_vector alloc key [data]"

definition omac1_aes_256 :: "bool \<Rightarrow> u8 list \<Rightarrow> u8 list \<Rightarrow> u8 list outcome" where
  "omac1_aes_256 alloc key data = omac1_aes_vector alloc (take 32 key) [data]"

section \<open>CBC and counter mode\<close>

lemma length_cbc_encrypt:
  assumes "\<And>b. length (E b) = 16" "16 * n \<le> length pos"
  shows "length (cbc_encrypt_loop E n cbc pos) = length pos"
  using assms(2) by (induction n arbitrary: cbc pos) (auto simp: Let_def assms(1))

lemma cbc_roundtrip:
  assumes "\<And>b. length (E b) = 16" "\<And>b. length b = 16 \<Longrightarrow> D (E b) = b"
    and "16 * n \<le> length pos" "length cbc = 16"
  shows "cbc_decrypt_loop D n cbc (cbc_encrypt_loop E n cbc pos) = pos"
  using assms(3,4)
proof (induction n arbitrary: cbc pos)
  case (Suc n)
  let ?p = "take 16 pos" and ?c = "E (xorl cbc (take 16 pos))"
  have "length (xorl cbc ?p) = 16" using Suc.prems by simp
  then have "xorl (D ?c) cbc = ?p"
    using Suc.prems by (simp add: assms(2) xorl_commute [of cbc] xorl_twice)
  then show ?case
    using Suc.IH [of "drop 16 pos" ?c] Suc.prems by (simp add: Let_def assms(1))
qed simp

text \<open>The value of a counter, highest byte first.\<close>

definition be_value :: "u8 list \<Rightarrow> nat" where
  "be_value bs = foldl (\<lambda>v b. 256 * v + unat b) 0 bs"

lemma be_value_snoc: "be_value (bs @ [b]) = 256 * be_value bs + unat b"
  by (simp add: be_value_def)

lemma be_value_less: "be_value bs < 256 ^ length bs"
proof (induction bs rule: rev_induct)
  case (snoc b bs)
  have "256 * be_value bs + unat b < 256 * (be_value bs + 1)" using unat_u8 [of b] by simp
  also have "\<dots> \<le> 256 * 256 ^ length bs" using snoc by (intro mult_le_mono2) simp
  finally show ?case by (simp add: be_value_snoc)
qed (simp add: be_value_def)

lemma ctr_inc_value: "be_value (ctr_inc c) = (be_value c + 1) mod 256 ^ length c \<and> length (ctr_inc c) = length c"
proof (induction c rule: rev_induct)
  case (snoc b c)
  have sum: "unat (b + 1) = (unat b + 1) mod 256"
    by (simp add: unat_word_ariths(1))
  show ?case
  proof (cases "b + 1 = 0")
    case True
    then have "(unat b + 1) mod 256 = 0" using sum by simp
    then have "\<not> unat b + 1 < 256" by (metis add_is_0 mod_less one_neq_zero)
    then have "unat b = 255" using unat_u8 [of b] by linarith
    moreover have "(256 + 256 * v) mod (256 * m) = 256 * ((v + 1) mod m)" for v m :: nat
    proof -
      have "256 + 256 * v = 256 * (v + 1)" by simp
      then show ?thesis by (simp only: mod_mult_mult1)
    qed
    ultimately show ?thesis using True snoc by (simp add: ctr_inc_def be_value_snoc)
  next
    case False
    then have "unat (b + 1) \<noteq> 0" by (simp only: unat_eq_0 simp_thms)
    then have "unat b + 1 \<noteq> 256" using sum by (metis mod_self)
    then have "unat (b + 1) = unat b + 1" using sum unat_u8 [of b] by simp
    with False be_value_less [of "c @ [b + 1]"] show ?thesis by (simp add: ctr_inc_def be_value_snoc)
  qed
qed (simp add: ctr_inc_def be_value_def)

text \<open>The keystream of counter mode depends on the counter and the length only.\<close>

lemma length_ctr_loop:
  assumes "\<And>b. length (E b) = 16"
  shows "length (ctr_loop E c pos) = length pos"
  using assms by (induction E c pos rule: ctr_loop.induct) (subst ctr_loop.simps, auto)

lemma ctr_loop_step:
  "pos \<noteq> [] \<Longrightarrow> ctr_loop E c pos = xorl (take 16 pos) (E c) @ ctr_loop E (ctr_inc c) (drop 16 pos)"
  by (subst ctr_loop.simps) simp

lemma ctr_loop_Nil [simp]: "ctr_loop E c [] = []"
  by (subst ctr_loop.simps) simp

lemma ctr_loop_twice:
  assumes "\<And>b. length (E b) = 16"
  shows "ctr_loop E c (ctr_loop E c pos) = pos"
  using assms
proof (induction E c pos rule: ctr_loop.induct)
  case (1 E c pos)
  show ?case
  proof (cases "pos = []")
    case False
    define x rest where "x = xorl (take 16 pos) (E c)" and "rest = ctr_loop E (ctr_inc c) (drop 16 pos)"
    have step: "ctr_loop E c pos = x @ rest" using ctr_loop_step [OF False] by (simp add: x_def rest_def)
    have len: "length x = min 16 (length pos)" by (simp add: x_def "1.prems")
    with False have "0 < length x" by simp
    then have ne: "x @ rest \<noteq> []" by fastforce
    have "length pos \<le> 16 \<Longrightarrow> rest = []" by (simp add: rest_def)
    with len have parts: "take 16 (x @ rest) = x" "drop 16 (x @ rest) = rest"
      by (cases "length pos \<le> 16"; simp)+
    have "xorl x (E c) = take 16 pos" unfolding x_def by (rule xorl_twice) (simp add: "1.prems")
    moreover have "ctr_loop E (ctr_inc c) rest = drop 16 pos"
      unfolding rest_def by (rule "1.IH" [OF False "1.prems"])
    ultimately show ?thesis
      unfolding step ctr_loop_step [OF ne] parts by simp
  qed simp
qed

section \<open>Key wrap\<close>

lemma length_xor_t [simp]: "length (xor_t t a) = length a"
  by (simp add: xor_t_def)

lemma xor_t_twice: "length a = 8 \<Longrightarrow> xor_t t (xor_t t a) = a"
  by (rule nth_equalityI) (auto simp: xor_t_def nth_list_update xor.assoc)

lemma wrap_step_undo:
  assumes "\<And>b. length (E b) = 16" "\<And>b. length b = 16 \<Longrightarrow> D (E b) = b"
    and "length (fst s) = 8" "length (snd s) = 8 * n" "i \<in> set [1..<Suc n]"
  shows "(length (fst (wrap_step E n j i s)) = 8 \<and> length (snd (wrap_step E n j i s)) = 8 * n) \<and>
    unwrap_step D n j i (wrap_step E n j i s) = s"
proof -
  obtain a r where s: "s = (a, r)" by (cases s)
  let ?o = "8 * (i - 1)" and ?b = "E (a @ take 8 (drop (8 * (i - 1)) r))"
  from assms(3-5) have len: "length a = 8" "length r = 8 * n" "?o + 8 \<le> length r" by (auto simp: s)
  then have "length (a @ take 8 (drop ?o r)) = 16" by simp
  then have db: "D ?b = a @ take 8 (drop ?o r)" by (rule assms(2))
  have "take 8 (drop ?o (put_at ?o (drop 8 ?b) r)) = drop 8 ?b"
    using get_put_at [of ?o "drop 8 ?b" r] len by (simp add: assms(1))
  moreover have "put_at ?o (take 8 (drop ?o r)) (put_at ?o (drop 8 ?b) r) = r"
    using len by (simp add: put_at_twice put_at_same assms(1))
  ultimately show ?thesis
    using len db by (simp add: s wrap_step_def unwrap_step_def Let_def xor_t_twice assms(1))
qed

lemma wrap_undo:
  assumes "\<And>b. length (E b) = 16" "\<And>b. length b = 16 \<Longrightarrow> D (E b) = b"
    and "length (fst s) = 8" "length (snd s) = 8 * n"
  defines "w \<equiv> fold (\<lambda>j. fold (wrap_step E n j) [1..<Suc n]) [0..<6] s"
  shows "(length (fst w) = 8 \<and> length (snd w) = 8 * n) \<and>
    fold (\<lambda>j. fold (unwrap_step D n j) (rev [1..<Suc n])) (rev [0..<6]) w = s"
  unfolding w_def
proof (rule fold_undo [where P = "\<lambda>s. length (fst s) = 8 \<and> length (snd s) = 8 * n"])
  fix j s assume "length (fst (s :: u8 list \<times> u8 list)) = 8 \<and> length (snd s) = 8 * n"
  then show "(length (fst (fold (wrap_step E n j) [1..<Suc n] s)) = 8 \<and>
      length (snd (fold (wrap_step E n j) [1..<Suc n] s)) = 8 * n) \<and>
      fold (unwrap_step D n j) (rev [1..<Suc n]) (fold (wrap_step E n j) [1..<Suc n] s) = s"
    by (intro fold_undo [where P = "\<lambda>s. length (fst s) = 8 \<and> length (snd s) = 8 * n"]
        wrap_step_undo [OF assms(1,2)]) auto
qed (simp add: assms(3,4))

section \<open>OMAC1 of a vector\<close>

text \<open>The reference: CMAC of one message as SP 800-38B defines it.\<close>

function cmac_chain :: "(u8 list \<Rightarrow> u8 list) \<Rightarrow> u8 list \<Rightarrow> u8 list \<Rightarrow> u8 list \<times> u8 list" where
  "cmac_chain E c m = (if length m \<le> 16 then (c, m) else cmac_chain E (E (xorl c (take 16 m))) (drop 16 m))"
  by pat_completeness auto
termination
  by (relation "measure (\<lambda>(_, _, m). length m)") auto

declare cmac_chain.simps [simp del]

definition cmac :: "(u8 list \<Rightarrow> u8 list) \<Rightarrow> u8 list \<Rightarrow> u8 list" where
  "cmac E m =
     (let k1 = gf_mulx (E (replicate 16 0)); (c, l) = cmac_chain E (replicate 16 0) m
      in if length l = 16 then E (xorl k1 (xorl c l))
         else E (xorl (gf_mulx k1) (xorl c (l @ 0x80 # replicate (15 - length l) 0))))"

text \<open>What is left to read, and the cursors that never stand on an empty element.\<close>

definition unread :: "cursor \<Rightarrow> u8 list" where
  "unread c = fst c @ concat (snd c)"

definition cursor_ok :: "cursor \<Rightarrow> bool" where
  "cursor_ok c \<longleftrightarrow> fst c \<noteq> [] \<and> [] \<notin> set (snd c)"

lemma omac_read:
  assumes "cursor_ok c" "if stop then k = length (unread c) else k < length (unread c)"
  shows "\<exists>c'. omac_read k stop c = Some (take k (unread c), c') \<and> unread c' = drop k (unread c) \<and>
    (\<not> stop \<longrightarrow> cursor_ok c')"
  using assms
proof (induction k stop c rule: omac_read.induct)
  case (3 k stop b cur rest)
  show ?case
  proof (cases "cur = [] \<and> \<not> (k = 0 \<and> stop)")
    case True
    then obtain nxt rest' where r: "rest = nxt # rest'"
      using "3.prems" by (cases rest) (auto simp: unread_def split: if_splits)
    have "cursor_ok (nxt, rest')" "if stop then k = length (unread (nxt, rest')) else k < length (unread (nxt, rest'))"
      using "3.prems" True r by (auto simp: cursor_ok_def unread_def split: if_splits)
    from "3.IH"(1) [OF True r this] True r show ?thesis by (auto simp: unread_def)
  next
    case False
    show ?thesis
    proof (cases "cur = []")
      case True
      with False "3.prems" show ?thesis by (auto simp: unread_def split: if_splits)
    next
      case c: False
      then have "cursor_ok (cur, rest)" "if stop then k = length (unread (cur, rest)) else k < length (unread (cur, rest))"
        using "3.prems" by (auto simp: cursor_ok_def unread_def split: if_splits)
      from "3.IH"(2) [OF False this] c show ?thesis by (auto simp: unread_def)
    qed
  qed
qed (auto simp: cursor_ok_def unread_def split: if_splits)

lemma omac_blocks:
  assumes "cursor_ok c" "cmac_chain E cbc (unread c) = (ch, l)"
  shows "l \<noteq> [] \<and> length l \<le> 16 \<and>
    (\<exists>c'. omac_blocks E cbc (length (unread c)) c =
      Some (if length l = 16 then (xorl ch l, 0, c') else (ch, length l, c')) \<and>
      (length l < 16 \<longrightarrow> unread c' = l \<and> cursor_ok c'))"
  using assms
proof (induction "length (unread c)" arbitrary: c cbc rule: less_induct)
  case less
  let ?m = "unread c"
  have ne: "?m \<noteq> []" using less.prems(1) by (auto simp: cursor_ok_def unread_def)
  consider "length ?m < 16" | "length ?m = 16" | "16 < length ?m" by linarith
  then show ?case
  proof cases
    case 1
    then have "omac_blocks E cbc (length ?m) c = Some (cbc, length ?m, c)"
      by (subst omac_blocks.simps) simp
    moreover have "ch = cbc" "l = ?m"
      using less.prems(2) 1 by (auto simp: cmac_chain.simps [of _ _ ?m])
    ultimately show ?thesis using 1 ne less.prems(1) by auto
  next
    case 2
    with omac_read [OF less.prems(1), of True 16] obtain c' where
      "omac_read 16 True c = Some (?m, c')" by auto
    with 2 less.prems ne show ?thesis
      by (auto simp: cmac_chain.simps [of _ _ ?m] omac_blocks.simps [of _ _ 16] omac_blocks.simps [of _ _ 0])
  next
    case 3
    with omac_read [OF less.prems(1), of False 16] obtain c' where
      c': "omac_read 16 False c = Some (take 16 ?m, c')" "unread c' = drop 16 ?m" "cursor_ok c'" by auto
    have chain: "cmac_chain E (E (xorl cbc (take 16 ?m))) (unread c') = (ch, l)"
      using less.prems(2) 3 c'(2) by (subst (asm) cmac_chain.simps) simp
    have "omac_blocks E cbc (length ?m) c =
        omac_blocks E (E (xorl cbc (take 16 ?m))) (length (unread c')) c'"
      using 3 c' by (subst omac_blocks.simps) (simp add: Let_def)
    with less.hyps [OF _ c'(3) chain] 3 c'(2) show ?thesis by simp
  qed
qed

lemma omac_tail_padded:
  assumes "length cbc = 16" "length l < 16"
  shows "(xorl (take (length l) cbc) l @ drop (length l) cbc)
      [length l := (xorl (take (length l) cbc) l @ drop (length l) cbc) ! length l XOR 0x80] =
    xorl cbc (l @ 0x80 # replicate (15 - length l) 0)"
  using assms by (intro nth_equalityI) (auto simp: xorl_def nth_append nth_list_update nth_Cons')

lemma length_cmac_chain:
  assumes "\<And>b. length (E b) = 16" "length c = 16" "cmac_chain E c m = (ch, l)"
  shows "length ch = 16"
  using assms by (induction E c m rule: cmac_chain.induct) (subst (asm) (2) cmac_chain.simps, auto split: if_splits)

lemma omac1_cmac:
  assumes "\<And>b. length (E b) = 16" "addr \<noteq> []" "concat addr = [] \<or> [] \<notin> set addr"
  shows "omac1 E addr = Ret (cmac E (concat addr))"
proof -
  obtain cur rest where a: "addr = cur # rest" using assms(2) by (cases addr) auto
  let ?c = "(cur, rest)"
  have m: "unread ?c = concat addr" "sum_list (map length addr) = length (concat addr)"
    by (simp_all add: unread_def a length_concat)
  obtain ch l where ch: "cmac_chain E (replicate 16 0) (concat addr) = (ch, l)" by fastforce
  have len: "length ch = 16" by (rule length_cmac_chain [OF assms(1) _ ch]) simp
  show ?thesis
  proof (cases "concat addr = []")
    case True
    with ch have "l = []" "ch = replicate 16 0" by (auto simp: cmac_chain.simps)
    have tot: "sum_list (map length addr) = 0" using m(2) True by simp
    have "omac1 E addr = Ret (omac_finish E (gf_mulx (gf_mulx (E (replicate 16 0))))
        ((replicate 16 0)[0 := replicate 16 0 ! 0 XOR 0x80]))"
      unfolding omac1_def tot by (simp add: omac_blocks.simps [of _ _ 0] omac_tail_def Let_def)
    with True \<open>l = []\<close> \<open>ch = replicate 16 0\<close> ch omac_tail_padded [of ch "[]"] show ?thesis
      by (simp add: cmac_def omac_finish_def)
  next
    case False
    then have "cursor_ok ?c" using assms(3) a by (auto simp: cursor_ok_def)
    from omac_blocks [OF this, of E "replicate 16 0" ch l] ch m obtain c' where
      l: "l \<noteq> []" "length l \<le> 16" and
      b: "omac_blocks E (replicate 16 0) (length (concat addr)) ?c =
        Some (if length l = 16 then (xorl ch l, 0, c') else (ch, length l, c'))" and
      c': "length l < 16 \<Longrightarrow> unread c' = l \<and> cursor_ok c'" by auto
    show ?thesis
    proof (cases "length l = 16")
      case True
      with b False m a ch show ?thesis by (auto simp: omac1_def cmac_def omac_finish_def Let_def)
    next
      case short: False
      with c' l omac_read [of c' True "length l"] obtain c'' where
        "omac_read (length l) True c' = Some (l, c'')" by auto
      then have "omac_tail ch (length l) c' = Some (xorl ch (l @ 0x80 # replicate (15 - length l) 0))"
        using omac_tail_padded [OF len] short l by (simp add: omac_tail_def Let_def)
      with b False m a ch short l show ?thesis
        by (auto simp: omac1_def cmac_def omac_finish_def Let_def)
    qed
  qed
qed

section \<open>Properties\<close>

text \<open>The laws of the modes, for any block cipher.\<close>

context block_cipher
begin

lemma cbc:
  assumes "einit a1 k = Some e" "dinit a2 k = Some d" "length iv = 16"
  shows "cbc_decrypt_loop (dec d) (length data div 16) iv (cbc_encrypt_loop (enc e) (length data div 16) iv data) = data"
  using assms by (intro cbc_roundtrip length_enc dec_enc) auto

lemma wrap:
  assumes "einit a1 k = Some e" "dinit a2 k = Some d" "length (fst s) = 8" "length (snd s) = 8 * n"
  defines "w \<equiv> fold (\<lambda>j. fold (wrap_step (enc e) n j) [1..<Suc n]) [0..<6] s"
  shows "length (fst w) = 8 \<and> length (snd w) = 8 * n \<and>
    fold (\<lambda>j. fold (unwrap_step (dec d) n j) (rev [1..<Suc n])) (rev [0..<6]) w = s"
  unfolding w_def using wrap_undo [OF length_enc dec_enc [OF assms(1,2)] assms(3,4)] by auto

end

text \<open>
  CBC decryption returns the encrypted data: under every key of 16 bytes and every
  initialisation vector, decrypting the encrypted buffer gives the buffer back, of any
  length, and the bytes after the last whole block are left as they are.
\<close>

theorem cbc_decrypt_encrypt:
  assumes "length key = 16" "length iv = 16"
  shows "\<exists>c. aes_128_cbc_encrypt True key iv data = Ret c \<and> length c = length data \<and>
    aes_128_cbc_decrypt True key iv c = Ret data"
proof -
  obtain e d where ed: "aes_encrypt_init True key = Some e" "aes_decrypt_init True key = Some d"
    using aes_init_keys [of key] assms(1) by auto
  have "length (cbc_encrypt_loop (aes_encrypt e) (length data div 16) iv data) = length data"
    by (rule length_cbc_encrypt) simp_all
  with ed aes.cbc [OF ed assms(2), of data] assms(1) show ?thesis
    by (simp add: aes_128_cbc_encrypt_def aes_128_cbc_decrypt_def)
qed

theorem cbc_decrypt_encrypt_witness:
  "\<exists>c. aes_128_cbc_encrypt True fips_key fips_plain [1, 2, 3] = Ret c \<and>
     aes_128_cbc_decrypt True fips_key fips_plain c = Ret [1, 2, 3]"
  using cbc_decrypt_encrypt [of fips_key fips_plain "[1, 2, 3]"]
  by (auto simp: fips_key_def fips_plain_def)

text \<open>
  Counter mode: encryption is its own inverse and keeps the length, and the counter
  block steps through all the big endian numbers modulo its size, so that no counter value
  repeats before \<open>2^128\<close> blocks.
\<close>

theorem ctr_involution:
  assumes "aes_encrypt_init alloc key = Some ctx"
  shows "(\<exists>c. aes_ctr_encrypt alloc key nonce data = Ret c \<and> length c = length data \<and>
      aes_ctr_encrypt alloc key nonce c = Ret data) \<and>
    be_value ((ctr_inc ^^ k) nonce) = (be_value nonce + k) mod 256 ^ length nonce"
proof -
  have "be_value ((ctr_inc ^^ k) nonce) = (be_value nonce + k) mod 256 ^ length nonce \<and>
      length ((ctr_inc ^^ k) nonce) = length nonce"
  proof (induction k)
    case (Suc k)
    then show ?case using ctr_inc_value [of "(ctr_inc ^^ k) nonce"] by (simp add: mod_Suc_eq)
  qed (simp add: be_value_less)
  then show ?thesis
    using assms by (simp add: aes_ctr_encrypt_def length_ctr_loop ctr_loop_twice)
qed

theorem ctr_involution_witness:
  "\<exists>c. aes_ctr_encrypt True fips_key fips_plain [1, 2, 3] = Ret c \<and>
     aes_ctr_encrypt True fips_key fips_plain c = Ret [1, 2, 3]"
proof -
  obtain ctx where "aes_encrypt_init True fips_key = Some ctx"
    using aes_init_keys(1) [of fips_key] by (auto simp: fips_key_def)
  from ctr_involution [OF this, of fips_plain "[1, 2, 3]" 0] show ?thesis by auto
qed

text \<open>
  Key wrap: unwrapping what was wrapped under the same key encryption key passes the
  integrity check and returns the wrapped key, for every number of 64 bit blocks.
\<close>

theorem unwrap_wrap:
  assumes "length kek \<in> {16, 24, 32}" "length plain = 8 * n"
  shows "\<exists>c. aes_wrap True kek n plain = Ret c \<and> length c = 8 * (n + 1) \<and>
    aes_unwrap True kek n c = Ret plain"
proof -
  obtain e d where ed: "aes_encrypt_init True kek = Some e" "aes_decrypt_init True kek = Some d"
    using aes_init_keys [of kek] assms(1) by blast
  obtain a r where ar: "fold (\<lambda>j. fold (wrap_step (aes_encrypt e) n j) [1..<Suc n]) [0..<6]
      (replicate 8 0xa6, plain) = (a, r)" by fastforce
  from aes.wrap [OF ed, of "(replicate 8 0xa6, plain)" n] assms(2)
  have "length a = 8" "length r = 8 * n"
    "fold (\<lambda>j. fold (unwrap_step (aes_decrypt d) n j) (rev [1..<Suc n])) (rev [0..<6]) (a, r) =
      (replicate 8 0xa6, plain)"
    unfolding ar by simp_all
  with ar assms(2) ed show ?thesis by (simp add: aes_wrap_def aes_unwrap_def del: upt_Suc)
qed

theorem unwrap_wrap_witness:
  "\<exists>c. aes_wrap True fips_key 2 fips_plain = Ret c \<and> aes_unwrap True fips_key 2 c = Ret fips_plain"
  using unwrap_wrap [of fips_key fips_plain 2] by (auto simp: fips_key_def fips_plain_def)



end
