(* ===== verification/Aes_Aead.thy ===== *)
theory Aes_Aead
  imports Aes_Modes
begin

text \<open>
  Authenticated encryption on top of the modes of AES in wpa\_supplicant: EAX
  (\<open>src/crypto/aes-eax.c\<close>), SIV (\<open>aes-siv.c\<close>), CCM (\<open>aes-ccm.c\<close>) and GCM (\<open>aes-gcm.c\<close>).
  \<open>mem\<close> says whether the allocation of a work buffer succeeds, \<open>alloc\<close> whether the one of a
  cipher context does. \<open>size_t\<close> has 32 bits, as on the target.
\<close>

type_synonym size_t = u32

section \<open>EAX\<close>

text \<open>\<open>omac1_aes_128\<close> of the buffer: fifteen zeros, the number of the part, the part.\<close>

definition eax_mac :: "bool \<Rightarrow> u8 list \<Rightarrow> u8 \<Rightarrow> u8 list \<Rightarrow> u8 list outcome" where
  "eax_mac alloc key t data = omac1_aes_128 alloc key (replicate 15 0 @ [t] @ data)"

definition aes_128_eax_encrypt ::
  "bool \<Rightarrow> bool \<Rightarrow> u8 list \<Rightarrow> u8 list \<Rightarrow> u8 list \<Rightarrow> u8 list \<Rightarrow> (u8 list \<times> u8 list) outcome" where
  "aes_128_eax_encrypt mem alloc key nonce hdr data =
     (if \<not> mem then Err (-1) else
      bind_outcome (eax_mac alloc key 0 nonce) (\<lambda>nonce_mac.
      bind_outcome (eax_mac alloc key 1 hdr) (\<lambda>hdr_mac.
      bind_outcome (aes_128_ctr_encrypt alloc key nonce_mac data) (\<lambda>crypt.
      bind_outcome (eax_mac alloc key 2 crypt) (\<lambda>data_mac.
        Ret (crypt, xorl (xorl nonce_mac data_mac) hdr_mac))))))"

definition aes_128_eax_decrypt ::
  "bool \<Rightarrow> bool \<Rightarrow> u8 list \<Rightarrow> u8 list \<Rightarrow> u8 list \<Rightarrow> u8 list \<Rightarrow> u8 list \<Rightarrow> u8 list outcome" where
  "aes_128_eax_decrypt mem alloc key nonce hdr data tag =
     (if \<not> mem then Err (-1) else
      bind_outcome (eax_mac alloc key 0 nonce) (\<lambda>nonce_mac.
      bind_outcome (eax_mac alloc key 1 hdr) (\<lambda>hdr_mac.
      bind_outcome (eax_mac alloc key 2 data) (\<lambda>data_mac.
        if take 16 tag \<noteq> xorl (xorl nonce_mac data_mac) hdr_mac then Err (-2)
        else aes_128_ctr_encrypt alloc key nonce_mac data))))"

section \<open>SIV\<close>

definition dbl :: "u8 list \<Rightarrow> u8 list" where
  "dbl pad =
     (let carry = pad ! 0 AND 0x80;
          shifted = map (\<lambda>i. push_bit 1 (pad ! i) OR drop_bit 7 (pad ! (i + 1))) [0..<15] @ [push_bit 1 (pad ! 15)]
      in if carry \<noteq> 0 then shifted[15 := shifted ! 15 XOR 0x87] else shifted)"

definition xorend :: "u8 list \<Rightarrow> u8 list \<Rightarrow> u8 list" where
  "xorend a b = (if length a < length b then a
     else take (length a - length b) a @ xorl (drop (length a - length b) a) b)"

definition pad_block :: "u8 list \<Rightarrow> u8 list" where
  "pad_block data = (let pad = put_at 0 data (replicate 16 0)
     in if length data < 16 then pad[length data := 0x80] else pad)"

text \<open>The loop over all but the last element.\<close>

fun s2v_loop :: "bool \<Rightarrow> u8 list \<Rightarrow> u8 list \<Rightarrow> u8 list list \<Rightarrow> u8 list outcome" where
  "s2v_loop alloc key tmp [] = Ret tmp"
| "s2v_loop alloc key tmp (a # as) =
     bind_outcome (omac1_aes_vector alloc key [a]) (\<lambda>tmp2.
       s2v_loop alloc key (xorl (dbl tmp) tmp2) as)"

definition aes_s2v :: "bool \<Rightarrow> bool \<Rightarrow> u8 list \<Rightarrow> u8 list list \<Rightarrow> u8 list outcome" where
  "aes_s2v mem alloc key addr =
     (if addr = [] then omac1_aes_vector alloc key [(replicate 16 0)[15 := 1]] else
      bind_outcome (omac1_aes_vector alloc key [replicate 16 0]) (\<lambda>tmp0.
      bind_outcome (s2v_loop alloc key tmp0 (butlast addr)) (\<lambda>tmp.
        if length (last addr) \<ge> 16 then
          (if \<not> mem then Err (-12) else omac1_aes_vector alloc key [xorend (last addr) tmp])
        else omac1_aes_vector alloc key [xorl (dbl tmp) (pad_block (last addr))])))"

text \<open>\<open>v[8] &= 0x7f; v[12] &= 0x7f\<close>.\<close>

definition siv_counter :: "u8 list \<Rightarrow> u8 list" where
  "siv_counter v = v[8 := v ! 8 AND 0x7f, 12 := v ! 12 AND 0x7f]"

definition aes_siv_encrypt ::
  "bool \<Rightarrow> bool \<Rightarrow> u8 list \<Rightarrow> u8 list \<Rightarrow> u8 list list \<Rightarrow> u8 list outcome" where
  "aes_siv_encrypt mem alloc key pw addr =
     (if length addr > 5 \<or> length key \<notin> {32, 48, 64} then Err (-1) else
      let key_len = length key div 2; k1 = take key_len key; k2 = drop key_len key in
      (case aes_s2v mem alloc k1 (addr @ [pw]) of
         Ret v \<Rightarrow> bind_outcome (aes_ctr_encrypt alloc k2 (siv_counter v) pw) (\<lambda>crypt_pw. Ret (v @ crypt_pw))
       | Err _ \<Rightarrow> Err (-1)
       | OutOfBounds \<Rightarrow> OutOfBounds))"

definition aes_siv_decrypt ::
  "bool \<Rightarrow> bool \<Rightarrow> u8 list \<Rightarrow> u8 list \<Rightarrow> u8 list list \<Rightarrow> u8 list outcome" where
  "aes_siv_decrypt mem alloc key iv_crypt addr =
     (if length iv_crypt < 16 \<or> length addr > 5 \<or> length key \<notin> {32, 48, 64} then Err (-1) else
      let key_len = length key div 2; k1 = take key_len key; k2 = drop key_len key in
      bind_outcome (aes_ctr_encrypt alloc k2 (siv_counter (take 16 iv_crypt)) (drop 16 iv_crypt)) (\<lambda>out.
      bind_outcome (aes_s2v mem alloc k1 (addr @ [out])) (\<lambda>check.
        if check = take 16 iv_crypt then Ret out else Err (-1))))"

section \<open>CCM\<close>

text \<open>
  \<open>M - 2\<close> is computed in \<open>size_t\<close>. The block \<open>a\<close> is kept without its last two bytes, which are
  stored anew before every use.
\<close>

definition ccm_flags :: "nat \<Rightarrow> nat \<Rightarrow> u8 list \<Rightarrow> u8" where
  "ccm_flags M L aad = (if aad \<noteq> [] then 0x40 else 0) OR
     ucast (push_bit 3 (((of_nat M - 2) :: size_t) div 2)) OR of_nat (L - 1)"

definition aes_ccm_auth_start ::
  "(u8 list \<Rightarrow> u8 list) \<Rightarrow> nat \<Rightarrow> nat \<Rightarrow> u8 list \<Rightarrow> u8 list \<Rightarrow> nat \<Rightarrow> u8 list" where
  "aes_ccm_auth_start E M L nonce aad plain_len =
     (let b = put_at (16 - L) (WPA_PUT_BE16 (of_nat plain_len)) (ccm_flags M L aad # take (15 - L) nonce @ replicate L 0);
          x = E b
      in if aad = [] then x
         else let aad_buf = WPA_PUT_BE16 (of_nat (length aad)) @ aad @ replicate (30 - length aad) 0;
                  x2 = E (xorl (take 16 aad_buf) x)
              in if length aad > 14 then E (xorl (drop 16 aad_buf) x2) else x2)"

fun ccm_auth_blocks :: "(u8 list \<Rightarrow> u8 list) \<Rightarrow> nat \<Rightarrow> u8 list \<Rightarrow> u8 list \<Rightarrow> u8 list" where
  "ccm_auth_blocks E 0 data x = x"
| "ccm_auth_blocks E (Suc n) data x = ccm_auth_blocks E n (drop 16 data) (E (xorl x (take 16 data)))"

definition aes_ccm_auth :: "(u8 list \<Rightarrow> u8 list) \<Rightarrow> u8 list \<Rightarrow> u8 list \<Rightarrow> u8 list" where
  "aes_ccm_auth E data x =
     (let n = length data div 16; y = ccm_auth_blocks E n data x; tail = drop (16 * n) data
      in if length data mod 16 \<noteq> 0 then E (xorl (take (length tail) y) tail @ drop (length tail) y) else y)"

definition aes_ccm_encr_start :: "nat \<Rightarrow> u8 list \<Rightarrow> u8 list" where
  "aes_ccm_encr_start L nonce = of_nat (L - 1) # take (15 - L) nonce"

fun ccm_encr_blocks :: "(u8 list \<Rightarrow> u8 list) \<Rightarrow> u8 list \<Rightarrow> nat \<Rightarrow> nat \<Rightarrow> u8 list \<Rightarrow> u8 list" where
  "ccm_encr_blocks E a i 0 inp = []"
| "ccm_encr_blocks E a i (Suc n) inp =
     xorl (E (a @ WPA_PUT_BE16 (of_nat i))) (take 16 inp) @ ccm_encr_blocks E a (Suc i) n (drop 16 inp)"

text \<open>
  All the bytes that \<open>aes_ccm_encr\<close> writes: a whole block of key stream is stored at the place of
  the last partial block before its first bytes are combined with the input.
\<close>

definition aes_ccm_encr :: "(u8 list \<Rightarrow> u8 list) \<Rightarrow> u8 list \<Rightarrow> u8 list \<Rightarrow> u8 list" where
  "aes_ccm_encr E a inp =
     (let n = length inp div 16; full = ccm_encr_blocks E a 1 n inp; tail = drop (16 * n) inp
      in if length inp mod 16 \<noteq> 0 then
           let s = E (a @ WPA_PUT_BE16 (of_nat (n + 1)))
           in full @ xorl (take (length tail) s) tail @ drop (length tail) s
         else full)"

definition aes_ccm_encr_auth :: "(u8 list \<Rightarrow> u8 list) \<Rightarrow> nat \<Rightarrow> u8 list \<Rightarrow> u8 list \<Rightarrow> u8 list" where
  "aes_ccm_encr_auth E M x a = take M (xorl x (E (a @ WPA_PUT_BE16 0)))"

definition aes_ccm_decr_auth :: "(u8 list \<Rightarrow> u8 list) \<Rightarrow> nat \<Rightarrow> u8 list \<Rightarrow> u8 list \<Rightarrow> u8 list" where
  "aes_ccm_decr_auth E M a auth = take M (xorl auth (E (a @ WPA_PUT_BE16 0)))"

text \<open>The ciphertext and the authentication field.\<close>

definition aes_ccm_ae ::
  "bool \<Rightarrow> u8 list \<Rightarrow> u8 list \<Rightarrow> nat \<Rightarrow> u8 list \<Rightarrow> u8 list \<Rightarrow> (u8 list \<times> u8 list) outcome" where
  "aes_ccm_ae alloc key nonce M plain aad =
     (if length aad > 30 \<or> M > 16 then Err (-1) else
      case aes_encrypt_init alloc key of
        None \<Rightarrow> Err (-1)
      | Some ctx \<Rightarrow>
          let E = aes_encrypt ctx;
              x = aes_ccm_auth E plain (aes_ccm_auth_start E M 2 nonce aad (length plain));
              a = aes_ccm_encr_start 2 nonce
          in Ret (take (length plain) (aes_ccm_encr E a plain), aes_ccm_encr_auth E M x a))"

definition aes_ccm_ad ::
  "bool \<Rightarrow> u8 list \<Rightarrow> u8 list \<Rightarrow> nat \<Rightarrow> u8 list \<Rightarrow> u8 list \<Rightarrow> u8 list \<Rightarrow> u8 list outcome" where
  "aes_ccm_ad alloc key nonce M crypt aad auth =
     (if length aad > 30 \<or> M > 16 then Err (-1) else
      case aes_encrypt_init alloc key of
        None \<Rightarrow> Err (-1)
      | Some ctx \<Rightarrow>
          let E = aes_encrypt ctx;
              a = aes_ccm_encr_start 2 nonce;
              t = aes_ccm_decr_auth E M a auth;
              plain = take (length crypt) (aes_ccm_encr E a crypt);
              x = aes_ccm_auth E plain (aes_ccm_auth_start E M 2 nonce aad (length crypt))
          in if take M x \<noteq> take M t then Err (-1) else Ret plain)"

section \<open>GCM\<close>

definition inc32 :: "u8 list \<Rightarrow> u8 list" where
  "inc32 block = put_at 12 (WPA_PUT_BE32 (WPA_GET_BE32 (drop 12 block) + 1)) block"

definition shift_word :: "nat \<Rightarrow> u8 list \<Rightarrow> u8 list" where
  "shift_word off v =
     (let val = drop_bit 1 (WPA_GET_BE32 (drop off v));
          val' = (if off \<noteq> 0 \<and> v ! (off - 1) AND 0x01 \<noteq> 0 then val OR 0x80000000 else val)
      in put_at off (WPA_PUT_BE32 val') v)"

definition shift_right_block :: "u8 list \<Rightarrow> u8 list" where
  "shift_right_block v = shift_word 0 (shift_word 4 (shift_word 8 (shift_word 12 v)))"

definition gf_step :: "bool \<Rightarrow> u8 list \<times> u8 list \<Rightarrow> u8 list \<times> u8 list" where
  "gf_step xbit s =
     (let (z, v) = s;
          z' = (if xbit then xorl z v else z);
          w = shift_right_block v
      in (z', if v ! 15 AND 0x01 \<noteq> 0 then w[0 := w ! 0 XOR 0xe1] else w))"

definition gf_mult :: "u8 list \<Rightarrow> u8 list \<Rightarrow> u8 list" where
  "gf_mult x y =
     fst (fold (\<lambda>i. fold (\<lambda>j. gf_step (x ! i AND push_bit (7 - j) 1 \<noteq> 0)) [0..<8]) [0..<16]
           (replicate 16 0, y))"

fun ghash_blocks :: "u8 list \<Rightarrow> nat \<Rightarrow> u8 list \<Rightarrow> u8 list \<Rightarrow> u8 list" where
  "ghash_blocks h 0 x y = y"
| "ghash_blocks h (Suc m) x y = ghash_blocks h m (drop 16 x) (gf_mult (xorl y (take 16 x)) h)"

definition ghash :: "u8 list \<Rightarrow> u8 list \<Rightarrow> u8 list \<Rightarrow> u8 list" where
  "ghash h x y =
     (let m = length x div 16; y' = ghash_blocks h m x y; tail = drop (16 * m) x
      in if tail \<noteq> [] then gf_mult (xorl y' (tail @ replicate (16 - length tail) 0)) h else y')"

fun gctr_blocks :: "(u8 list \<Rightarrow> u8 list) \<Rightarrow> nat \<Rightarrow> u8 list \<Rightarrow> u8 list \<Rightarrow> u8 list \<times> u8 list" where
  "gctr_blocks E 0 cb x = ([], cb)"
| "gctr_blocks E (Suc n) cb x =
     (let (ys, cb') = gctr_blocks E n (inc32 cb) (drop 16 x) in (xorl (E cb) (take 16 x) @ ys, cb'))"

definition aes_gctr :: "(u8 list \<Rightarrow> u8 list) \<Rightarrow> u8 list \<Rightarrow> u8 list \<Rightarrow> u8 list" where
  "aes_gctr E icb x =
     (if x = [] then []
      else let n = length x div 16; (ys, cb) = gctr_blocks E n icb x; tail = drop (16 * n) x
           in if tail \<noteq> [] then ys @ xorl tail (E cb) else ys)"

definition aes_gcm_init_hash_subkey :: "bool \<Rightarrow> u8 list \<Rightarrow> (aes_ctx \<times> u8 list) option" where
  "aes_gcm_init_hash_subkey alloc key =
     (case aes_encrypt_init alloc key of
        None \<Rightarrow> None
      | Some ctx \<Rightarrow> Some (ctx, aes_encrypt ctx (replicate 16 0)))"

text \<open>\<open>iv_len * 8\<close> is computed in \<open>size_t\<close> and widened.\<close>

definition len64 :: "nat \<Rightarrow> u8 list" where
  "len64 n = WPA_PUT_BE64 (ucast ((of_nat n :: size_t) * 8))"

definition aes_gcm_prepare_j0 :: "u8 list \<Rightarrow> u8 list \<Rightarrow> u8 list" where
  "aes_gcm_prepare_j0 iv H =
     (if length iv = 12 then (put_at 0 iv (replicate 16 0))[15 := 0x01]
      else ghash H (WPA_PUT_BE64 0 @ len64 (length iv)) (ghash H iv (replicate 16 0)))"

definition aes_gcm_gctr :: "(u8 list \<Rightarrow> u8 list) \<Rightarrow> u8 list \<Rightarrow> u8 list \<Rightarrow> u8 list" where
  "aes_gcm_gctr E J0 inp = (if inp = [] then [] else aes_gctr E (inc32 J0) inp)"

definition aes_gcm_ghash :: "u8 list \<Rightarrow> u8 list \<Rightarrow> u8 list \<Rightarrow> u8 list" where
  "aes_gcm_ghash H aad crypt =
     ghash H (len64 (length aad) @ len64 (length crypt)) (ghash H crypt (ghash H aad (replicate 16 0)))"

definition aes_gcm_ae ::
  "bool \<Rightarrow> u8 list \<Rightarrow> u8 list \<Rightarrow> u8 list \<Rightarrow> u8 list \<Rightarrow> (u8 list \<times> u8 list) outcome" where
  "aes_gcm_ae alloc key iv plain aad =
     (case aes_gcm_init_hash_subkey alloc key of
        None \<Rightarrow> Err (-1)
      | Some (ctx, H) \<Rightarrow>
          let J0 = aes_gcm_prepare_j0 iv H;
              crypt = aes_gcm_gctr (aes_encrypt ctx) J0 plain;
              S = aes_gcm_ghash H aad crypt
          in Ret (crypt, aes_gctr (aes_encrypt ctx) J0 S))"

definition aes_gcm_ad ::
  "bool \<Rightarrow> u8 list \<Rightarrow> u8 list \<Rightarrow> u8 list \<Rightarrow> u8 list \<Rightarrow> u8 list \<Rightarrow> u8 list outcome" where
  "aes_gcm_ad alloc key iv crypt aad tag =
     (case aes_gcm_init_hash_subkey alloc key of
        None \<Rightarrow> Err (-1)
      | Some (ctx, H) \<Rightarrow>
          let J0 = aes_gcm_prepare_j0 iv H;
              plain = aes_gcm_gctr (aes_encrypt ctx) J0 crypt;
              S = aes_gcm_ghash H aad crypt;
              T = aes_gctr (aes_encrypt ctx) J0 S
          in if take 16 tag \<noteq> T then Err (-1) else Ret plain)"

definition aes_gmac :: "bool \<Rightarrow> u8 list \<Rightarrow> u8 list \<Rightarrow> u8 list \<Rightarrow> u8 list outcome" where
  "aes_gmac alloc key iv aad =
     bind_outcome (aes_gcm_ae alloc key iv [] aad) (\<lambda>(_, tag). Ret tag)"

section \<open>The message authentication code as the modes see it\<close>

lemma length_cmac: "(\<And>b. length (E b) = 16) \<Longrightarrow> length (cmac E m) = 16"
  by (simp add: cmac_def Let_def split: prod.split)

lemma omac1_single:
  assumes "aes_encrypt_init alloc key = Some ctx"
  shows "omac1_aes_vector alloc key [m] = Ret (cmac (aes_encrypt ctx) m)"
  using assms omac1_cmac [of "aes_encrypt ctx" "[m]"] by (auto simp: omac1_aes_vector_def)

lemma eax_mac_cmac:
  assumes "aes_encrypt_init alloc (take 16 key) = Some ctx"
  shows "eax_mac alloc key t m = Ret (cmac (aes_encrypt ctx) (replicate 15 0 @ [t] @ m))"
  by (simp only: eax_mac_def omac1_aes_128_def omac1_aes_128_vector_def omac1_single [OF assms])

lemma s2v_loop_total:
  assumes "aes_encrypt_init alloc key = Some ctx"
  shows "\<exists>v. s2v_loop alloc key tmp as = Ret v"
  by (induction as arbitrary: tmp) (auto simp: omac1_single [OF assms])

lemma aes_s2v_total:
  assumes "aes_encrypt_init alloc key = Some ctx"
  shows "\<exists>v. aes_s2v True alloc key addr = Ret v \<and> length v = 16"
proof -
  obtain tmp where "s2v_loop alloc key (cmac (aes_encrypt ctx) (replicate 16 0)) (butlast addr) = Ret tmp"
    using s2v_loop_total [OF assms] by blast
  then show ?thesis
    by (auto simp: aes_s2v_def omac1_single [OF assms] length_cmac)
qed

section \<open>The key streams of CCM and GCM\<close>

lemma ccm_encr_blocks_twice:
  assumes "\<And>b. length (E b) = 16" "16 * n \<le> length inp"
  shows "length (ccm_encr_blocks E a i n inp) = 16 * n \<and>
    ccm_encr_blocks E a i n (ccm_encr_blocks E a i n inp @ rest) = take (16 * n) inp"
  using assms(2)
proof (induction n arbitrary: i inp)
  case (Suc n)
  let ?s = "E (a @ WPA_PUT_BE16 (of_nat i))"
  have "xorl ?s (xorl ?s (take 16 inp)) = take 16 inp"
    using Suc.prems by (simp add: xorl_commute [of ?s] xorl_twice assms(1))
  moreover have "take (16 * Suc n) inp = take 16 inp @ take (16 * n) (drop 16 inp)"
    by (simp add: take_add)
  ultimately show ?case
    using Suc.IH [of "drop 16 inp" "Suc i"] Suc.prems by (simp add: assms(1))
qed simp

lemma div_mod_16: "16 * (n div 16) + n mod 16 = (n :: nat)"
  by simp

lemma length_aes_ccm_encr:
  assumes "\<And>b. length (E b) = 16"
  shows "length (aes_ccm_encr E a inp) = 16 * ((length inp + 15) div 16)"
proof -
  have "length (ccm_encr_blocks E a 1 (length inp div 16) inp) = 16 * (length inp div 16)"
    using ccm_encr_blocks_twice [of E "length inp div 16" inp a 1 "[]"] assms by simp
  moreover have "(length inp + 15) div 16 = (if length inp mod 16 = 0 then length inp div 16 else length inp div 16 + 1)"
    by presburger
  moreover have "length inp - 16 * (length inp div 16) = length inp mod 16"
    by (simp add: minus_mult_div_eq_mod)
  ultimately show ?thesis
    using mod_less_divisor [of 16 "length inp"]
    by (simp add: aes_ccm_encr_def Let_def assms min_def del: mod_less_divisor)
qed

lemma length_tail: "length (drop (16 * (length inp div 16)) inp) = length inp mod 16"
  by (simp add: minus_mult_div_eq_mod)

lemma aes_ccm_encr_parts:
  assumes "\<And>b. length (E b) = 16"
  shows "take (length inp) (aes_ccm_encr E a inp) =
    (let n = length inp div 16; tl = drop (16 * n) inp
     in ccm_encr_blocks E a 1 n inp @ xorl (take (length tl) (E (a @ WPA_PUT_BE16 (of_nat (n + 1))))) tl)"
proof -
  define n tl where "n = length inp div 16" and "tl = drop (16 * n) inp"
  have full: "length (ccm_encr_blocks E a 1 n inp) = 16 * n"
    using ccm_encr_blocks_twice [of E n inp a 1 "[]"] assms by (simp add: n_def)
  have tl: "length tl = length inp mod 16" "length inp = 16 * n + length tl"
    using length_tail [of inp] div_mod_16 [of "length inp"] by (simp_all add: n_def tl_def)
  have short: "length tl \<le> 16" by (simp add: tl(1))
  define S where "S = E (a @ WPA_PUT_BE16 (of_nat (n + 1)))"
  have S: "length S = 16" by (simp add: S_def assms)
  have enc: "aes_ccm_encr E a inp = ccm_encr_blocks E a 1 n inp @
      (if length inp mod 16 = 0 then [] else xorl (take (length tl) S) tl @ drop (length tl) S)"
    unfolding aes_ccm_encr_def Let_def S_def tl_def n_def by simp
  have mid: "take (length inp) (f @ x @ y) = f @ x" if "length f = 16 * n" "length x = length tl" for f x y :: "u8 list"
    using that tl(2) by (metis append.assoc append_eq_conv_conj length_append)
  have "length (xorl (take (length tl) S) tl) = length tl" using S short by simp
  note mid = mid [OF full this]
  have "take (length inp) (aes_ccm_encr E a inp) = ccm_encr_blocks E a 1 n inp @ xorl (take (length tl) S) tl"
  proof (cases "length inp mod 16 = 0")
    case True
    then have "tl = []" using tl(1) by simp
    with True enc mid [of "[]"] show ?thesis by simp
  next
    case False
    with enc mid show ?thesis by simp
  qed
  then show ?thesis unfolding S_def tl_def n_def Let_def .
qed

lemma aes_ccm_encr_twice:
  assumes "\<And>b. length (E b) = 16"
  shows "take (length inp) (aes_ccm_encr E a (take (length inp) (aes_ccm_encr E a inp))) = inp"
proof -
  define n tl where "n = length inp div 16" and "tl = drop (16 * n) inp"
  define s where "s = take (length tl) (E (a @ WPA_PUT_BE16 (of_nat (n + 1))))"
  define full where "full = ccm_encr_blocks E a 1 n inp"
  have tl: "length tl = length inp mod 16" "length inp = 16 * n + length tl"
    using length_tail [of inp] div_mod_16 [of "length inp"] by (simp_all add: n_def tl_def)
  have s: "length s = length tl" using tl(1) by (simp add: s_def assms)
  have full: "length full = 16 * n" "ccm_encr_blocks E a 1 n (full @ r) = take (16 * n) inp" for r
    using ccm_encr_blocks_twice [of E n inp a 1 r] assms by (simp_all add: full_def n_def)
  define c where "c = full @ xorl s tl"
  have enc: "take (length inp) (aes_ccm_encr E a inp) = c"
    using aes_ccm_encr_parts [of E inp a] assms
    unfolding c_def s_def full_def tl_def n_def Let_def by simp
  have c: "length c = length inp" "drop (16 * n) c = xorl s tl" using full(1) s tl(2) by (simp_all add: c_def)
  have s': "take (length inp - 16 * n) (E (a @ WPA_PUT_BE16 (1 + of_nat n))) = s"
    using tl(2) by (simp add: s_def add.commute)
  have "take (length c) (aes_ccm_encr E a c) = take (16 * n) inp @ xorl s (xorl s tl)"
    using aes_ccm_encr_parts [of E c a] assms c s full(2) [of "xorl s tl"] s'
    by (simp add: Let_def n_def [symmetric] c_def [symmetric] s_def [symmetric])
  also have "xorl s (xorl s tl) = tl" using s by (simp add: xorl_commute [of s] xorl_twice)
  finally show ?thesis using enc c(1) by (simp add: tl_def)
qed

lemma gctr_blocks_twice:
  assumes "\<And>b. length (E b) = 16" "16 * n \<le> length x"
  shows "length (fst (gctr_blocks E n cb x)) = 16 * n \<and>
    gctr_blocks E n cb (fst (gctr_blocks E n cb x) @ rest) = (take (16 * n) x, snd (gctr_blocks E n cb x))"
  using assms(2)
proof (induction n arbitrary: cb x)
  case (Suc n)
  have "xorl (E cb) (xorl (E cb) (take 16 x)) = take 16 x"
    using Suc.prems by (simp add: xorl_commute [of "E cb"] xorl_twice assms(1))
  moreover have "take (16 * Suc n) x = take 16 x @ take (16 * n) (drop 16 x)"
    by (simp add: take_add)
  moreover obtain ys c where "gctr_blocks E n (inc32 cb) (drop 16 x) = (ys, c)" by fastforce
  ultimately show ?case
    using Suc.IH [of "drop 16 x" "inc32 cb"] Suc.prems by (simp add: assms(1))
qed simp

lemma aes_gctr_parts:
  assumes "gctr_blocks E (length x div 16) cb x = (ys, cb')"
  shows "aes_gctr E cb x = ys @ xorl (drop (16 * (length x div 16)) x) (E cb')"
  using assms by (auto simp: aes_gctr_def Let_def)

lemma aes_gctr_twice:
  assumes "\<And>b. length (E b) = 16"
  shows "length (aes_gctr E cb x) = length x \<and> aes_gctr E cb (aes_gctr E cb x) = x"
proof -
  define n tl where "n = length x div 16" and "tl = drop (16 * n) x"
  obtain ys cb' where g: "gctr_blocks E n cb x = (ys, cb')" by fastforce
  have tl: "length tl = length x mod 16" "length x = 16 * n + length tl"
    using length_tail [of x] div_mod_16 [of "length x"] by (simp_all add: n_def tl_def)
  have ys: "length ys = 16 * n" "gctr_blocks E n cb (ys @ r) = (take (16 * n) x, cb')" for r
    using gctr_blocks_twice [of E n x cb r] assms g by (simp_all add: n_def)
  define c where "c = ys @ xorl tl (E cb')"
  have enc: "aes_gctr E cb x = c"
    using aes_gctr_parts [of E x cb] g by (simp add: c_def n_def [symmetric] tl_def [symmetric])
  have c: "length c = length x" "drop (16 * n) c = xorl tl (E cb')"
    using ys(1) tl assms by (simp_all add: c_def)
  have "aes_gctr E cb c = take (16 * n) x @ xorl (xorl tl (E cb')) (E cb')"
    using aes_gctr_parts [of E c cb] ys(2) [of "xorl tl (E cb')"] c by (simp add: n_def [symmetric] c_def [symmetric])
  also have "xorl (xorl tl (E cb')) (E cb') = tl" using tl(1) assms by (intro xorl_twice) simp
  finally show ?thesis using enc c(1) by (simp add: tl_def)
qed

section \<open>Lengths in GCM\<close>

lemma length_shift_word: "off + 4 \<le> length v \<Longrightarrow> length (shift_word off v) = length v"
  by (simp add: shift_word_def Let_def)

lemma length_shift_right_block: "length v = 16 \<Longrightarrow> length (shift_right_block v) = 16"
  by (simp add: shift_right_block_def length_shift_word)

lemma gf_step_lengths:
  "length (fst s) = 16 \<Longrightarrow> length (snd s) = 16 \<Longrightarrow>
   length (fst (gf_step b s)) = 16 \<and> length (snd (gf_step b s)) = 16"
  by (cases s) (simp add: gf_step_def Let_def length_shift_right_block)

text \<open>An invariant of every step is one of the loop.\<close>

lemma fold_invariant:
  assumes "P s" "\<And>x s. P s \<Longrightarrow> P (f x s)"
  shows "P (fold f xs s)"
  using assms(1) by (induction xs arbitrary: s) (simp_all add: assms(2))

lemma length_gf_mult: "length y = 16 \<Longrightarrow> length (gf_mult x y) = 16"
proof -
  assume "length y = 16"
  then have "length (fst (fold (\<lambda>i. fold (\<lambda>j. gf_step (x ! i AND push_bit (7 - j) 1 \<noteq> 0)) [0..<8]) [0..<16]
        (replicate 16 0, y))) = 16 \<and>
      length (snd (fold (\<lambda>i. fold (\<lambda>j. gf_step (x ! i AND push_bit (7 - j) 1 \<noteq> 0)) [0..<8]) [0..<16]
        (replicate 16 0, y))) = 16"
    by (intro fold_invariant [where P = "\<lambda>s. length (fst s) = 16 \<and> length (snd s) = 16"])
       (simp_all add: gf_step_lengths del: upt_Suc)
  then show ?thesis by (simp add: gf_mult_def del: upt_Suc)
qed

lemma length_ghash_blocks: "length h = 16 \<Longrightarrow> length y = 16 \<Longrightarrow> length (ghash_blocks h m x y) = 16"
  by (induction h m x y rule: ghash_blocks.induct) (simp_all add: length_gf_mult)

lemma length_ghash: "length h = 16 \<Longrightarrow> length y = 16 \<Longrightarrow> length (ghash h x y) = 16"
  by (simp add: ghash_def Let_def length_gf_mult length_ghash_blocks)

section \<open>Properties\<close>

text \<open>
  EAX: decryption returns the data for exactly one tag. What encryption returned
  decrypts to the plaintext under the same key, nonce and header; with any other tag of 16
  bytes it is refused with the code for a tag that does not match.
\<close>

theorem eax_roundtrip:
  assumes "length key = 16"
  shows "\<exists>c tag. aes_128_eax_encrypt True True key nonce hdr data = Ret (c, tag) \<and>
    length c = length data \<and> length tag = 16 \<and>
    (\<forall>tag'. length tag' = 16 \<longrightarrow>
      aes_128_eax_decrypt True True key nonce hdr c tag' = (if tag' = tag then Ret data else Err (-2)))"
proof -
  obtain ctx where ctx: "aes_encrypt_init True (take 16 key) = Some ctx"
    using aes_init_keys(1) [of key] assms by auto
  show ?thesis
    by (auto simp: aes_128_eax_encrypt_def aes_128_eax_decrypt_def eax_mac_cmac [OF ctx]
        aes_128_ctr_encrypt_def aes_ctr_encrypt_def ctx length_ctr_loop ctr_loop_twice length_cmac)
qed

theorem eax_roundtrip_witness:
  "\<exists>c tag. aes_128_eax_encrypt True True fips_key [1] [2] [3, 4] = Ret (c, tag) \<and>
     aes_128_eax_decrypt True True fips_key [1] [2] c tag = Ret [3, 4]"
  using eax_roundtrip [of fips_key "[1]" "[2]" "[3, 4]"] by (fastforce simp: fips_key_def)

text \<open>
  SIV: what was encrypted decrypts to the same data under the same key and the same
  associated data, of any number of elements the code allows; the output is sixteen bytes
  longer than the input. Keys of other lengths and more than five elements are refused.
\<close>

theorem siv_roundtrip:
  "(length key \<in> {32, 48, 64} \<and> length addr \<le> 5 \<longrightarrow>
      (\<exists>c. aes_siv_encrypt True True key pw addr = Ret c \<and> length c = length pw + 16 \<and>
        aes_siv_decrypt True True key c addr = Ret pw)) \<and>
   (\<not> (length key \<in> {32, 48, 64} \<and> length addr \<le> 5) \<longrightarrow>
      aes_siv_encrypt True True key pw addr = Err (-1) \<and> aes_siv_decrypt True True key pw addr = Err (-1))"
proof -
  have "\<exists>c. aes_siv_encrypt True True key pw addr = Ret c \<and> length c = length pw + 16 \<and>
      aes_siv_decrypt True True key c addr = Ret pw" if k: "length key \<in> {32, 48, 64}" "length addr \<le> 5"
  proof -
    obtain c1 c2 where c: "aes_encrypt_init True (take (length key div 2) key) = Some c1"
      "aes_encrypt_init True (drop (length key div 2) key) = Some c2"
      using aes_init_keys(1) [of "take (length key div 2) key"] aes_init_keys(1) [of "drop (length key div 2) key"] k(1)
      by fastforce
    obtain v where v: "aes_s2v True True (take (length key div 2) key) (addr @ [pw]) = Ret v" "length v = 16"
      using aes_s2v_total [OF c(1)] by blast
    show ?thesis
      using k v c by (simp add: aes_siv_encrypt_def aes_siv_decrypt_def Let_def aes_ctr_encrypt_def
          length_ctr_loop ctr_loop_twice)
  qed
  then show ?thesis by (auto simp: aes_siv_encrypt_def aes_siv_decrypt_def)
qed

theorem siv_roundtrip_witness:
  "\<exists>c. aes_siv_encrypt True True (fips_key @ fips_key) [3, 4] [[1], [2]] = Ret c \<and>
     aes_siv_decrypt True True (fips_key @ fips_key) c [[1], [2]] = Ret [3, 4]"
  using conjunct1 [OF siv_roundtrip, of "fips_key @ fips_key" "[[1], [2]]" "[3, 4]"]
  by (fastforce simp: fips_key_def)

text \<open>
  CCM: decryption returns the data for exactly one authentication field of the agreed
  length. Encryption writes whole blocks: the number of bytes stored is the length of the
  data rounded up to sixteen, so that the output buffer needs that room.
\<close>

theorem ccm_roundtrip:
  assumes "aes_encrypt_init alloc key = Some ctx" "length aad \<le> 30" "M \<le> 16"
  shows "(\<exists>c auth. aes_ccm_ae alloc key nonce M plain aad = Ret (c, auth) \<and>
      length c = length plain \<and> length auth = M \<and>
      (\<forall>auth'. length auth' = M \<longrightarrow>
        aes_ccm_ad alloc key nonce M c aad auth' = (if auth' = auth then Ret plain else Err (-1)))) \<and>
    length (aes_ccm_encr (aes_encrypt ctx) a plain) = 16 * ((length plain + 15) div 16)"
proof -
  let ?E = "aes_encrypt ctx"
  let ?a = "aes_ccm_encr_start 2 nonce"
  let ?x = "aes_ccm_auth ?E plain (aes_ccm_auth_start ?E M 2 nonce aad (length plain))"
  let ?s = "?E (?a @ WPA_PUT_BE16 0)"
  let ?c = "take (length plain) (aes_ccm_encr ?E ?a plain)"
  have len: "length (aes_ccm_encr ?E b plain) = 16 * ((length plain + 15) div 16)" for b
    by (rule length_aes_ccm_encr) simp
  have "length plain \<le> 16 * ((length plain + 15) div 16)" by presburger
  with len have c: "length ?c = length plain" by simp
  have dec: "take (length plain) (aes_ccm_encr ?E ?a ?c) = plain" by (rule aes_ccm_encr_twice) simp
  have bl: "length (ccm_auth_blocks ?E n d y) = 16" if "length y = 16" for n d y
    using that by (induction n arbitrary: d y) auto
  have "length (aes_ccm_auth_start ?E M 2 nonce aad n) = 16" for n
    by (simp add: aes_ccm_auth_start_def Let_def)
  then have x: "length ?x = 16" by (simp add: aes_ccm_auth_def Let_def bl)
  have tag: "take M ?x = take M (xorl auth' ?s) \<longleftrightarrow> auth' = take M (xorl ?x ?s)" if "length auth' = M" for auth'
  proof -
    have "take M (xorl auth' ?s) = xorl auth' (take M ?s)" using that by (simp add: take_xorl)
    moreover have "take M (xorl ?x ?s) = xorl (take M ?x) (take M ?s)" by (simp add: take_xorl)
    moreover have "xorl (xorl u (take M ?s)) (take M ?s) = u" if "length u = M" for u
      using that assms(3) by (intro xorl_twice) simp
    ultimately show ?thesis using that x assms(3) by (metis length_take min_absorb2)
  qed
  show ?thesis
    using assms c dec x tag len [of a]
    by (auto simp: aes_ccm_ae_def aes_ccm_ad_def Let_def aes_ccm_encr_auth_def aes_ccm_decr_auth_def)
qed

theorem ccm_roundtrip_witness:
  "\<exists>c auth. aes_ccm_ae True fips_key fips_plain 8 [1, 2, 3] [4] = Ret (c, auth) \<and>
     aes_ccm_ad True fips_key fips_plain 8 c [4] auth = Ret [1, 2, 3]"
proof -
  obtain ctx where c: "aes_encrypt_init True fips_key = Some ctx"
    using aes_init_keys(1) [of fips_key] by (auto simp: fips_key_def)
  with ccm_roundtrip [OF c, of "[4]" 8 fips_plain "[1, 2, 3]"] show ?thesis by fastforce
qed

text \<open>
  GCM: decryption returns the data for exactly one tag of 16 bytes, the one that
  encryption returned; GMAC of some data is the tag of the empty plaintext.
\<close>

theorem gcm_roundtrip:
  assumes "aes_encrypt_init alloc key = Some ctx"
  shows "(\<exists>c tag. aes_gcm_ae alloc key iv plain aad = Ret (c, tag) \<and>
      length c = length plain \<and> length tag = 16 \<and>
      (\<forall>tag'. length tag' = 16 \<longrightarrow>
        aes_gcm_ad alloc key iv c aad tag' = (if tag' = tag then Ret plain else Err (-1)))) \<and>
    (\<exists>tag. aes_gmac alloc key iv aad = Ret tag \<and> aes_gcm_ad alloc key iv [] aad tag = Ret [])"
proof -
  let ?E = "aes_encrypt ctx" let ?H = "aes_encrypt ctx (replicate 16 0)"
  have g: "length (aes_gctr ?E cb x) = length x" "aes_gctr ?E cb (aes_gctr ?E cb x) = x" for cb x
    using aes_gctr_twice [of ?E cb x] by simp_all
  have "aes_gctr ?E cb x \<noteq> []" if "x \<noteq> []" for cb x using g(1) that by (metis length_0_conv)
  then have gc: "length (aes_gcm_gctr ?E j x) = length x" "aes_gcm_gctr ?E j (aes_gcm_gctr ?E j x) = x" for j x
    by (cases "x = []"; simp add: aes_gcm_gctr_def g)+
  have s: "length (aes_gcm_ghash ?H aad x) = 16" for x
    by (simp add: aes_gcm_ghash_def length_ghash)
  have nil: "aes_gcm_gctr ?E j [] = []" for j by (simp add: aes_gcm_gctr_def)
  show ?thesis
    using assms by (auto simp: aes_gcm_ae_def aes_gcm_ad_def aes_gmac_def aes_gcm_init_hash_subkey_def
        Let_def g gc s nil)
qed

theorem gcm_roundtrip_witness:
  "\<exists>c tag. aes_gcm_ae True fips_key fips_plain [1, 2, 3] [4] = Ret (c, tag) \<and>
     aes_gcm_ad True fips_key fips_plain c [4] tag = Ret [1, 2, 3]"
proof -
  obtain ctx where c: "aes_encrypt_init True fips_key = Some ctx"
    using aes_init_keys(1) [of fips_key] by (auto simp: fips_key_def)
  from conjunct1 [OF gcm_roundtrip [OF c, of fips_plain "[1, 2, 3]" "[4]"]]
  obtain ct tag where "aes_gcm_ae True fips_key fips_plain [1, 2, 3] [4] = Ret (ct, tag)" "length tag = 16"
    "\<forall>tag'. length tag' = 16 \<longrightarrow> aes_gcm_ad True fips_key fips_plain ct [4] tag' =
      (if tag' = tag then Ret [1, 2, 3] else Err (-1))" by blast
  then show ?thesis by auto
qed

end
