(* ===== verification/Hash_Stream.thy ===== *)
theory Hash_Stream
  imports Byte_Order
begin

text \<open>
  What the hash functions of wpa\_supplicant have in common: data arrives in pieces, whole
  blocks are compressed as they become complete, the rest waits in a buffer, and the padded
  last blocks give the digest. The reference is the Merkle-Damgard construction on one
  message; the locale \<open>md_hash\<close> (and its part \<open>md_stream\<close>, without the final step) states what an implementation promises, and in it follows
  that the digest of a vector of buffers is the reference digest of their concatenation.
\<close>

section \<open>Reference\<close>

text \<open>Compression of the whole blocks of \<open>m\<close>; the second component is the incomplete rest.\<close>

function absorb :: "nat \<Rightarrow> ('h \<Rightarrow> u8 list \<Rightarrow> 'h) \<Rightarrow> 'h \<Rightarrow> u8 list \<Rightarrow> 'h \<times> u8 list" where
  "absorb B cf h m =
     (if B = 0 \<or> length m < B then (h, m) else absorb B cf (cf h (take B m)) (drop B m))"
  by pat_completeness auto
termination
  by (relation "measure (\<lambda>(_, _, _, m). length m)") auto

declare absorb.simps [simp del]

definition md_digest :: "nat \<Rightarrow> ('h \<Rightarrow> u8 list \<Rightarrow> 'h) \<Rightarrow> 'h \<Rightarrow> (nat \<Rightarrow> u8 list) \<Rightarrow> ('h \<Rightarrow> 'd) \<Rightarrow> u8 list \<Rightarrow> 'd" where
  "md_digest B cf iv pad out m = out (fst (absorb B cf iv (m @ pad (length m))))"

text \<open>Padding: a one bit, zeros, and the length in \<open>lb\<close> bytes at the end of a block.\<close>

definition md_pad :: "nat \<Rightarrow> nat \<Rightarrow> (nat \<Rightarrow> u8 list) \<Rightarrow> nat \<Rightarrow> u8 list" where
  "md_pad B lb enc n = 0x80 # replicate ((2 * B - lb - 1 - n mod B) mod B) 0 @ enc n"

lemma absorb_short: "length m < B \<Longrightarrow> absorb B cf h m = (h, m)"
  by (subst absorb.simps) simp

lemma absorb_block: "0 < B \<Longrightarrow> length b = B \<Longrightarrow> absorb B cf h (b @ m) = absorb B cf (cf h b) m"
  by (subst absorb.simps) simp

lemma absorb_step:
  "0 < B \<Longrightarrow> B \<le> length m \<Longrightarrow> absorb B cf h m = absorb B cf (cf h (take B m)) (drop B m)"
  by (subst absorb.simps) simp

lemma absorb_append: "absorb B cf h (a @ b) = (case absorb B cf h a of (h', r) \<Rightarrow> absorb B cf h' (r @ b))"
proof (induction B cf h a rule: absorb.induct)
  case (1 B cf h a)
  show ?case
  proof (cases "B = 0 \<or> length a < B")
    case True
    then show ?thesis by (auto simp: absorb.simps [of B cf h a])
  next
    case False
    then have "absorb B cf h (a @ b) = absorb B cf (cf h (take B a)) (drop B a @ b)"
      by (subst absorb.simps) simp
    with 1 False show ?thesis by (simp add: absorb_step [of B a])
  qed
qed

lemma absorb_rest_short: "0 < B \<Longrightarrow> absorb B cf h m = (h', r) \<Longrightarrow> length r < B"
  by (induction B cf h m rule: absorb.induct) (subst (asm) (2) absorb.simps, auto split: if_splits)

lemma absorb_rest_length: "0 < B \<Longrightarrow> absorb B cf h m = (h', r) \<Longrightarrow> length r = length m mod B"
proof (induction B cf h m rule: absorb.induct)
  case (1 B cf h m)
  show ?case
  proof (cases "length m < B")
    case True
    with 1 show ?thesis by (simp add: absorb_short)
  next
    case False
    with 1 show ?thesis by (simp add: absorb_step le_mod_geq)
  qed
qed

text \<open>What the compression keeps of the chaining value.\<close>

lemma absorb_keeps:
  assumes "\<And>h b. P h \<Longrightarrow> P (cf h b)" "P h"
  shows "P (fst (absorb B cf h m))"
  using assms(2)
proof (induction "length m" arbitrary: h m rule: less_induct)
  case less
  show ?case
  proof (cases "B = 0 \<or> length m < B")
    case True
    with less.prems show ?thesis by (subst absorb.simps) auto
  next
    case False
    then have "length (drop B m) < length m" by auto
    with False less.hyps [of "drop B m" "cf h (take B m)"] less.prems assms(1)
    show ?thesis by (simp add: absorb_step)
  qed
qed

text \<open>Filling the buffer with as much of the input as it takes.\<close>

lemma absorb_fill_full:
  assumes "0 < B" "length p + k = B" "k \<le> length d"
  shows "absorb B cf h (p @ d) = absorb B cf (cf h (p @ take k d)) (drop k d)"
proof -
  have "p @ d = (p @ take k d) @ drop k d" by simp
  then have "absorb B cf h (p @ d) = absorb B cf h ((p @ take k d) @ drop k d)" by (rule arg_cong)
  then show ?thesis using absorb_block [of B "p @ take k d" cf h "drop k d"] assms
    by (simp del: append_take_drop_id)
qed

lemma mod_fill_full:
  fixes B :: nat
  assumes "q = n mod B" "q + k = B"
  shows "(n + k) mod B = 0" "n + k = n - q + B" "q \<le> n"
proof -
  have "(n + k) mod B = (n mod B + k) mod B" by (simp only: mod_add_left_eq)
  then show "(n + k) mod B = 0" by (simp add: assms(2) assms(1) [symmetric])
  show "q \<le> n" using assms(1) by simp
  then show "n + k = n - q + B" using assms(2) by simp
qed

lemma mod_fill_part:
  fixes B :: nat
  assumes "q = n mod B" "q + k < B"
  shows "(n + k) mod B = q + k" "n + k - (q + k) = n - q"
proof -
  have "(n + k) mod B = (n mod B + k) mod B" by (simp only: mod_add_left_eq)
  then show "(n + k) mod B = q + k" using assms by simp
  show "n + k - (q + k) = n - q" by simp
qed

lemma put_at_prefix: "take (length p) b = p \<Longrightarrow> take (length p + length x) (put_at (length p) x b) = p @ x"
  by (simp add: put_at_def min_def)

lemma put_at_full:
  "take (length p) b = p \<Longrightarrow> length p + length x = length b \<Longrightarrow> put_at (length p) x b = p @ x"
  by (simp add: put_at_def)

lemma put_at_append:
  "off + length x \<le> length b \<Longrightarrow> put_at (off + length x) y (put_at off x b) = put_at off (x @ y) b"
  by (cases x) (simp_all add: put_at_def min_def add.commute add.left_commute)

lemma put_at_one: "n < length b \<Longrightarrow> b[n := x] = put_at n [x] b"
  by (simp add: put_at_def upd_conv_take_nth_drop)

lemma bit_count:
  fixes l :: "'w::len word"
  assumes "l = of_nat (8 * (n - q))" "q \<le> n"
  shows "l + of_nat (q * 8) = of_nat (8 * n)"
  using assms by (simp only: of_nat_add [symmetric]) simp

text \<open>The padding fills the last block, or that block and another one.\<close>

lemma absorb_pad:
  assumes "lb < B" "length p = n mod B" "length (enc n) = lb"
  shows "fst (absorb B cf h (p @ md_pad B lb enc n)) =
    (if length p + 1 + lb \<le> B then cf h (p @ 0x80 # replicate (B - lb - 1 - length p) 0 @ enc n)
     else cf (cf h (p @ 0x80 # replicate (B - 1 - length p) 0)) (replicate (B - lb) 0 @ enc n))"
proof -
  have B: "0 < B" "length p < B" using assms by auto
  let ?z = "(2 * B - lb - 1 - length p) mod B"
  have pad: "md_pad B lb enc n = 0x80 # replicate ?z 0 @ enc n" by (simp add: md_pad_def assms(2))
  show ?thesis
  proof (cases "length p + 1 + lb \<le> B")
    case True
    then have "2 * B - lb - 1 - length p = B + (B - lb - 1 - length p)" by simp
    then have "?z = B - lb - 1 - length p" using B by (simp only: mod_add_self1) simp
    with True B assms(3) absorb_block [of B "p @ 0x80 # replicate ?z 0 @ enc n" cf h "[]"]
    show ?thesis by (simp add: pad absorb_short)
  next
    case False
    then have z: "?z = (B - 1 - length p) + (B - lb)" using B assms(1) by simp
    have "p @ md_pad B lb enc n =
      (p @ 0x80 # replicate (B - 1 - length p) 0) @ (replicate (B - lb) 0 @ enc n)"
      by (simp only: pad z replicate_add append_assoc append_Cons)
    with False B assms(1,3) absorb_block [of B "p @ 0x80 # replicate (B - 1 - length p) 0" cf h]
      absorb_block [of B "replicate (B - lb) 0 @ enc n" cf _ "[]"]
    show ?thesis by (simp add: absorb_short)
  qed
qed

text \<open>
  A bit count kept in two words of 32 bits: the low word is added to, the carry is seen by the
  sum being less than a summand, and the high bits of the length are added to the high word.
\<close>

lemma bit_count_add:
  fixes n len :: nat
  assumes "len < 2 ^ 32"
  defines "l \<equiv> push_bit 3 (of_nat len) :: u32" and "t \<equiv> of_nat (8 * n) :: u32"
  shows "t + l = of_nat (8 * (n + len))"
    and "t + l < l \<longleftrightarrow> t + l < t"
    and "(if t + l < t then of_nat (8 * n div 2 ^ 32) + 1 else of_nat (8 * n div 2 ^ 32)) + drop_bit 29 (of_nat len)
      = (of_nat (8 * (n + len) div 2 ^ 32) :: u32)"
proof -
  have l: "l = of_nat (8 * len)" by (simp add: l_def push_bit_eq_mult)
  show s: "t + l = of_nat (8 * (n + len))" by (simp add: l t_def)
  have u: "unat (of_nat k :: u32) = k mod 2 ^ 32" for k by (simp add: unat_of_nat)
  let ?A = "8 * n mod 2 ^ 32" and ?L = "8 * len mod 2 ^ 32"
  have lt: "?A < 2 ^ 32" "?L < 2 ^ 32" by simp_all
  have sum: "(8 * (n + len)) mod 2 ^ 32 = (?A + ?L) mod 2 ^ 32" by (simp only: distrib_left mod_add_eq)
  also have "\<dots> = (if ?A + ?L < 2 ^ 32 then ?A + ?L else ?A + ?L - 2 ^ 32)"
    using lt by (simp add: le_mod_geq)
  finally have v: "unat (t + l) = (if ?A + ?L < 2 ^ 32 then ?A + ?L else ?A + ?L - 2 ^ 32)"
    by (simp only: s u)
  have c: "t + l < t \<longleftrightarrow> 2 ^ 32 \<le> ?A + ?L" "t + l < l \<longleftrightarrow> 2 ^ 32 \<le> ?A + ?L"
    using lt unfolding word_less_nat_alt v by (auto simp only: l t_def u split: if_splits)
  then show "t + l < l \<longleftrightarrow> t + l < t" by simp
  have "8 * (n + len) div 2 ^ 32 = 8 * n div 2 ^ 32 + 8 * len div 2 ^ 32 + (?A + ?L) div 2 ^ 32"
    unfolding distrib_left by (rule div_add1_eq)
  moreover have "(?A + ?L) div 2 ^ 32 = (if t + l < t then 1 else 0)"
    using lt c by (auto simp: div_eq_dividend_iff intro: div_nat_eqI)
  moreover have "drop_bit 29 (of_nat len) = (of_nat (8 * len div 2 ^ 32) :: u32)"
    using assms(1) by (simp add: word_unat_eq_iff unat_drop_bit_eq u drop_bit_eq_div [where 'a = nat])
  ultimately show "(if t + l < t then of_nat (8 * n div 2 ^ 32) + 1 else of_nat (8 * n div 2 ^ 32)) + drop_bit 29 (of_nat len)
      = (of_nat (8 * (n + len) div 2 ^ 32) :: u32)"
    by simp
qed

text \<open>The number of bytes in the buffer, from the bit count.\<close>

lemma buffered:
  assumes "9 \<le> LENGTH('w::len)"
  shows "unat (drop_bit 3 (of_nat (8 * n) :: 'w word) AND 0x3f) = n mod 64"
proof -
  have m: "(0x3f :: 'w word) = mask 6" by (simp add: mask_eq_exp_minus_1)
  have w: "(of_nat (8 * n) :: 'w word) = of_nat (push_bit 3 n)" by (simp add: push_bit_eq_mult mult.commute)
  have "drop_bit 3 (of_nat (8 * n) :: 'w word) AND 0x3f = of_nat (take_bit 6 n)"
    unfolding m w by (rule bit_word_eqI) (use assms in \<open>auto simp: bit_simps\<close>)
  moreover have "take_bit 6 n < 2 ^ LENGTH('w)"
    using assms by (intro less_le_trans [OF take_bit_nat_less_exp power_increasing]) simp_all
  ultimately show ?thesis by (simp add: unat_of_nat) (simp add: take_bit_eq_mod)
qed

text \<open>The count as it is stored at the end of the padding.\<close>

lemma put_halves:
  "WPA_PUT_LE64 (of_nat k) = WPA_PUT_LE32 (of_nat k) @ WPA_PUT_LE32 (of_nat (k div 2 ^ 32))"
  "WPA_PUT_BE64 (of_nat k) = WPA_PUT_BE32 (of_nat (k div 2 ^ 32)) @ WPA_PUT_BE32 (of_nat k)"
proof -
  have m: "k div 2 ^ 32 = drop_bit 32 k" by (simp add: drop_bit_eq_div)
  show "WPA_PUT_LE64 (of_nat k) = WPA_PUT_LE32 (of_nat k) @ WPA_PUT_LE32 (of_nat (k div 2 ^ 32))"
    unfolding m WPA_PUT_LE64_def WPA_PUT_LE32_def
    by (simp add: low_byte, intro conjI; rule bit_word_eqI; simp add: bit_simps)
  show "WPA_PUT_BE64 (of_nat k) = WPA_PUT_BE32 (of_nat (k div 2 ^ 32)) @ WPA_PUT_BE32 (of_nat k)"
    unfolding m WPA_PUT_BE64_def WPA_PUT_BE32_def
    by (simp add: low_byte, intro conjI; rule bit_word_eqI; simp add: bit_simps)
qed

text \<open>Input that does not fill the buffer, and input that does.\<close>

lemma absorb_pieces:
  assumes "length p < B"
  shows "absorb B cf h (p @ d) =
    (if length p + length d < B then (h, p @ d)
     else absorb B cf (cf h (p @ take (B - length p) d)) (drop (B - length p) d))"
  using assms absorb_fill_full [of B p "B - length p" d cf h] by (auto simp: absorb_short)

section \<open>Interface\<close>

fun fold_outcome :: "('c \<Rightarrow> 'x \<Rightarrow> 'c outcome) \<Rightarrow> 'c \<Rightarrow> 'x list \<Rightarrow> 'c outcome" where
  "fold_outcome f c [] = Ret c"
| "fold_outcome f c (x # xs) = bind_outcome (f c x) (\<lambda>c'. fold_outcome f c' xs)"

lemma fold_outcome_Ret: "fold_outcome (\<lambda>c d. Ret (f c d)) c ds = Ret (fold (\<lambda>d c. f c d) ds c)"
  by (induction ds arbitrary: c) simp_all

text \<open>
  \<open>rel c (h, p, n)\<close>: the context has compressed all but the last bytes \<open>p\<close> of a message of \<open>n\<close>
  bytes, with the chaining value \<open>h\<close>. A piece of data has less than \<open>lim\<close> bytes.
\<close>

locale md_stream =
  fixes B :: nat and cf :: "'h \<Rightarrow> u8 list \<Rightarrow> 'h" and iv :: 'h
    and init :: 'c and update :: "'c \<Rightarrow> u8 list \<Rightarrow> 'c outcome"
    and rel :: "'c \<Rightarrow> 'h \<Rightarrow> u8 list \<Rightarrow> nat \<Rightarrow> bool" and lim :: nat
  assumes block: "0 < B"
    and rel_init: "rel init iv [] 0"
    and rel_update: "rel c h p n \<Longrightarrow> length d < lim \<Longrightarrow> absorb B cf h (p @ d) = (h', p') \<Longrightarrow>
      \<exists>c'. update c d = Ret c' \<and> rel c' h' p' (n + length d)"
begin

lemma updates:
  assumes "rel c h p n" "\<forall>d \<in> set ds. length d < lim"
  shows "\<exists>c' h' p'. fold_outcome update c ds = Ret c' \<and> rel c' h' p' (n + length (concat ds)) \<and>
    absorb B cf h (p @ concat ds) = absorb B cf h' p'"
  using assms
proof (induction ds arbitrary: c h p n)
  case (Cons d ds)
  obtain h1 p1 where a: "absorb B cf h (p @ d) = (h1, p1)" by fastforce
  obtain c1 where c1: "update c d = Ret c1" "rel c1 h1 p1 (n + length d)"
    using rel_update [OF Cons.prems(1) _ a] Cons.prems(2) by auto
  from Cons.IH [OF c1(2)] Cons.prems(2) obtain c' h' p' where
    "fold_outcome update c1 ds = Ret c'" "rel c' h' p' (n + length d + length (concat ds))"
    "absorb B cf h1 (p1 @ concat ds) = absorb B cf h' p'" by auto
  with c1 a absorb_append [of B cf h "p @ d" "concat ds"] show ?case by (auto simp: add.assoc)
qed auto

end

locale md_hash = md_stream +
  fixes final :: "'b \<Rightarrow> 'd outcome" and pad :: "nat \<Rightarrow> u8 list" and out :: "'a \<Rightarrow> 'd"
  assumes rel_final: "rel c h p n \<Longrightarrow> final c = Ret (out (fst (absorb B cf h (p @ pad n))))"
begin

lemma vector_digest:
  assumes "\<forall>d \<in> set ds. length d < lim"
  shows "bind_outcome (fold_outcome update init ds) final = Ret (md_digest B cf iv pad out (concat ds))"
proof -
  obtain c h p where c: "fold_outcome update init ds = Ret c" "rel c h p (length (concat ds))"
    "absorb B cf iv (concat ds) = absorb B cf h p"
    using updates [OF rel_init assms] by auto
  have "absorb B cf iv (concat ds @ pad (length (concat ds))) = absorb B cf h (p @ pad (length (concat ds)))"
    using c(3) absorb_append [of B cf iv "concat ds"] absorb_append [of B cf h p] by simp
  with c show ?thesis by (simp add: rel_final md_digest_def)
qed

end

end
