(* ===== verification/Sha2.thy ===== *)
theory Sha2
  imports Hash_Stream
begin

text \<open>
  The reference of the SHA-2 functions as the standard (FIPS 180-4) writes it: choice and
  majority, the recursive message schedule, the rounds on eight working variables, and
  rotations as rotations. It is common to SHA-256 and SHA-512, at both word sizes.
\<close>

definition fips_Ch :: "'w::len word \<Rightarrow> 'w word \<Rightarrow> 'w word \<Rightarrow> 'w word" where
  "fips_Ch x y z = (x AND y) XOR (NOT x AND z)"

definition fips_Maj :: "'w::len word \<Rightarrow> 'w word \<Rightarrow> 'w word \<Rightarrow> 'w word" where
  "fips_Maj x y z = (x AND y) XOR (x AND z) XOR (y AND z)"

definition fips_Sigma :: "nat \<Rightarrow> nat \<Rightarrow> nat \<Rightarrow> 'w::len word \<Rightarrow> 'w word" where
  "fips_Sigma i j k x = word_rotr i x XOR word_rotr j x XOR word_rotr k x"

definition fips_sigma :: "nat \<Rightarrow> nat \<Rightarrow> nat \<Rightarrow> 'w::len word \<Rightarrow> 'w word" where
  "fips_sigma i j k x = word_rotr i x XOR word_rotr j x XOR drop_bit k x"

function fips_W :: "('w::len word \<Rightarrow> 'w word) \<Rightarrow> ('w word \<Rightarrow> 'w word) \<Rightarrow> 'w word list \<Rightarrow> nat \<Rightarrow> 'w word" where
  "fips_W s0 s1 M t =
     (if t < 16 then M ! t
      else s1 (fips_W s0 s1 M (t - 2)) + fips_W s0 s1 M (t - 7) +
           s0 (fips_W s0 s1 M (t - 15)) + fips_W s0 s1 M (t - 16))"
  by pat_completeness auto
termination
  by (relation "measure (\<lambda>(_, _, _, t). t)") auto

declare fips_W.simps [simp del]

type_synonym 'a vars = "'a \<times> 'a \<times> 'a \<times> 'a \<times> 'a \<times> 'a \<times> 'a \<times> 'a"

fun to_vars :: "'a list \<Rightarrow> 'a vars" where
  "to_vars H = (H ! 0, H ! 1, H ! 2, H ! 3, H ! 4, H ! 5, H ! 6, H ! 7)"

fun of_vars :: "'a vars \<Rightarrow> 'a list" where
  "of_vars (a, b, c, d, e, f, g, h) = [a, b, c, d, e, f, g, h]"

fun fips_round ::
  "('w::len word \<Rightarrow> 'w word) \<Rightarrow> ('w word \<Rightarrow> 'w word) \<Rightarrow> 'w word list \<Rightarrow> (nat \<Rightarrow> 'w word) \<Rightarrow>
   nat \<Rightarrow> 'w word vars \<Rightarrow> 'w word vars" where
  "fips_round S0 S1 K W t (a, b, c, d, e, f, g, h) =
     (let t1 = h + S1 e + fips_Ch e f g + K ! t + W t;
          t2 = S0 a + fips_Maj a b c
      in (t1 + t2, a, b, c, d + t1, e, f, g))"

definition fips_compress ::
  "('w::len word \<Rightarrow> 'w word) \<Rightarrow> ('w word \<Rightarrow> 'w word) \<Rightarrow> ('w word \<Rightarrow> 'w word) \<Rightarrow> ('w word \<Rightarrow> 'w word) \<Rightarrow>
   'w word list \<Rightarrow> 'w word list \<Rightarrow> 'w word list \<Rightarrow> 'w word list" where
  "fips_compress S0 S1 s0 s1 K H M =
     map2 (+) H (of_vars (fold (fips_round S0 S1 K (fips_W s0 s1 M)) [0..<length K] (to_vars H)))"

section \<open>The forms the code uses\<close>

lemma choice_xor: "z XOR (x AND (y XOR z)) = fips_Ch x y (z :: 'w::len word)"
  unfolding fips_Ch_def by (rule bit_eqI) (auto simp: bit_simps)

lemma majority_or: "((x OR y) AND z) OR (x AND y) = fips_Maj x y (z :: 'w::len word)"
  unfolding fips_Maj_def by (rule bit_eqI) (auto simp: bit_simps)

lemma rotr_shifts:
  assumes "0 < n" "n < LENGTH('w::len)"
  shows "drop_bit n x OR push_bit (LENGTH('w) - n) x = word_rotr n (x :: 'w word)"
proof (rule bit_word_eqI)
  fix i
  assume "i < LENGTH('w)"
  show "bit (drop_bit n x OR push_bit (LENGTH('w) - n) x) i = bit (word_rotr n x) i"
  proof (cases "n + i < LENGTH('w)")
    case True
    with assms show ?thesis by (auto simp: bit_simps add.commute)
  next
    case False
    then have "(i + n) mod LENGTH('w) = i + n - LENGTH('w)"
      using \<open>i < LENGTH('w)\<close> assms by (simp add: le_mod_geq)
    with False assms \<open>i < LENGTH('w)\<close> show ?thesis
      by (auto simp: bit_simps add.commute dest: bit_imp_le_length)
  qed
qed

lemma rotl_shifts:
  assumes "0 < n" "n < LENGTH('w::len)"
  shows "push_bit n x OR drop_bit (LENGTH('w) - n) x = word_rotl n (x :: 'w word)"
  using rotr_shifts [of "LENGTH('w) - n" x] assms by (simp add: word_rotl_eq_word_rotr or.commute)

lemma rol32: "0 < n \<Longrightarrow> n < 32 \<Longrightarrow> push_bit n x OR drop_bit (32 - n) x = word_rotl n (x :: 32 word)"
  using rotl_shifts [of n x] by simp

lemma schedule_loop:
  assumes "length M = 16" "16 \<le> n"
  shows "fold (\<lambda>i W. W @ [s1 (W ! (i - 2)) + W ! (i - 7) + s0 (W ! (i - 15)) + W ! (i - 16)]) [16..<n] M
    = map (fips_W s0 s1 M) [0..<n]"
  using assms(2)
proof (induction n rule: dec_induct)
  case base
  show ?case by (rule nth_equalityI) (auto simp: assms fips_W.simps)
next
  case (step n)
  then show ?case by (simp add: fips_W.simps [of s0 s1 M n])
qed

lemma length_8: "length H = 8 \<Longrightarrow> \<exists>a b c d e f g h. H = [a, b, c, d, e, f, g, h]"
  by (auto simp: numeral_eq_Suc length_Suc_conv)

lemma of_to_vars: "length H = 8 \<Longrightarrow> of_vars (to_vars H) = H"
  by (auto dest: length_8)

lemma length_of_vars [simp]: "length (of_vars v) = 8"
  by (cases v rule: of_vars.cases) simp

lemma length_fips_compress [simp]: "length H = 8 \<Longrightarrow> length (fips_compress S0 S1 s0 s1 K H M) = 8"
  by (simp add: fips_compress_def)

text \<open>The rounds on an array are the rounds on the variables.\<close>

lemma rounds_loop:
  assumes "\<And>t v. t \<in> set ts \<Longrightarrow> rnd t (of_vars v) = of_vars (fips_round S0 S1 K W t v)"
  shows "fold rnd ts (of_vars v) = of_vars (fold (fips_round S0 S1 K W) ts v)"
  using assms by (induction ts arbitrary: v) simp_all

end
