(* ===== verification/Md4.thy ===== *)
theory Md4
  imports Sha2
begin

text \<open>
  MD4 (\<open>src/crypto/md4-internal.c\<close> of wpa\_supplicant), on a little-endian machine. The padding
  is made by two more updates, so the refinement of the update carries the final step too.
\<close>

section \<open>The implementation\<close>

record MD4Context =
  md4_state :: "u32 list"
  md4_count :: u64
  md4_buffer :: "u8 list"

definition PUT_64BIT_LE :: "u64 \<Rightarrow> u8 list" where
  "PUT_64BIT_LE value = [ucast value, ucast (drop_bit 8 value), ucast (drop_bit 16 value),
     ucast (drop_bit 24 value), ucast (drop_bit 32 value), ucast (drop_bit 40 value),
     ucast (drop_bit 48 value), ucast (drop_bit 56 value)]"

definition PUT_32BIT_LE :: "u32 \<Rightarrow> u8 list" where
  "PUT_32BIT_LE value = [ucast value, ucast (drop_bit 8 value), ucast (drop_bit 16 value),
     ucast (drop_bit 24 value)]"

definition md4_PADDING :: "u8 list" where
  "md4_PADDING = 0x80 # replicate 63 0"

definition md4_F1 :: "u32 \<Rightarrow> u32 \<Rightarrow> u32 \<Rightarrow> u32" where
  "md4_F1 x y z = z XOR (x AND (y XOR z))"

definition md4_F2 :: "u32 \<Rightarrow> u32 \<Rightarrow> u32 \<Rightarrow> u32" where
  "md4_F2 x y z = (x AND y) OR (x AND z) OR (y AND z)"

definition md4_F3 :: "u32 \<Rightarrow> u32 \<Rightarrow> u32 \<Rightarrow> u32" where
  "md4_F3 x y z = x XOR y XOR z"

text \<open>One step; as in MD5, the variables are returned in the order of the next step.\<close>

fun MD4STEP :: "(u32 \<Rightarrow> u32 \<Rightarrow> u32 \<Rightarrow> u32) \<Rightarrow> u32 list \<Rightarrow> nat \<times> u32 \<times> nat \<Rightarrow>
    u32 \<times> u32 \<times> u32 \<times> u32 \<Rightarrow> u32 \<times> u32 \<times> u32 \<times> u32" where
  "MD4STEP f inp (k, c, s) (w, x, y, z) =
     (let w = w + (f x y z + (inp ! k + c));
          w = push_bit s w OR drop_bit (32 - s) w
      in (z, w, x, y))"

definition md4_steps1 :: "(nat \<times> u32 \<times> nat) list" where
  "md4_steps1 =
    [(0, 0, 3), (1, 0, 7), (2, 0, 11), (3, 0, 19),
     (4, 0, 3), (5, 0, 7), (6, 0, 11), (7, 0, 19),
     (8, 0, 3), (9, 0, 7), (10, 0, 11), (11, 0, 19),
     (12, 0, 3), (13, 0, 7), (14, 0, 11), (15, 0, 19)]"

definition md4_steps2 :: "(nat \<times> u32 \<times> nat) list" where
  "md4_steps2 =
    [(0, 0x5a827999, 3), (4, 0x5a827999, 5), (8, 0x5a827999, 9), (12, 0x5a827999, 13),
     (1, 0x5a827999, 3), (5, 0x5a827999, 5), (9, 0x5a827999, 9), (13, 0x5a827999, 13),
     (2, 0x5a827999, 3), (6, 0x5a827999, 5), (10, 0x5a827999, 9), (14, 0x5a827999, 13),
     (3, 0x5a827999, 3), (7, 0x5a827999, 5), (11, 0x5a827999, 9), (15, 0x5a827999, 13)]"

definition md4_steps3 :: "(nat \<times> u32 \<times> nat) list" where
  "md4_steps3 =
    [(0, 0x6ed9eba1, 3), (8, 0x6ed9eba1, 9), (4, 0x6ed9eba1, 11), (12, 0x6ed9eba1, 15),
     (2, 0x6ed9eba1, 3), (10, 0x6ed9eba1, 9), (6, 0x6ed9eba1, 11), (14, 0x6ed9eba1, 15),
     (1, 0x6ed9eba1, 3), (9, 0x6ed9eba1, 9), (5, 0x6ed9eba1, 11), (13, 0x6ed9eba1, 15),
     (3, 0x6ed9eba1, 3), (11, 0x6ed9eba1, 9), (7, 0x6ed9eba1, 11), (15, 0x6ed9eba1, 15)]"

definition MD4Transform :: "u32 list \<Rightarrow> u8 list \<Rightarrow> u32 list" where
  "MD4Transform state block =
     (let inp = map (\<lambda>i. WPA_GET_LE32 (drop (4 * i) block)) [0..<16];
          v = (state ! 0, state ! 1, state ! 2, state ! 3);
          v = fold (MD4STEP md4_F1 inp) md4_steps1 v;
          v = fold (MD4STEP md4_F2 inp) md4_steps2 v;
          (a, b, c, d) = fold (MD4STEP md4_F3 inp) md4_steps3 v
      in [state ! 0 + a, state ! 1 + b, state ! 2 + c, state ! 3 + d])"

definition MD4Init :: MD4Context where
  "MD4Init = \<lparr>md4_state = [0x67452301, 0xefcdab89, 0x98badcfe, 0x10325476], md4_count = 0,
     md4_buffer = replicate 64 0\<rparr>"

function md4_chunks :: "u32 list \<Rightarrow> u8 list \<Rightarrow> u32 list \<times> u8 list" where
  "md4_chunks state input =
     (if 64 \<le> length input then md4_chunks (MD4Transform state (take 64 input)) (drop 64 input)
      else (state, input))"
  by pat_completeness auto
termination
  by (relation "measure (\<lambda>(_, input). length input)") auto

declare md4_chunks.simps [simp del]

definition MD4Update :: "MD4Context \<Rightarrow> u8 list \<Rightarrow> MD4Context" where
  "MD4Update ctx input =
     (let have = unat (drop_bit 3 (md4_count ctx) AND 0x3f);
          need = 64 - have;
          ctx = ctx\<lparr>md4_count := md4_count ctx + push_bit 3 (of_nat (length input))\<rparr>;
          (ctx, input, have) =
            (if need \<le> length input then
               let (ctx, input, have) =
                     (if have \<noteq> 0 then
                        let buf = put_at have (take need input) (md4_buffer ctx)
                        in (ctx\<lparr>md4_buffer := buf, md4_state := MD4Transform (md4_state ctx) buf\<rparr>,
                            drop need input, 0)
                      else (ctx, input, have));
                   (state, input) = md4_chunks (md4_state ctx) input
               in (ctx\<lparr>md4_state := state\<rparr>, input, have)
             else (ctx, input, have))
      in if input \<noteq> [] then ctx\<lparr>md4_buffer := put_at have input (md4_buffer ctx)\<rparr> else ctx)"

definition MD4Pad :: "MD4Context \<Rightarrow> MD4Context" where
  "MD4Pad ctx =
     (let count = PUT_64BIT_LE (md4_count ctx);
          padlen = 64 - unat (drop_bit 3 (md4_count ctx) AND 0x3f);
          padlen = (if padlen < 1 + 8 then padlen + 64 else padlen);
          ctx = MD4Update ctx (take (padlen - 8) md4_PADDING)
      in MD4Update ctx count)"

definition MD4Final :: "MD4Context \<Rightarrow> u8 list" where
  "MD4Final ctx =
     (let ctx = MD4Pad ctx in concat (map (\<lambda>i. PUT_32BIT_LE (md4_state ctx ! i)) [0..<4]))"

definition md4_vector :: "u8 list list \<Rightarrow> u8 list" where
  "md4_vector addr = MD4Final (fold (\<lambda>d ctx. MD4Update ctx d) addr MD4Init)"

section \<open>Compression\<close>

text \<open>The steps as RFC 1320 gives them, by the number of the step.\<close>

fun rfc1320_f :: "nat \<Rightarrow> u32 \<Rightarrow> u32 \<Rightarrow> u32 \<Rightarrow> u32" where
  "rfc1320_f i x y z =
     (if i < 16 then (x AND y) OR (NOT x AND z)
      else if i < 32 then (x AND y) OR (x AND z) OR (y AND z)
      else x XOR y XOR z)"

definition rfc1320_k :: "nat \<Rightarrow> nat" where
  "rfc1320_k i =
     (if i < 16 then i
      else if i < 32 then 4 * (i mod 4) + (i - 16) div 4
      else 8 * (i mod 2) + 4 * (i div 2 mod 2) + 2 * (i div 4 mod 2) + i div 8 mod 2)"

definition rfc1320_s :: "nat \<Rightarrow> nat" where
  "rfc1320_s i =
     (if i < 16 then [3, 7, 11, 19] else if i < 32 then [3, 5, 9, 13] else [3, 9, 11, 15]) ! (i mod 4)"

definition rfc1320_c :: "nat \<Rightarrow> u32" where
  "rfc1320_c i = (if i < 16 then 0 else if i < 32 then 0x5a827999 else 0x6ed9eba1)"

fun rfc1320_step :: "u32 list \<Rightarrow> nat \<Rightarrow> u32 \<times> u32 \<times> u32 \<times> u32 \<Rightarrow> u32 \<times> u32 \<times> u32 \<times> u32" where
  "rfc1320_step X i (a, b, c, d) =
     (d, word_rotl (rfc1320_s i) (a + rfc1320_f i b c d + X ! rfc1320_k i + rfc1320_c i), b, c)"

definition rfc1320_compress :: "u32 list \<Rightarrow> u8 list \<Rightarrow> u32 list" where
  "rfc1320_compress h blk =
     (case fold (rfc1320_step (map (\<lambda>i. WPA_GET_LE32 (drop (4 * i) blk)) [0..<16])) [0..<48] (h ! 0, h ! 1, h ! 2, h ! 3) of
        (a, b, c, d) \<Rightarrow> map2 (+) h [a, b, c, d])"

lemma md4_F1_rfc1320: "md4_F1 x y z = (x AND y) OR (NOT x AND z)"
  by (rule bit_word_eqI) (auto simp: md4_F1_def bit_simps)

lemma rfc1320_shift: "0 < rfc1320_s i \<and> rfc1320_s i < 32"
proof -
  have "i mod 4 \<in> {0, 1, 2, 3}" by auto
  then show ?thesis by (auto simp: rfc1320_s_def)
qed

lemma MD4STEP_rfc1320:
  assumes "\<And>x y z. f x y z = rfc1320_f i x y z"
  shows "MD4STEP f X (rfc1320_k i, rfc1320_c i, rfc1320_s i) v = rfc1320_step X i v"
  using rfc1320_shift [of i] by (cases v) (simp add: assms Let_def add_ac rol32 del: rfc1320_f.simps)

lemma md4_steps:
  "md4_steps1 = map (\<lambda>i. (rfc1320_k i, rfc1320_c i, rfc1320_s i)) [0..<16]"
  "md4_steps2 = map (\<lambda>i. (rfc1320_k i, rfc1320_c i, rfc1320_s i)) [16..<32]"
  "md4_steps3 = map (\<lambda>i. (rfc1320_k i, rfc1320_c i, rfc1320_s i)) [32..<48]"
  by code_simp+

lemma md4_rounds:
  assumes "steps = map (\<lambda>i. (rfc1320_k i, rfc1320_c i, rfc1320_s i)) [lo..<hi]"
    and "\<And>i x y z. lo \<le> i \<Longrightarrow> i < hi \<Longrightarrow> f x y z = rfc1320_f i x y z"
  shows "fold (MD4STEP f M) steps v = fold (rfc1320_step M) [lo..<hi] v"
  unfolding assms(1) fold_map using assms(2) by (intro fold_cong) (auto intro!: MD4STEP_rfc1320)

lemma MD4Transform_rfc1320:
  assumes "length h = 4"
  shows "MD4Transform h b = rfc1320_compress h b"
proof -
  have split: "[0..<48] = [0..<16] @ [16..<32] @ [32..<48]"
    by code_simp
  have sum: "[h ! 0 + a, h ! 1 + b, h ! 2 + c, h ! 3 + d] = map2 (+) h [a, b, c, d]" for a b c d
    using assms by (auto simp: numeral_eq_Suc length_Suc_conv)
  have rounds: "fold (MD4STEP md4_F1 X) md4_steps1 v = fold (rfc1320_step X) [0..<16] v"
    "fold (MD4STEP md4_F2 X) md4_steps2 v = fold (rfc1320_step X) [16..<32] v"
    "fold (MD4STEP md4_F3 X) md4_steps3 v = fold (rfc1320_step X) [32..<48] v" for X v
    by (rule md4_rounds, rule md4_steps, simp add: md4_F1_rfc1320 md4_F2_def md4_F3_def)+
  show ?thesis
    unfolding MD4Transform_def Let_def rounds rfc1320_compress_def split fold_append o_def sum by (rule refl)
qed

lemma length_rfc1320_compress [simp]: "length h = 4 \<Longrightarrow> length (rfc1320_compress h b) = 4"
  by (simp add: rfc1320_compress_def split: prod.split)

section \<open>Refinement\<close>

definition md4_rel :: "MD4Context \<Rightarrow> u32 list \<Rightarrow> u8 list \<Rightarrow> nat \<Rightarrow> bool" where
  "md4_rel ctx h p n \<longleftrightarrow>
     md4_state ctx = h \<and> length h = 4 \<and> length (md4_buffer ctx) = 64 \<and>
     take (length p) (md4_buffer ctx) = p \<and> length p = n mod 64 \<and> md4_count ctx = of_nat (8 * n)"

lemma md4_chunks_absorb:
  "length h = 4 \<Longrightarrow> md4_chunks h input = absorb 64 rfc1320_compress h input"
proof (induction h input rule: md4_chunks.induct)
  case (1 h input)
  show ?case
  proof (cases "64 \<le> length input")
    case True
    then show ?thesis
      using 1 by (simp add: md4_chunks.simps [of h input] absorb_step [of 64 input] MD4Transform_rfc1320)
  next
    case False
    then show ?thesis by (simp add: md4_chunks.simps [of h input] absorb_short)
  qed
qed

lemma md4_update_rel:
  assumes rel: "md4_rel ctx h p n" and abs: "absorb 64 rfc1320_compress h (p @ d) = (h', p')"
  shows "md4_rel (MD4Update ctx d) h' p' (n + length d)"
proof -
  have st: "md4_state ctx = h" "length h = 4" and buf: "length (md4_buffer ctx) = 64" "take (length p) (md4_buffer ctx) = p"
    and pm: "length p = n mod 64" and bits: "md4_count ctx = of_nat (8 * n)"
    using rel unfolding md4_rel_def by blast+
  have lt: "length p < 64" using pm by simp
  have pm': "length p' = (n + length d) mod 64" and lt': "length p' < 64"
    using absorb_rest_length [OF _ abs] by (simp_all add: pm mod_add_left_eq)
  have h': "length h' = 4"
    using absorb_keeps [of "\<lambda>h. length h = 4" rfc1320_compress h 64 "p @ d"] st abs by simp
  have cnt: "unat (drop_bit 3 (md4_count ctx) AND 0x3f) = length p"
    unfolding bits pm by (rule buffered) simp
  have add: "md4_count ctx + push_bit 3 (of_nat (length d)) = of_nat (8 * (n + length d))"
    by (simp add: bits push_bit_eq_mult)
  have store: "take (length p') (put_at 0 p' b) = p'" for b :: "u8 list"
    using put_at_prefix [of "[]" b p'] by simp
  let ?k = "64 - length p"
  let ?b = "p @ take ?k d"
  consider (part) "length p + length d < 64" | (full) "64 \<le> length p + length d" "p \<noteq> []" | (none) "p = []" "64 \<le> length d"
    by fastforce
  then show ?thesis
  proof cases
    case part
    with abs have "h' = h" "p' = p @ d" by (simp_all add: absorb_short)
    moreover have "\<not> ?k \<le> length d" using part by simp
    ultimately show ?thesis
      using part buf pm' put_at_prefix [OF buf(2), of d] st
      by (auto simp: MD4Update_def Let_def cnt add md4_rel_def simp del: of_nat_mult of_nat_add)
  next
    case full
    have b: "put_at (length p) (take ?k d) (md4_buffer ctx) = ?b"
      using full buf lt by (simp add: put_at_full)
    have "absorb 64 rfc1320_compress (rfc1320_compress h ?b) (drop ?k d) = (h', p')"
      using abs full by (simp add: absorb_pieces [OF lt])
    then show ?thesis
      using full lt lt' h' st pm' store
      by (auto simp: MD4Update_def Let_def cnt add b md4_rel_def MD4Transform_rfc1320 md4_chunks_absorb
          simp del: of_nat_mult of_nat_add)
  next
    case none
    with abs lt' h' st pm' store buf show ?thesis
      by (auto simp: MD4Update_def Let_def cnt add md4_rel_def md4_chunks_absorb simp del: of_nat_mult of_nat_add)
  qed
qed

lemma put_bits_le: "PUT_64BIT_LE v = WPA_PUT_LE64 v" "PUT_32BIT_LE w = WPA_PUT_LE32 w"
  by (simp_all add: PUT_64BIT_LE_def WPA_PUT_LE64_def PUT_32BIT_LE_def WPA_PUT_LE32_def low_byte)

definition md4_pad :: "nat \<Rightarrow> u8 list" where
  "md4_pad = md_pad 64 8 (\<lambda>n. WPA_PUT_LE64 (of_nat (8 * n)))"

text \<open>The length of the padding: up to 56 bytes modulo 64, and at least one.\<close>

lemma md4_padding:
  assumes "q < 64"
  shows "take ((if 64 - q < 1 + 8 then 64 - q + 64 else 64 - q) - 8) md4_PADDING
    = 0x80 # replicate ((2 * 64 - 8 - 1 - q) mod 64) 0"
proof (cases "q < 56")
  case True
  then have e: "2 * 64 - 8 - 1 - q = 64 + (55 - q)" and s: "64 - q - 8 = Suc (55 - q)" by simp_all
  from True have "(2 * 64 - 8 - 1 - q) mod 64 = 55 - q" by (simp only: e mod_add_self1) simp
  with True s show ?thesis by (simp add: md4_PADDING_def)
next
  case False
  then have e: "(if 64 - q < 1 + 8 then 64 - q + 64 else 64 - q) - 8 = Suc (119 - q)" and lt: "119 - q < 64"
    using assms by auto
  from lt show ?thesis unfolding e md4_PADDING_def by simp
qed

lemma md4_final_rel:
  assumes rel: "md4_rel ctx h p n"
  shows "MD4Final ctx = concat (map WPA_PUT_LE32 (fst (absorb 64 rfc1320_compress h (p @ md4_pad n))))"
proof -
  have pm: "length p = n mod 64" and bits: "md4_count ctx = of_nat (8 * n)"
    using rel unfolding md4_rel_def by blast+
  have cnt: "unat (drop_bit 3 (md4_count ctx) AND 0x3f) = n mod 64"
    unfolding bits by (rule buffered) simp
  let ?d = "(0x80 :: u8) # replicate ((2 * 64 - 8 - 1 - n mod 64) mod 64) 0" and ?c = "WPA_PUT_LE64 (of_nat (8 * n))"
  obtain h1 p1 where a1: "absorb 64 rfc1320_compress h (p @ ?d) = (h1, p1)" by fastforce
  obtain h2 p2 where a2: "absorb 64 rfc1320_compress h1 (p1 @ ?c) = (h2, p2)" by fastforce
  have pad: "MD4Pad ctx = MD4Update (MD4Update ctx ?d) ?c"
    using md4_padding [of "n mod 64"] unfolding MD4Pad_def Let_def cnt put_bits_le unfolding bits by simp
  have "md4_rel (MD4Pad ctx) h2 p2 (n + length ?d + length ?c)"
    unfolding pad by (intro md4_update_rel [OF _ a2] md4_update_rel [OF rel a1])
  then have st: "md4_state (MD4Pad ctx) = h2" "length h2 = 4" by (auto simp: md4_rel_def)
  have "absorb 64 rfc1320_compress h (p @ md4_pad n) = (h2, p2)"
    using absorb_append [of 64 rfc1320_compress h "p @ ?d" ?c] a1 a2 by (simp add: md4_pad_def md_pad_def)
  moreover have "map (\<lambda>i. WPA_PUT_LE32 (h2 ! i)) [0..<4] = map WPA_PUT_LE32 h2"
    using st(2) by (auto simp: numeral_eq_Suc length_Suc_conv)
  ultimately show ?thesis by (simp add: MD4Final_def Let_def st put_bits_le)
qed

lemma md4_rel_init: "md4_rel MD4Init (md4_state MD4Init) [] 0"
  by (simp add: md4_rel_def MD4Init_def)

interpretation md4: md_hash 64 rfc1320_compress "md4_state MD4Init" MD4Init
  "\<lambda>ctx d. Ret (MD4Update ctx d)" md4_rel "2 ^ 32" "\<lambda>ctx. Ret (MD4Final ctx)" md4_pad "\<lambda>h. concat (map WPA_PUT_LE32 h)"
  by unfold_locales (auto simp: md4_final_rel md4_rel_init intro: md4_update_rel)

section \<open>The digest\<close>

definition rfc1320_md4 :: "u8 list \<Rightarrow> u8 list" where
  "rfc1320_md4 = md_digest 64 rfc1320_compress (md4_state MD4Init) md4_pad (\<lambda>h. concat (map WPA_PUT_LE32 h))"

text \<open>
  \<open>md4_vector\<close> returns the MD4 digest of the concatenation of its data areas, as RFC 1320
  defines it on one message.
\<close>

theorem md4_vector_rfc1320:
  assumes "\<forall>d \<in> set addr. length d < 2 ^ 32"
  shows "md4_vector addr = rfc1320_md4 (concat addr) \<and> length (md4_vector addr) = 16"
proof -
  have "md4_vector addr = rfc1320_md4 (concat addr)"
    using md4.vector_digest [OF assms] by (simp add: fold_outcome_Ret md4_vector_def rfc1320_md4_def)
  moreover have "length (fst (absorb 64 rfc1320_compress (md4_state MD4Init) m)) = 4" for m
    by (rule absorb_keeps) (simp_all add: MD4Init_def)
  ultimately show ?thesis
    by (simp add: rfc1320_md4_def md_digest_def length_concat o_def sum_list_triv)
qed

lemma md4_vector_rfc1320_witness:
  "md4_vector [[0x61], [], [0x62, 0x63]] = rfc1320_md4 [0x61, 0x62, 0x63]"
  using md4_vector_rfc1320 [of "[[0x61], [], [0x62, 0x63]]"] by simp

end
