(* ===== verification/Sha256.thy ===== *)
theory Sha256
  imports Sha2
begin

text \<open>
  SHA-256 (\<open>src/crypto/sha256-internal.c\<close>, \<open>sha256_i.h\<close> of wpa\_supplicant): the context, the
  compression function, the buffering of the input and the padding, and their refinement of
  the standard's hash of the concatenated input.
\<close>

section \<open>The implementation\<close>

definition SHA256_BLOCK_SIZE :: nat where
  "SHA256_BLOCK_SIZE = 64"

text \<open>\<open>curlen\<close> is the number of bytes waiting in \<open>buf\<close>, \<open>length\<close> counts the compressed bits.\<close>

record sha256_state =
  sha256_length :: u64
  sha256_state :: "u32 list"
  sha256_curlen :: nat
  sha256_buf :: "u8 list"

definition sha256_K :: "u32 list" where
  "sha256_K = concat
    [[0x428a2f98, 0x71374491, 0xb5c0fbcf, 0xe9b5dba5, 0x3956c25b], [0x59f111f1, 0x923f82a4, 0xab1c5ed5, 0xd807aa98, 0x12835b01],
     [0x243185be, 0x550c7dc3, 0x72be5d74, 0x80deb1fe, 0x9bdc06a7], [0xc19bf174, 0xe49b69c1, 0xefbe4786, 0x0fc19dc6, 0x240ca1cc],
     [0x2de92c6f, 0x4a7484aa, 0x5cb0a9dc, 0x76f988da, 0x983e5152], [0xa831c66d, 0xb00327c8, 0xbf597fc7, 0xc6e00bf3, 0xd5a79147],
     [0x06ca6351, 0x14292967, 0x27b70a85, 0x2e1b2138, 0x4d2c6dfc], [0x53380d13, 0x650a7354, 0x766a0abb, 0x81c2c92e, 0x92722c85],
     [0xa2bfe8a1, 0xa81a664b, 0xc24b8b70, 0xc76c51a3, 0xd192e819], [0xd6990624, 0xf40e3585, 0x106aa070, 0x19a4c116, 0x1e376c08],
     [0x2748774c, 0x34b0bcb5, 0x391c0cb3, 0x4ed8aa4a, 0x5b9cca4f], [0x682e6ff3, 0x748f82ee, 0x78a5636f, 0x84c87814, 0x8cc70208],
     [0x90befffa, 0xa4506ceb, 0xbef9a3f7, 0xc67178f2]]"

definition RORc :: "u32 \<Rightarrow> nat \<Rightarrow> u32" where
  "RORc x y = drop_bit (y mod 32) x OR push_bit (32 - y mod 32) x"

definition sha256_Ch :: "u32 \<Rightarrow> u32 \<Rightarrow> u32 \<Rightarrow> u32" where
  "sha256_Ch x y z = z XOR (x AND (y XOR z))"

definition sha256_Maj :: "u32 \<Rightarrow> u32 \<Rightarrow> u32 \<Rightarrow> u32" where
  "sha256_Maj x y z = ((x OR y) AND z) OR (x AND y)"

definition sha256_Sigma0 :: "u32 \<Rightarrow> u32" where
  "sha256_Sigma0 x = RORc x 2 XOR RORc x 13 XOR RORc x 22"

definition sha256_Sigma1 :: "u32 \<Rightarrow> u32" where
  "sha256_Sigma1 x = RORc x 6 XOR RORc x 11 XOR RORc x 25"

definition sha256_Gamma0 :: "u32 \<Rightarrow> u32" where
  "sha256_Gamma0 x = RORc x 7 XOR RORc x 18 XOR drop_bit 3 x"

definition sha256_Gamma1 :: "u32 \<Rightarrow> u32" where
  "sha256_Gamma1 x = RORc x 17 XOR RORc x 19 XOR drop_bit 10 x"

text \<open>The array \<open>W\<close> is filled from the front, so the list grows by one word in each round.\<close>

definition sha256_fill :: "u8 list \<Rightarrow> u32 list" where
  "sha256_fill buf =
     fold (\<lambda>i W. W @ [sha256_Gamma1 (W ! (i - 2)) + W ! (i - 7) + sha256_Gamma0 (W ! (i - 15)) + W ! (i - 16)])
       [16..<64] (map (\<lambda>i. WPA_GET_BE32 (drop (4 * i) buf)) [0..<16])"

text \<open>One round and the rotation of \<open>S\<close> that follows it.\<close>

fun sha256_rnd :: "u32 list \<Rightarrow> nat \<Rightarrow> u32 list \<Rightarrow> u32 list" where
  "sha256_rnd W i [a, b, c, d, e, f, g, h] =
     (let t0 = h + sha256_Sigma1 e + sha256_Ch e f g + sha256_K ! i + W ! i;
          t1 = sha256_Sigma0 a + sha256_Maj a b c;
          d = d + t0;
          h = t0 + t1
      in [h, a, b, c, d, e, f, g])"
| "sha256_rnd W i S = S"

definition sha256_compress :: "u32 list \<Rightarrow> u8 list \<Rightarrow> u32 list" where
  "sha256_compress state buf =
     (let W = sha256_fill buf; S = fold (sha256_rnd W) [0..<64] state in map2 (+) state S)"

definition sha256_init :: sha256_state where
  "sha256_init = \<lparr>sha256_length = 0,
     sha256_state = [0x6A09E667, 0xBB67AE85, 0x3C6EF372, 0xA54FF53A,
       0x510E527F, 0x9B05688C, 0x1F83D9AB, 0x5BE0CD19],
     sha256_curlen = 0, sha256_buf = replicate 64 0\<rparr>"

text \<open>
  The loop of \<open>sha256_process\<close>. With a full buffer it would neither store nor compress
  anything; the caller excludes that, and here it is reported as an access out of bounds.
\<close>

function sha256_loop :: "sha256_state \<Rightarrow> u8 list \<Rightarrow> sha256_state outcome" where
  "sha256_loop md inp =
     (if inp = [] then Ret md
      else if SHA256_BLOCK_SIZE \<le> sha256_curlen md then OutOfBounds
      else if sha256_curlen md = 0 \<and> SHA256_BLOCK_SIZE \<le> length inp then
        sha256_loop
          (md\<lparr>sha256_state := sha256_compress (sha256_state md) (take SHA256_BLOCK_SIZE inp),
              sha256_length := sha256_length md + of_nat (SHA256_BLOCK_SIZE * 8)\<rparr>)
          (drop SHA256_BLOCK_SIZE inp)
      else
        let n = min (length inp) (SHA256_BLOCK_SIZE - sha256_curlen md);
            md = md\<lparr>sha256_buf := put_at (sha256_curlen md) (take n inp) (sha256_buf md),
                    sha256_curlen := sha256_curlen md + n\<rparr>;
            md = (if sha256_curlen md = SHA256_BLOCK_SIZE
                  then md\<lparr>sha256_state := sha256_compress (sha256_state md) (sha256_buf md),
                          sha256_length := sha256_length md + of_nat (8 * SHA256_BLOCK_SIZE),
                          sha256_curlen := 0\<rparr>
                  else md)
        in sha256_loop md (drop n inp))"
  by pat_completeness auto
termination
  by (relation "measure (\<lambda>(_, inp). length inp)") (auto simp: SHA256_BLOCK_SIZE_def)

declare sha256_loop.simps [simp del]

definition sha256_process :: "sha256_state \<Rightarrow> u8 list \<Rightarrow> sha256_state outcome" where
  "sha256_process md inp =
     (if length (sha256_buf md) \<le> sha256_curlen md then Err (-1) else sha256_loop md inp)"

definition sha256_done :: "sha256_state \<Rightarrow> u8 list outcome" where
  "sha256_done md =
     (if length (sha256_buf md) \<le> sha256_curlen md then Err (-1)
      else
        let len = sha256_length md + of_nat (sha256_curlen md * 8);
            buf = (sha256_buf md)[sha256_curlen md := 0x80];
            cur = sha256_curlen md + 1;
            (state, buf, cur) =
              (if 56 < cur
               then let buf = put_at cur (replicate (SHA256_BLOCK_SIZE - cur) 0) buf
                    in (sha256_compress (sha256_state md) buf, buf, 0)
               else (sha256_state md, buf, cur));
            buf = put_at cur (replicate (56 - cur) 0) buf;
            buf = put_at 56 (WPA_PUT_BE64 len) buf;
            state = sha256_compress state buf
        in Ret (concat (map WPA_PUT_BE32 state)))"

definition sha256_vector :: "u8 list list \<Rightarrow> u8 list outcome" where
  "sha256_vector addr = bind_outcome (fold_outcome sha256_process sha256_init addr) sha256_done"

section \<open>Compression\<close>

lemma RORc_rotr: "0 < y \<Longrightarrow> y < 32 \<Longrightarrow> RORc x y = word_rotr y x"
  using rotr_shifts [of y x] by (simp add: RORc_def)

definition fips256_compress :: "u32 list \<Rightarrow> u8 list \<Rightarrow> u32 list" where
  "fips256_compress H b =
     fips_compress (fips_Sigma 2 13 22) (fips_Sigma 6 11 25) (fips_sigma 7 18 3) (fips_sigma 17 19 10)
       sha256_K H (map (\<lambda>i. WPA_GET_BE32 (drop (4 * i) b)) [0..<16])"

lemma sha256_functions:
  "sha256_Sigma0 = fips_Sigma 2 13 22" "sha256_Sigma1 = fips_Sigma 6 11 25"
  "sha256_Gamma0 = fips_sigma 7 18 3" "sha256_Gamma1 = fips_sigma 17 19 10"
  "sha256_Ch = fips_Ch" "sha256_Maj = fips_Maj"
  by (simp_all add: fun_eq_iff sha256_Sigma0_def sha256_Sigma1_def sha256_Gamma0_def sha256_Gamma1_def
    fips_Sigma_def fips_sigma_def RORc_rotr sha256_Ch_def sha256_Maj_def choice_xor majority_or)

lemma sha256_fill_W:
  "sha256_fill b = map (fips_W (fips_sigma 7 18 3) (fips_sigma 17 19 10)
     (map (\<lambda>i. WPA_GET_BE32 (drop (4 * i) b)) [0..<16])) [0..<64]"
  unfolding sha256_fill_def sha256_functions by (rule schedule_loop) simp_all

lemma sha256_compress_fips:
  assumes "length H = 8"
  shows "sha256_compress H b = fips256_compress H b"
proof -
  have "sha256_rnd (map W [0..<64]) t (of_vars v) =
      of_vars (fips_round sha256_Sigma0 sha256_Sigma1 sha256_K W t v)" if "t \<in> set [0..<64]" for W t v
    using that by (cases v rule: of_vars.cases) (simp add: Let_def sha256_functions)
  note rounds_loop [OF this, where v = "to_vars H"]
  moreover have "length sha256_K = 64" by (simp add: sha256_K_def)
  ultimately show ?thesis
    by (simp only: sha256_compress_def Let_def fips256_compress_def fips_compress_def sha256_fill_W
        sha256_functions of_to_vars [OF assms])
qed

lemma length_sha256_compress [simp]: "length H = 8 \<Longrightarrow> length (sha256_compress H b) = 8"
  by (simp add: sha256_compress_fips fips256_compress_def)

section \<open>Refinement\<close>

definition sha256_rel :: "sha256_state \<Rightarrow> u32 list \<Rightarrow> u8 list \<Rightarrow> nat \<Rightarrow> bool" where
  "sha256_rel md h p n \<longleftrightarrow>
     sha256_state md = h \<and> length h = 8 \<and> length (sha256_buf md) = 64 \<and>
     sha256_curlen md = length p \<and> take (length p) (sha256_buf md) = p \<and> length p = n mod 64 \<and>
     sha256_length md = of_nat (8 * (n - length p))"

lemma sha256_loop_rel:
  assumes "sha256_rel md h p n"
  shows "\<exists>md'. sha256_loop md d = Ret md' \<and>
    sha256_rel md' (fst (absorb 64 fips256_compress h (p @ d))) (snd (absorb 64 fips256_compress h (p @ d))) (n + length d)"
  using assms
proof (induction "length d" arbitrary: md h p n d rule: less_induct)
  case (less inp)
  have st: "sha256_state md = h" and h8: "length h = 8" and bl: "length (sha256_buf md) = 64"
    and cur: "sha256_curlen md = length p" and tk: "take (length p) (sha256_buf md) = p"
    and pm: "length p = n mod 64" and ln: "sha256_length md = of_nat (8 * (n - length p))"
    using less.prems unfolding sha256_rel_def by blast+
  note R = st h8 bl cur tk ln
  have lt: "length p < 64" "length p \<le> n" using pm by simp_all
  consider (stop) "inp = []" | (block) "inp \<noteq> []" "p = []" "64 \<le> length inp"
    | (copy) "inp \<noteq> []" "\<not> (p = [] \<and> 64 \<le> length inp)" by blast
  then show ?case
  proof cases
    case stop
    with less.prems lt show ?thesis by (simp add: sha256_loop.simps absorb_short)
  next
    case block
    let ?md = "md\<lparr>sha256_state := sha256_compress (sha256_state md) (take 64 inp), sha256_length := sha256_length md + of_nat (64 * 8)\<rparr>"
    have "sha256_rel ?md (fips256_compress h (take 64 inp)) [] (n + 64)"
      using R pm block by (simp add: sha256_rel_def sha256_compress_fips fips256_compress_def)
    moreover have "sha256_loop md inp = sha256_loop ?md (drop 64 inp)"
      using R block by (subst sha256_loop.simps) (simp add: SHA256_BLOCK_SIZE_def)
    ultimately show ?thesis
      using less.hyps [of "drop 64 inp" ?md "fips256_compress h (take 64 inp)" "[]" "n + 64"] block
      by (simp add: absorb_step [of 64 inp])
  next
    case copy
    let ?k = "min (length inp) (64 - length p)"
    let ?md1 = "md\<lparr>sha256_buf := put_at (length p) (take ?k inp) (sha256_buf md), sha256_curlen := length p + ?k\<rparr>"
    let ?md2 = "?md1\<lparr>sha256_state := sha256_compress h (sha256_buf ?md1), sha256_length := sha256_length md + of_nat (8 * 64), sha256_curlen := 0\<rparr>"
    have step: "sha256_loop md inp = sha256_loop (if length p + ?k = 64 then ?md2 else ?md1) (drop ?k inp)"
      using R copy lt by (subst sha256_loop.simps) (auto simp: SHA256_BLOCK_SIZE_def Let_def)
    show ?thesis
    proof (cases "length p + ?k = 64")
      case True
      note m = mod_fill_full [OF pm True]
      have buf: "sha256_buf ?md1 = p @ take ?k inp"
        using R True by (simp add: put_at_full)
      have "sha256_rel ?md2 (fips256_compress h (p @ take ?k inp)) [] (n + ?k)"
        using R m True unfolding sha256_rel_def buf
        by (simp add: sha256_compress_fips fips256_compress_def)
      moreover have "absorb 64 fips256_compress h (p @ inp) =
          absorb 64 fips256_compress (fips256_compress h (p @ take ?k inp)) (drop ?k inp)"
        using True by (intro absorb_fill_full) simp_all
      moreover have "0 < ?k" using lt copy by simp
      ultimately show ?thesis
        using True step less.hyps [of "drop ?k inp" ?md2 "fips256_compress h (p @ take ?k inp)" "[]" "n + ?k"]
        by simp
    next
      case False
      then have k: "?k = length inp" "length p + length inp < 64" using lt by simp_all
      have "sha256_rel ?md1 h (p @ inp) (n + length inp)"
        using R mod_fill_part [OF pm k(2)] k put_at_prefix [OF tk, of inp]
        unfolding sha256_rel_def by simp
      with k show ?thesis
        using False step by (simp add: absorb_short sha256_loop.simps [of _ "[]"])
    qed
  qed
qed

lemma sha256_process_rel:
  assumes "sha256_rel md h p n" "absorb 64 fips256_compress h (p @ d) = (h', p')"
  shows "\<exists>md'. sha256_process md d = Ret md' \<and> sha256_rel md' h' p' (n + length d)"
  using sha256_loop_rel [OF assms(1), of d] assms by (simp add: sha256_process_def sha256_rel_def)

text \<open>The padding of the standard: the number of bits modulo 2^64, in eight bytes.\<close>

definition sha256_pad :: "nat \<Rightarrow> u8 list" where
  "sha256_pad = md_pad 64 8 (\<lambda>n. WPA_PUT_BE64 (of_nat (8 * n)))"

lemma sha256_done_rel:
  assumes "sha256_rel md h p n"
  shows "sha256_done md =
    Ret (concat (map WPA_PUT_BE32 (fst (absorb 64 fips256_compress h (p @ sha256_pad n)))))"
proof -
  have st: "sha256_state md = h" and h8: "length h = 8" and bl: "length (sha256_buf md) = 64"
    and cur: "sha256_curlen md = length p" and tk: "take (length p) (sha256_buf md) = p"
    and pm: "length p = n mod 64" and ln: "sha256_length md = of_nat (8 * (n - length p))"
    using assms unfolding sha256_rel_def by blast+
  have lt: "length p < 64" "length p \<le> n" using pm by simp_all
  let ?L = "WPA_PUT_BE64 (of_nat (8 * n))" and ?b = "sha256_buf md"
  have pad: "fst (absorb 64 fips256_compress h (p @ sha256_pad n)) =
      (if length p + 1 \<le> 56 then fips256_compress h (p @ 0x80 # replicate (56 - (length p + 1)) 0 @ ?L)
       else fips256_compress (fips256_compress h (p @ 0x80 # replicate (64 - (length p + 1)) 0)) (replicate 56 0 @ ?L))"
    unfolding sha256_pad_def using absorb_pad [of 8 64 p n "\<lambda>n. WPA_PUT_BE64 (of_nat (8 * n))" fips256_compress h] pm by simp
  have one: "?b[length p := 0x80] = put_at (length p) [0x80] ?b" using lt bl by (simp add: put_at_one)
  show ?thesis
  proof (cases "length p + 1 \<le> 56")
    case True
    let ?z = "replicate (56 - (length p + 1)) (0 :: u8)"
    have "put_at (length p + 1) ?z (put_at (length p) [0x80] ?b) = put_at (length p) (0x80 # ?z) ?b"
      using put_at_append [of "length p" "[0x80]" ?b ?z] lt bl by simp
    moreover have "put_at 56 ?L (put_at (length p) (0x80 # ?z) ?b) = p @ 0x80 # ?z @ ?L"
      using put_at_append [of "length p" "0x80 # ?z" ?b ?L] put_at_full [OF tk, of "0x80 # ?z @ ?L"] True bl by simp
    ultimately show ?thesis
      using True lt by (simp add: sha256_done_def Let_def cur st bl one pad h8 sha256_compress_fips
          bit_count [OF ln lt(2)] del: of_nat_mult of_nat_add)
  next
    case False
    let ?z = "replicate (64 - (length p + 1)) (0 :: u8)"
    have "put_at (length p + 1) ?z (put_at (length p) [0x80] ?b) = p @ 0x80 # ?z"
      using put_at_append [of "length p" "[0x80]" ?b ?z] put_at_full [OF tk, of "0x80 # ?z"] lt bl by simp
    moreover have "put_at 56 ?L (put_at 0 (replicate 56 0) (p @ 0x80 # ?z)) = replicate 56 0 @ ?L"
      using put_at_append [of 0 "replicate 56 0" "p @ 0x80 # ?z" ?L] put_at_full [of "[]" _ "replicate 56 0 @ ?L"] lt by simp
    moreover have "length (fips256_compress h (p @ 0x80 # ?z)) = 8" by (simp add: fips256_compress_def h8)
    ultimately show ?thesis
      using False lt by (simp add: sha256_done_def Let_def cur st bl one pad h8 sha256_compress_fips
          SHA256_BLOCK_SIZE_def bit_count [OF ln lt(2)] del: of_nat_mult of_nat_add)
  qed
qed

lemma sha256_rel_init: "sha256_rel sha256_init (sha256_state sha256_init) [] 0"
  by (simp add: sha256_rel_def sha256_init_def)

interpretation sha256: md_hash 64 fips256_compress "sha256_state sha256_init" sha256_init
  sha256_process sha256_rel "2 ^ 32" sha256_done sha256_pad "\<lambda>h. concat (map WPA_PUT_BE32 h)"
  by unfold_locales (auto simp: sha256_done_rel sha256_rel_init intro: sha256_process_rel)

section \<open>The digest\<close>

definition fips256 :: "u8 list \<Rightarrow> u8 list" where
  "fips256 = md_digest 64 fips256_compress (sha256_state sha256_init) sha256_pad (\<lambda>h. concat (map WPA_PUT_BE32 h))"

lemma sha256_vector_ref: "\<forall>d \<in> set addr. length d < 2 ^ 32 \<Longrightarrow> sha256_vector addr = Ret (fips256 (concat addr))"
  unfolding sha256_vector_def fips256_def by (rule sha256.vector_digest)

lemma length_fips256 [simp]: "length (fips256 m) = 32"
proof -
  have "length (fst (absorb 64 fips256_compress (sha256_state sha256_init) (m @ sha256_pad (length m)))) = 8"
    by (rule absorb_keeps) (simp_all add: fips256_compress_def sha256_init_def)
  then show ?thesis by (simp add: fips256_def md_digest_def length_concat o_def sum_list_triv)
qed

text \<open>
  C36. \<open>sha256_vector\<close> returns the SHA-256 digest of the concatenation of its data areas, in
  whatever pieces the message arrives: the buffering, the bit count and the padding of the
  incremental code, and its forms of the round functions, agree with the standard's
  definition on one message. It fails on no input, and the digest has 32 bytes.
\<close>

theorem sha256_vector_fips:
  assumes "\<forall>d \<in> set addr. length d < 2 ^ 32"
  shows "sha256_vector addr = Ret (fips256 (concat addr)) \<and> length (fips256 (concat addr)) = 32"
  using sha256_vector_ref [OF assms] by simp

lemma sha256_vector_fips_witness:
  "sha256_vector [[0x61], [], [0x62, 0x63]] = Ret (fips256 [0x61, 0x62, 0x63])"
  using sha256_vector_fips [of "[[0x61], [], [0x62, 0x63]]"] by simp

end
