(* ===== verification/Sha512.thy ===== *)
theory Sha512
  imports Sha2
begin

text \<open>
  SHA-512 and SHA-384 (\<open>src/crypto/sha512-internal.c\<close>, \<open>sha384-internal.c\<close>, \<open>sha512_i.h\<close>,
  \<open>sha384_i.h\<close> of wpa\_supplicant). The message schedule is allocated for every block, so the
  outcomes of the allocations are a parameter of the model.
\<close>

section \<open>The implementation\<close>

definition SHA512_BLOCK_SIZE :: nat where
  "SHA512_BLOCK_SIZE = 128"

record sha512_state =
  sha512_length :: u64
  sha512_state :: "u64 list"
  sha512_curlen :: nat
  sha512_buf :: "u8 list"

text \<open>The outcomes of the calls of \<open>os_malloc\<close> to come.\<close>

type_synonym allocations = "nat \<Rightarrow> bool"

definition sha512_K :: "u64 list" where
  "sha512_K = concat
    [[0x428a2f98d728ae22, 0x7137449123ef65cd], [0xb5c0fbcfec4d3b2f, 0xe9b5dba58189dbbc], [0x3956c25bf348b538, 0x59f111f1b605d019],
     [0x923f82a4af194f9b, 0xab1c5ed5da6d8118], [0xd807aa98a3030242, 0x12835b0145706fbe], [0x243185be4ee4b28c, 0x550c7dc3d5ffb4e2],
     [0x72be5d74f27b896f, 0x80deb1fe3b1696b1], [0x9bdc06a725c71235, 0xc19bf174cf692694], [0xe49b69c19ef14ad2, 0xefbe4786384f25e3],
     [0x0fc19dc68b8cd5b5, 0x240ca1cc77ac9c65], [0x2de92c6f592b0275, 0x4a7484aa6ea6e483], [0x5cb0a9dcbd41fbd4, 0x76f988da831153b5],
     [0x983e5152ee66dfab, 0xa831c66d2db43210], [0xb00327c898fb213f, 0xbf597fc7beef0ee4], [0xc6e00bf33da88fc2, 0xd5a79147930aa725],
     [0x06ca6351e003826f, 0x142929670a0e6e70], [0x27b70a8546d22ffc, 0x2e1b21385c26c926], [0x4d2c6dfc5ac42aed, 0x53380d139d95b3df],
     [0x650a73548baf63de, 0x766a0abb3c77b2a8], [0x81c2c92e47edaee6, 0x92722c851482353b], [0xa2bfe8a14cf10364, 0xa81a664bbc423001],
     [0xc24b8b70d0f89791, 0xc76c51a30654be30], [0xd192e819d6ef5218, 0xd69906245565a910], [0xf40e35855771202a, 0x106aa07032bbd1b8],
     [0x19a4c116b8d2d0c8, 0x1e376c085141ab53], [0x2748774cdf8eeb99, 0x34b0bcb5e19b48a8], [0x391c0cb3c5c95a63, 0x4ed8aa4ae3418acb],
     [0x5b9cca4f7763e373, 0x682e6ff3d6b2b8a3], [0x748f82ee5defb2fc, 0x78a5636f43172f60], [0x84c87814a1f0ab72, 0x8cc702081a6439ec],
     [0x90befffa23631e28, 0xa4506cebde82bde9], [0xbef9a3f7b2c67915, 0xc67178f2e372532b], [0xca273eceea26619c, 0xd186b8c721c0c207],
     [0xeada7dd6cde0eb1e, 0xf57d4f7fee6ed178], [0x06f067aa72176fba, 0x0a637dc5a2c898a6], [0x113f9804bef90dae, 0x1b710b35131c471b],
     [0x28db77f523047d84, 0x32caab7b40c72493], [0x3c9ebe0a15c9bebc, 0x431d67c49c100d4c], [0x4cc5d4becb3e42b6, 0x597f299cfc657e2a],
     [0x5fcb6fab3ad6faec, 0x6c44198c4a475817]]"

definition ROR64c :: "u64 \<Rightarrow> nat \<Rightarrow> u64" where
  "ROR64c x y = drop_bit (y mod 64) x OR push_bit (64 - y mod 64) x"

definition sha512_Ch :: "u64 \<Rightarrow> u64 \<Rightarrow> u64 \<Rightarrow> u64" where
  "sha512_Ch x y z = z XOR (x AND (y XOR z))"

definition sha512_Maj :: "u64 \<Rightarrow> u64 \<Rightarrow> u64 \<Rightarrow> u64" where
  "sha512_Maj x y z = ((x OR y) AND z) OR (x AND y)"

definition sha512_Sigma0 :: "u64 \<Rightarrow> u64" where
  "sha512_Sigma0 x = ROR64c x 28 XOR ROR64c x 34 XOR ROR64c x 39"

definition sha512_Sigma1 :: "u64 \<Rightarrow> u64" where
  "sha512_Sigma1 x = ROR64c x 14 XOR ROR64c x 18 XOR ROR64c x 41"

definition sha512_Gamma0 :: "u64 \<Rightarrow> u64" where
  "sha512_Gamma0 x = ROR64c x 1 XOR ROR64c x 8 XOR drop_bit 7 x"

definition sha512_Gamma1 :: "u64 \<Rightarrow> u64" where
  "sha512_Gamma1 x = ROR64c x 19 XOR ROR64c x 61 XOR drop_bit 6 x"

definition sha512_fill :: "u8 list \<Rightarrow> u64 list" where
  "sha512_fill buf =
     fold (\<lambda>i W. W @ [sha512_Gamma1 (W ! (i - 2)) + W ! (i - 7) + sha512_Gamma0 (W ! (i - 15)) + W ! (i - 16)])
       [16..<80] (map (\<lambda>i. WPA_GET_BE64 (drop (8 * i) buf)) [0..<16])"

fun sha512_rnd :: "u64 list \<Rightarrow> nat \<Rightarrow> u64 list \<Rightarrow> u64 list" where
  "sha512_rnd W i [s0, s1, s2, s3, s4, s5, s6, s7] =
     (let t0 = s7 + sha512_Sigma1 s4 + sha512_Ch s4 s5 s6 + sha512_K ! i + W ! i;
          t1 = sha512_Sigma0 s0 + sha512_Maj s0 s1 s2
      in [t0 + t1, s0, s1, s2, s3 + t0, s4, s5, s6])"
| "sha512_rnd W i S = S"

text \<open>The result, the state afterwards, and the allocations that remain.\<close>

definition sha512_compress :: "allocations \<Rightarrow> u64 list \<Rightarrow> u8 list \<Rightarrow> int \<times> u64 list \<times> allocations" where
  "sha512_compress mem state buf =
     (if \<not> mem 0 then (-1, state, mem \<circ> Suc)
      else
        let W = sha512_fill buf; S = fold (sha512_rnd W) [0..<80] state
        in (0, map2 (+) state S, mem \<circ> Suc))"

definition sha512_init :: sha512_state where
  "sha512_init = \<lparr>sha512_length = 0,
     sha512_state = [0x6a09e667f3bcc908, 0xbb67ae8584caa73b, 0x3c6ef372fe94f82b, 0xa54ff53a5f1d36f1,
       0x510e527fade682d1, 0x9b05688c2b3e6c1f, 0x1f83d9abfb41bd6b, 0x5be0cd19137e2179],
     sha512_curlen = 0, sha512_buf = replicate 128 0\<rparr>"

text \<open>
  The loop of \<open>sha512_process\<close>. As in SHA-256, a full buffer is excluded by the caller and
  reported as an access out of bounds.
\<close>

function sha512_loop :: "sha512_state \<times> allocations \<Rightarrow> u8 list \<Rightarrow> (sha512_state \<times> allocations) outcome" where
  "sha512_loop (md, mem) inp =
     (if inp = [] then Ret (md, mem)
      else if SHA512_BLOCK_SIZE \<le> sha512_curlen md then OutOfBounds
      else if sha512_curlen md = 0 \<and> SHA512_BLOCK_SIZE \<le> length inp then
        let (r, state, mem) = sha512_compress mem (sha512_state md) (take SHA512_BLOCK_SIZE inp)
        in if r < 0 then Err (-1)
           else sha512_loop
                  (md\<lparr>sha512_state := state,
                      sha512_length := sha512_length md + of_nat (SHA512_BLOCK_SIZE * 8)\<rparr>, mem)
                  (drop SHA512_BLOCK_SIZE inp)
      else
        let n = min (length inp) (SHA512_BLOCK_SIZE - sha512_curlen md);
            md = md\<lparr>sha512_buf := put_at (sha512_curlen md) (take n inp) (sha512_buf md),
                    sha512_curlen := sha512_curlen md + n\<rparr>
        in if sha512_curlen md = SHA512_BLOCK_SIZE then
             let (r, state, mem) = sha512_compress mem (sha512_state md) (sha512_buf md)
             in if r < 0 then Err (-1)
                else sha512_loop
                       (md\<lparr>sha512_state := state,
                           sha512_length := sha512_length md + of_nat (8 * SHA512_BLOCK_SIZE),
                           sha512_curlen := 0\<rparr>, mem)
                       (drop n inp)
           else sha512_loop (md, mem) (drop n inp))"
  by pat_completeness auto
termination
  by (relation "measure (\<lambda>(_, inp). length inp)") (auto simp: SHA512_BLOCK_SIZE_def)

declare sha512_loop.simps [simp del]

definition sha512_process :: "sha512_state \<times> allocations \<Rightarrow> u8 list \<Rightarrow> (sha512_state \<times> allocations) outcome" where
  "sha512_process c inp =
     (if length (sha512_buf (fst c)) \<le> sha512_curlen (fst c) then Err (-1) else sha512_loop c inp)"

text \<open>The results of the two calls of \<open>sha512_compress\<close> are not looked at.\<close>

definition sha512_done :: "sha512_state \<times> allocations \<Rightarrow> u8 list outcome" where
  "sha512_done c =
     (let (md, mem) = c in
      if length (sha512_buf md) \<le> sha512_curlen md then Err (-1)
      else
        let len = sha512_length md + of_nat (sha512_curlen md) * 8;
            buf = (sha512_buf md)[sha512_curlen md := 0x80];
            cur = sha512_curlen md + 1;
            (state, buf, cur, mem) =
              (if 112 < cur
               then let buf = put_at cur (replicate (128 - cur) 0) buf;
                        (_, state, mem) = sha512_compress mem (sha512_state md) buf
                    in (state, buf, 0, mem)
               else (sha512_state md, buf, cur, mem));
            buf = put_at cur (replicate (120 - cur) 0) buf;
            buf = put_at 120 (WPA_PUT_BE64 len) buf;
            (_, state, _) = sha512_compress mem state buf
        in Ret (concat (map WPA_PUT_BE64 state)))"

definition sha512_vector :: "allocations \<Rightarrow> u8 list list \<Rightarrow> u8 list outcome" where
  "sha512_vector mem addr = bind_outcome (fold_outcome sha512_process (sha512_init, mem) addr) sha512_done"

subsection \<open>SHA-384\<close>

definition sha384_init :: sha512_state where
  "sha384_init = \<lparr>sha512_length = 0,
     sha512_state = [0xcbbb9d5dc1059ed8, 0x629a292a367cd507, 0x9159015a3070dd17, 0x152fecd8f70e5939,
       0x67332667ffc00b31, 0x8eb44a8768581511, 0xdb0c2e0d64f98fa7, 0x47b5481dbefa4fa4],
     sha512_curlen = 0, sha512_buf = replicate 128 0\<rparr>"

definition sha384_process :: "sha512_state \<times> allocations \<Rightarrow> u8 list \<Rightarrow> (sha512_state \<times> allocations) outcome" where
  "sha384_process c inp = sha512_process c inp"

definition sha384_done :: "sha512_state \<times> allocations \<Rightarrow> u8 list outcome" where
  "sha384_done c =
     (if length (sha512_buf (fst c)) \<le> sha512_curlen (fst c) then Err (-1)
      else case sha512_done c of
             Ret buf \<Rightarrow> Ret (take 48 buf)
           | Err _ \<Rightarrow> Err (-1)
           | OutOfBounds \<Rightarrow> OutOfBounds)"

definition sha384_vector :: "allocations \<Rightarrow> u8 list list \<Rightarrow> u8 list outcome" where
  "sha384_vector mem addr = bind_outcome (fold_outcome sha384_process (sha384_init, mem) addr) sha384_done"

section \<open>Compression\<close>

lemma ROR64c_rotr: "0 < y \<Longrightarrow> y < 64 \<Longrightarrow> ROR64c x y = word_rotr y x"
  using rotr_shifts [of y x] by (simp add: ROR64c_def)

definition fips512_compress :: "u64 list \<Rightarrow> u8 list \<Rightarrow> u64 list" where
  "fips512_compress H b =
     fips_compress (fips_Sigma 28 34 39) (fips_Sigma 14 18 41) (fips_sigma 1 8 7) (fips_sigma 19 61 6)
       sha512_K H (map (\<lambda>i. WPA_GET_BE64 (drop (8 * i) b)) [0..<16])"

lemma sha512_functions:
  "sha512_Sigma0 = fips_Sigma 28 34 39" "sha512_Sigma1 = fips_Sigma 14 18 41"
  "sha512_Gamma0 = fips_sigma 1 8 7" "sha512_Gamma1 = fips_sigma 19 61 6"
  "sha512_Ch = fips_Ch" "sha512_Maj = fips_Maj"
  by (simp_all add: fun_eq_iff sha512_Sigma0_def sha512_Sigma1_def sha512_Gamma0_def sha512_Gamma1_def
    fips_Sigma_def fips_sigma_def ROR64c_rotr sha512_Ch_def sha512_Maj_def choice_xor majority_or)

lemma sha512_fill_W:
  "sha512_fill b = map (fips_W (fips_sigma 1 8 7) (fips_sigma 19 61 6)
     (map (\<lambda>i. WPA_GET_BE64 (drop (8 * i) b)) [0..<16])) [0..<80]"
  unfolding sha512_fill_def sha512_functions by (rule schedule_loop) simp_all

lemma sha512_compress_fips:
  assumes "length H = 8"
  shows "sha512_compress (\<lambda>_. True) H b = (0, fips512_compress H b, \<lambda>_. True)"
proof -
  have "sha512_rnd (map W [0..<80]) t (of_vars v) =
      of_vars (fips_round sha512_Sigma0 sha512_Sigma1 sha512_K W t v)" if "t \<in> set [0..<80]" for W t v
    using that by (cases v rule: of_vars.cases) (simp add: Let_def sha512_functions)
  note rounds_loop [OF this, where v = "to_vars H"]
  moreover have "length sha512_K = 80" by (simp add: sha512_K_def)
  moreover have "(\<lambda>_. True) \<circ> Suc = (\<lambda>_. True)" by (simp add: fun_eq_iff)
  ultimately show ?thesis
    by (simp only: sha512_compress_def Let_def fips512_compress_def fips_compress_def sha512_fill_W
        sha512_functions of_to_vars [OF assms] not_True_eq_False if_False)
qed

lemma length_fips512_compress [simp]: "length H = 8 \<Longrightarrow> length (fips512_compress H b) = 8"
  by (simp add: fips512_compress_def)

section \<open>Refinement\<close>

definition sha512_rel :: "sha512_state \<times> allocations \<Rightarrow> u64 list \<Rightarrow> u8 list \<Rightarrow> nat \<Rightarrow> bool" where
  "sha512_rel c h p n \<longleftrightarrow>
     snd c = (\<lambda>_. True) \<and>
     sha512_state (fst c) = h \<and> length h = 8 \<and> length (sha512_buf (fst c)) = 128 \<and>
     sha512_curlen (fst c) = length p \<and> take (length p) (sha512_buf (fst c)) = p \<and> length p = n mod 128 \<and>
     sha512_length (fst c) = of_nat (8 * (n - length p))"

lemma sha512_relE:
  assumes "sha512_rel c h p n"
  obtains md where "c = (md, \<lambda>_. True)" "sha512_state md = h" "length h = 8" "length (sha512_buf md) = 128"
    "sha512_curlen md = length p" "take (length p) (sha512_buf md) = p" "length p = n mod 128"
    "sha512_length md = of_nat (8 * (n - length p))"
  using assms unfolding sha512_rel_def by (cases c) auto

lemma sha512_loop_rel:
  assumes "sha512_rel c h p n"
  shows "\<exists>c'. sha512_loop c d = Ret c' \<and>
    sha512_rel c' (fst (absorb 128 fips512_compress h (p @ d))) (snd (absorb 128 fips512_compress h (p @ d))) (n + length d)"
  using assms
proof (induction "length d" arbitrary: c h p n d rule: less_induct)
  case (less inp)
  from less.prems obtain md where c: "c = (md, \<lambda>_. True)" and st: "sha512_state md = h" and h8: "length h = 8"
    and bl: "length (sha512_buf md) = 128" and cur: "sha512_curlen md = length p"
    and tk: "take (length p) (sha512_buf md) = p" and pm: "length p = n mod 128"
    and ln: "sha512_length md = of_nat (8 * (n - length p))" by (rule sha512_relE)
  note R = c st h8 bl cur tk ln
  have lt: "length p < 128" "length p \<le> n" using pm by simp_all
  consider (stop) "inp = []" | (block) "inp \<noteq> []" "p = []" "128 \<le> length inp"
    | (copy) "inp \<noteq> []" "\<not> (p = [] \<and> 128 \<le> length inp)" by blast
  then show ?case
  proof cases
    case stop
    with less.prems lt show ?thesis by (simp add: c sha512_loop.simps absorb_short)
  next
    case block
    let ?h = "fips512_compress h (take 128 inp)"
    let ?md = "md\<lparr>sha512_state := ?h, sha512_length := sha512_length md + of_nat (128 * 8)\<rparr>"
    have "sha512_rel (?md, \<lambda>_. True) ?h [] (n + 128)"
      using R pm block by (simp add: sha512_rel_def)
    moreover have "sha512_loop c inp = sha512_loop (?md, \<lambda>_. True) (drop 128 inp)"
      using R block by (simp add: sha512_loop.simps [of md] SHA512_BLOCK_SIZE_def sha512_compress_fips)
    ultimately show ?thesis
      using less.hyps [of "drop 128 inp" "(?md, \<lambda>_. True)" ?h "[]" "n + 128"] block
      by (simp add: absorb_step [of 128 inp])
  next
    case copy
    let ?k = "min (length inp) (128 - length p)"
    let ?md1 = "md\<lparr>sha512_buf := put_at (length p) (take ?k inp) (sha512_buf md), sha512_curlen := length p + ?k\<rparr>"
    let ?h = "fips512_compress h (sha512_buf ?md1)"
    let ?md2 = "?md1\<lparr>sha512_state := ?h, sha512_length := sha512_length md + of_nat (8 * 128), sha512_curlen := 0\<rparr>"
    have step: "sha512_loop c inp =
        sha512_loop (if length p + ?k = 128 then ?md2 else ?md1, \<lambda>_. True) (drop ?k inp)"
      using R copy lt by (auto simp: sha512_loop.simps [of md] SHA512_BLOCK_SIZE_def Let_def sha512_compress_fips)
    show ?thesis
    proof (cases "length p + ?k = 128")
      case True
      note m = mod_fill_full [OF pm True]
      have buf: "sha512_buf ?md1 = p @ take ?k inp"
        using R True by (simp add: put_at_full)
      have "sha512_rel (?md2, \<lambda>_. True) ?h [] (n + ?k)"
        using R m True unfolding sha512_rel_def buf by simp
      moreover have "absorb 128 fips512_compress h (p @ inp) = absorb 128 fips512_compress ?h (drop ?k inp)"
        using True unfolding buf by (intro absorb_fill_full) simp_all
      moreover have "0 < ?k" using lt copy by simp
      ultimately show ?thesis
        using True step less.hyps [of "drop ?k inp" "(?md2, \<lambda>_. True)" ?h "[]" "n + ?k"]
        by simp
    next
      case False
      then have k: "?k = length inp" "length p + length inp < 128" using lt by simp_all
      have "sha512_rel (?md1, \<lambda>_. True) h (p @ inp) (n + length inp)"
        using R mod_fill_part [OF pm k(2)] k put_at_prefix [OF tk, of inp]
        unfolding sha512_rel_def by simp
      with k show ?thesis
        using False step by (simp add: absorb_short sha512_loop.simps [of _ _ "[]"])
    qed
  qed
qed

lemma sha512_process_rel:
  assumes "sha512_rel c h p n" "absorb 128 fips512_compress h (p @ d) = (h', p')"
  shows "\<exists>c'. sha512_process c d = Ret c' \<and> sha512_rel c' h' p' (n + length d)"
  using sha512_loop_rel [OF assms(1), of d] assms by (simp add: sha512_process_def sha512_rel_def)

text \<open>The padding the code makes: the length has 64 bits and is preceded by eight zeros.\<close>

definition sha512_pad :: "nat \<Rightarrow> u8 list" where
  "sha512_pad = md_pad 128 16 (\<lambda>n. replicate 8 0 @ WPA_PUT_BE64 (of_nat (8 * n)))"

lemma sha512_done_rel:
  assumes "sha512_rel c h p n"
  shows "sha512_done c =
    Ret (concat (map WPA_PUT_BE64 (fst (absorb 128 fips512_compress h (p @ sha512_pad n)))))"
proof -
  from assms obtain md where c: "c = (md, \<lambda>_. True)" and st: "sha512_state md = h" and h8: "length h = 8"
    and bl: "length (sha512_buf md) = 128" and cur: "sha512_curlen md = length p"
    and tk: "take (length p) (sha512_buf md) = p" and pm: "length p = n mod 128"
    and ln: "sha512_length md = of_nat (8 * (n - length p))" by (rule sha512_relE)
  have lt: "length p < 128" "length p \<le> n" using pm by simp_all
  have count: "sha512_length md + of_nat (length p) * 8 = of_nat (8 * n)"
    using bit_count [OF ln lt(2)] by (simp add: mult.commute)
  let ?L = "WPA_PUT_BE64 (of_nat (8 * n))" and ?b = "sha512_buf md"
  have z: "replicate j (0 :: u8) @ replicate 8 0 @ ?L = replicate (j + 8) 0 @ ?L" for j
    by (simp only: replicate_add append_assoc)
  have j: "128 - 16 - 1 - length p + 8 = 120 - (length p + 1)" if "length p + 1 \<le> 112"
    using that by simp
  have pad: "fst (absorb 128 fips512_compress h (p @ sha512_pad n)) =
      (if length p + 1 \<le> 112 then fips512_compress h (p @ 0x80 # replicate (120 - (length p + 1)) 0 @ ?L)
       else fips512_compress (fips512_compress h (p @ 0x80 # replicate (128 - (length p + 1)) 0)) (replicate 120 0 @ ?L))"
    unfolding sha512_pad_def using pm
    by (subst absorb_pad [of 16 128]) (simp_all only: z j, auto)
  have one: "?b[length p := 0x80] = put_at (length p) [0x80] ?b" using lt bl by (simp add: put_at_one)
  show ?thesis
  proof (cases "length p + 1 \<le> 112")
    case True
    let ?z = "replicate (120 - (length p + 1)) (0 :: u8)"
    have "put_at (length p + 1) ?z (put_at (length p) [0x80] ?b) = put_at (length p) (0x80 # ?z) ?b"
      using put_at_append [of "length p" "[0x80]" ?b ?z] lt bl by simp
    moreover have "put_at 120 ?L (put_at (length p) (0x80 # ?z) ?b) = p @ 0x80 # ?z @ ?L"
      using put_at_append [of "length p" "0x80 # ?z" ?b ?L] put_at_full [OF tk, of "0x80 # ?z @ ?L"] True bl by simp
    ultimately show ?thesis
      using True lt by (simp add: sha512_done_def Let_def c cur st bl one pad h8 sha512_compress_fips
          count del: of_nat_mult of_nat_add)
  next
    case False
    let ?z = "replicate (128 - (length p + 1)) (0 :: u8)"
    have "put_at (length p + 1) ?z (put_at (length p) [0x80] ?b) = p @ 0x80 # ?z"
      using put_at_append [of "length p" "[0x80]" ?b ?z] put_at_full [OF tk, of "0x80 # ?z"] lt bl by simp
    moreover have "put_at 120 ?L (put_at 0 (replicate 120 0) (p @ 0x80 # ?z)) = replicate 120 0 @ ?L"
      using put_at_append [of 0 "replicate 120 0" "p @ 0x80 # ?z" ?L] put_at_full [of "[]" _ "replicate 120 0 @ ?L"] lt by simp
    moreover have "length (fips512_compress h (p @ 0x80 # ?z)) = 8" by (simp add: h8)
    ultimately show ?thesis
      using False lt by (simp add: sha512_done_def Let_def c cur st bl one pad h8 sha512_compress_fips
          SHA512_BLOCK_SIZE_def count del: of_nat_mult of_nat_add)
  qed
qed

lemma sha512_rel_init:
  "sha512_rel (sha512_init, \<lambda>_. True) (sha512_state sha512_init) [] 0"
  "sha512_rel (sha384_init, \<lambda>_. True) (sha512_state sha384_init) [] 0"
  by (simp_all add: sha512_rel_def sha512_init_def sha384_init_def)

lemma sha384_done_rel:
  assumes "sha512_rel c h p n"
  shows "sha384_done c =
    Ret (take 48 (concat (map WPA_PUT_BE64 (fst (absorb 128 fips512_compress h (p @ sha512_pad n))))))"
  using assms by (simp add: sha384_done_def sha512_done_rel) (simp add: sha512_rel_def)

interpretation sha512: md_hash 128 fips512_compress "sha512_state sha512_init" "(sha512_init, \<lambda>_. True)"
  sha512_process sha512_rel "2 ^ 32" sha512_done sha512_pad "\<lambda>h. concat (map WPA_PUT_BE64 h)"
proof (unfold_locales, goal_cases)
  case (3 c h p n d h' p')
  then show ?case by (intro sha512_process_rel)
qed (simp_all add: sha512_done_rel sha512_rel_init)

interpretation sha384: md_hash 128 fips512_compress "sha512_state sha384_init" "(sha384_init, \<lambda>_. True)"
  sha384_process sha512_rel "2 ^ 32" sha384_done sha512_pad "\<lambda>h. take 48 (concat (map WPA_PUT_BE64 h))"
proof (unfold_locales, goal_cases)
  case (3 c h p n d h' p')
  then show ?case unfolding sha384_process_def by (intro sha512_process_rel)
qed (simp_all add: sha384_done_rel sha512_rel_init)

section \<open>The digests\<close>

text \<open>The padding of the standard, with a length of 128 bits.\<close>

definition fips512_pad :: "nat \<Rightarrow> u8 list" where
  "fips512_pad = md_pad 128 16 (\<lambda>n. WPA_PUT_BE64 (of_nat (8 * n div 2 ^ 64)) @ WPA_PUT_BE64 (of_nat (8 * n)))"

definition fips512 :: "u8 list \<Rightarrow> u8 list" where
  "fips512 = md_digest 128 fips512_compress (sha512_state sha512_init) fips512_pad (\<lambda>h. concat (map WPA_PUT_BE64 h))"

definition fips384 :: "u8 list \<Rightarrow> u8 list" where
  "fips384 = md_digest 128 fips512_compress (sha512_state sha384_init) fips512_pad
     (\<lambda>h. take 48 (concat (map WPA_PUT_BE64 h)))"

lemma put_zero: "WPA_PUT_BE64 0 = replicate 8 0"
  by code_simp

lemma sha512_pad_fips: "n < 2 ^ 61 \<Longrightarrow> sha512_pad n = fips512_pad n"
  by (simp add: sha512_pad_def fips512_pad_def md_pad_def put_zero)

lemma length_fips512_state:
  "length H = 8 \<Longrightarrow> length (concat (map WPA_PUT_BE64 (fst (absorb 128 fips512_compress H m)))) = 64"
  using absorb_keeps [of "\<lambda>h. length h = 8" fips512_compress H 128 m]
  by (simp add: length_concat o_def sum_list_triv)

lemma length_fips512 [simp]: "length (fips512 m) = 64" "length (fips384 m) = 48"
  by (simp_all add: fips512_def fips384_def md_digest_def length_fips512_state sha512_init_def sha384_init_def)

lemma sha512_vector_total:
  assumes "\<forall>d \<in> set addr. length d < 2 ^ 32" "length (concat addr) < 2 ^ 61"
  shows "sha512_vector (\<lambda>_. True) addr = Ret (fips512 (concat addr))"
    "sha384_vector (\<lambda>_. True) addr = Ret (fips384 (concat addr))"
  using sha512.vector_digest [OF assms(1)] sha384.vector_digest [OF assms(1)] sha512_pad_fips [OF assms(2)]
  by (simp_all add: sha512_vector_def sha384_vector_def fips512_def fips384_def md_digest_def)

text \<open>Sixteen data areas are less than 2^61 bytes.\<close>

lemma length_concat_bound: "\<forall>d \<in> set ds. length d < b \<Longrightarrow> length (concat ds) \<le> length ds * b"
  by (induction ds) auto

lemma sha512_vector_ref:
  assumes "\<forall>d \<in> set addr. length d < 2 ^ 32" "length addr \<le> 16"
  shows "sha512_vector (\<lambda>_. True) addr = Ret (fips512 (concat addr))"
    "sha384_vector (\<lambda>_. True) addr = Ret (fips384 (concat addr))"
proof -
  have "length (concat addr) \<le> 16 * 2 ^ 32"
    using length_concat_bound [OF assms(1)] assms(2) by (meson le_trans mult_le_mono1)
  then have "length (concat addr) < 2 ^ 61" by simp
  then show "sha512_vector (\<lambda>_. True) addr = Ret (fips512 (concat addr))"
    "sha384_vector (\<lambda>_. True) addr = Ret (fips384 (concat addr))"
    using sha512_vector_total [OF assms(1)] by blast+
qed

text \<open>
  When its allocations succeed, \<open>sha512_vector\<close> returns the SHA-512 digest of the
  concatenation of its data areas, and \<open>sha384_vector\<close> the SHA-384 digest, for messages of
  less than 2^64 bits: the 64-bit bit count with zeros before it is the 128-bit length of
  the standard.
\<close>

theorem sha512_vector_fips:
  assumes "\<forall>d \<in> set addr. length d < 2 ^ 32" "length (concat addr) < 2 ^ 61"
  shows "sha512_vector (\<lambda>_. True) addr = Ret (fips512 (concat addr)) \<and>
    sha384_vector (\<lambda>_. True) addr = Ret (fips384 (concat addr)) \<and>
    length (fips512 (concat addr)) = 64 \<and> length (fips384 (concat addr)) = 48"
  using sha512_vector_total [OF assms] by simp

lemma sha512_vector_fips_witness:
  "sha384_vector (\<lambda>_. True) [[0x61], [], [0x62, 0x63]] = Ret (fips384 [0x61, 0x62, 0x63])"
  using sha512_vector_fips [of "[[0x61], [], [0x62, 0x63]]"] by simp

lemma sha512_compress_fails: "sha512_compress (\<lambda>_. False) state buf = (-1, state, \<lambda>_. False)"
  by (simp add: sha512_compress_def fun_eq_iff)

lemma sha512_loop_short:
  "length d < 128 \<Longrightarrow> sha512_loop (sha512_init, mem) d =
     Ret (sha512_init\<lparr>sha512_buf := put_at 0 d (replicate 128 0), sha512_curlen := length d\<rparr>, mem)"
  by (subst sha512_loop.simps)
    (auto simp: sha512_loop.simps [of _ _ "[]"] sha512_init_def SHA512_BLOCK_SIZE_def Let_def put_at_def)

lemma sha512_loop_no_memory: "128 \<le> length d \<Longrightarrow> sha512_loop (sha512_init, \<lambda>_. False) d = Err (-1)"
  by (subst sha512_loop.simps) (auto simp: sha512_init_def SHA512_BLOCK_SIZE_def sha512_compress_fails)

text \<open>
  C37. When an allocation fails, a whole block of input makes \<open>sha512_process\<close> fail, but
  \<open>sha512_done\<close> does not notice: without memory every message of less than a block gets the
  same result, the initial chaining value, and it is returned as a digest.
\<close>

theorem sha512_out_of_memory:
  "sha512_vector (\<lambda>_. False) [d] =
     (if 128 \<le> length d then Err (-1) else Ret (concat (map WPA_PUT_BE64 (sha512_state sha512_init))))"
proof (cases "128 \<le> length d")
  case True
  then show ?thesis
    by (simp add: sha512_vector_def sha512_process_def sha512_loop_no_memory)
next
  case False
  then show ?thesis
    by (simp add: sha512_vector_def sha512_process_def sha512_loop_short)
      (simp add: sha512_done_def sha512_compress_fails Let_def sha512_init_def)
qed

end
