(* ===== verification/Sha1.thy ===== *)
theory Sha1
  imports Sha2
begin

text \<open>
  SHA-1 (\<open>src/crypto/sha1-internal.c\<close>, \<open>sha1_i.h\<close> of wpa\_supplicant), on a little-endian
  machine: the circular workspace of 16 words, the 64-bit count in two words, the update with
  its 32-bit length arithmetic, and the padding loop.
\<close>

section \<open>The implementation\<close>

record SHA1Context =
  sha1_state :: "u32 list"
  sha1_count0 :: u32
  sha1_count1 :: u32
  sha1_buffer :: "u8 list"

definition sha1_rol :: "u32 \<Rightarrow> nat \<Rightarrow> u32" where
  "sha1_rol value bits = push_bit bits value OR drop_bit (32 - bits) value"

text \<open>The assignments to the workspace that \<open>blk0\<close> and \<open>blk\<close> make; their value is the new word.\<close>

definition sha1_blk0 :: "u32 list \<Rightarrow> nat \<Rightarrow> u32 list" where
  "sha1_blk0 l i = l[i := (sha1_rol (l ! i) 24 AND 0xFF00FF00) OR (sha1_rol (l ! i) 8 AND 0x00FF00FF)]"

definition sha1_blk :: "u32 list \<Rightarrow> nat \<Rightarrow> u32 list" where
  "sha1_blk l i = l[i mod 16 := sha1_rol (l ! ((i + 13) mod 16) XOR l ! ((i + 8) mod 16) XOR
     l ! ((i + 2) mod 16) XOR l ! (i mod 16)) 1]"

type_synonym sha1_work = "u32 list \<times> u32 \<times> u32 \<times> u32 \<times> u32 \<times> u32"

text \<open>
  One of the operations \<open>R0\<close> to \<open>R4\<close>. The unrolled code goes on with the variables in the
  order \<open>z, v, w, x, y\<close>, in which they are returned; every fifth operation they are in their
  first order again.
\<close>

fun sha1_R0 :: "nat \<Rightarrow> sha1_work \<Rightarrow> sha1_work" where
  "sha1_R0 i (l, v, w, x, y, z) =
     (let l = sha1_blk0 l i;
          z = z + (((w AND (x XOR y)) XOR y) + l ! i + 0x5A827999 + sha1_rol v 5)
      in (l, z, v, sha1_rol w 30, x, y))"

fun sha1_R1 :: "nat \<Rightarrow> sha1_work \<Rightarrow> sha1_work" where
  "sha1_R1 i (l, v, w, x, y, z) =
     (let l = sha1_blk l i;
          z = z + (((w AND (x XOR y)) XOR y) + l ! (i mod 16) + 0x5A827999 + sha1_rol v 5)
      in (l, z, v, sha1_rol w 30, x, y))"

fun sha1_R2 :: "nat \<Rightarrow> sha1_work \<Rightarrow> sha1_work" where
  "sha1_R2 i (l, v, w, x, y, z) =
     (let l = sha1_blk l i;
          z = z + ((w XOR x XOR y) + l ! (i mod 16) + 0x6ED9EBA1 + sha1_rol v 5)
      in (l, z, v, sha1_rol w 30, x, y))"

fun sha1_R3 :: "nat \<Rightarrow> sha1_work \<Rightarrow> sha1_work" where
  "sha1_R3 i (l, v, w, x, y, z) =
     (let l = sha1_blk l i;
          z = z + ((((w OR x) AND y) OR (w AND x)) + l ! (i mod 16) + 0x8F1BBCDC + sha1_rol v 5)
      in (l, z, v, sha1_rol w 30, x, y))"

fun sha1_R4 :: "nat \<Rightarrow> sha1_work \<Rightarrow> sha1_work" where
  "sha1_R4 i (l, v, w, x, y, z) =
     (let l = sha1_blk l i;
          z = z + ((w XOR x XOR y) + l ! (i mod 16) + 0xCA62C1D6 + sha1_rol v 5)
      in (l, z, v, sha1_rol w 30, x, y))"

definition SHA1Transform :: "u32 list \<Rightarrow> u8 list \<Rightarrow> u32 list" where
  "SHA1Transform state buffer =
     (let block = map (\<lambda>i. WPA_GET_LE32 (drop (4 * i) buffer)) [0..<16];
          wk = (block, state ! 0, state ! 1, state ! 2, state ! 3, state ! 4);
          wk = fold sha1_R0 [0..<16] wk;
          wk = fold sha1_R1 [16..<20] wk;
          wk = fold sha1_R2 [20..<40] wk;
          wk = fold sha1_R3 [40..<60] wk;
          (_, a, b, c, d, e) = fold sha1_R4 [60..<80] wk
      in [state ! 0 + a, state ! 1 + b, state ! 2 + c, state ! 3 + d, state ! 4 + e])"

definition SHA1Init :: SHA1Context where
  "SHA1Init = \<lparr>sha1_state = [0x67452301, 0xEFCDAB89, 0x98BADCFE, 0x10325476, 0xC3D2E1F0],
     sha1_count0 = 0, sha1_count1 = 0, sha1_buffer = replicate 64 0\<rparr>"

text \<open>The loop over the whole blocks of the input, at \<open>i\<close>: the state and the rest of the input.\<close>

function sha1_blocks :: "u32 list \<Rightarrow> u8 list \<Rightarrow> u32 list \<times> u8 list" where
  "sha1_blocks state data =
     (if 63 < length data then sha1_blocks (SHA1Transform state (take 64 data)) (drop 64 data)
      else (state, data))"
  by pat_completeness auto
termination
  by (relation "measure (\<lambda>(_, data). length data)") auto

declare sha1_blocks.simps [simp del]

text \<open>
  \<open>j + len\<close> is computed with 32 bits. Where that wraps around, the copy at the end is longer than
  the buffer.
\<close>

definition SHA1Update :: "SHA1Context \<Rightarrow> u8 list \<Rightarrow> SHA1Context outcome" where
  "SHA1Update context data =
     (let len = of_nat (length data) :: u32;
          j = drop_bit 3 (sha1_count0 context) AND 63;
          c0 = sha1_count0 context + push_bit 3 len;
          c1 = (if c0 < push_bit 3 len then sha1_count1 context + 1 else sha1_count1 context) + drop_bit 29 len;
          context = context\<lparr>sha1_count0 := c0, sha1_count1 := c1\<rparr>;
          (context, data, j) =
            (if 63 < j + len then
               let i = 64 - unat j;
                   buf = put_at (unat j) (take i data) (sha1_buffer context);
                   state = SHA1Transform (sha1_state context) buf;
                   (state, data) = sha1_blocks state (drop i data)
               in (context\<lparr>sha1_buffer := buf, sha1_state := state\<rparr>, data, 0)
             else (context, data, unat j))
      in if 64 < j + length data then OutOfBounds
         else Ret (context\<lparr>sha1_buffer := put_at j data (sha1_buffer context)\<rparr>))"

text \<open>The loop that pads with zeros: it ends because every update adds eight to the count.\<close>

lemma SHA1Update_count:
  "SHA1Update context data = Ret context' \<Longrightarrow>
     sha1_count0 context' = sha1_count0 context + push_bit 3 (of_nat (length data))"
  by (auto simp: SHA1Update_def Let_def split: if_splits prod.splits)

lemma unat_and_504: "unat ((x :: u32) AND 504) = 8 * (unat x div 8 mod 64)"
proof -
  have m: "(504 :: u32) = push_bit 3 (mask 6)" by (simp add: mask_eq_exp_minus_1 push_bit_eq_mult)
  have "x AND 504 = of_nat (push_bit 3 (take_bit 6 (drop_bit 3 (unat x))))"
    unfolding m by (rule bit_word_eqI) (auto simp: bit_simps)
  moreover have "push_bit 3 (take_bit 6 (drop_bit 3 (unat x))) = 8 * (unat x div 8 mod 64)"
    by (simp add: push_bit_eq_mult take_bit_eq_mod drop_bit_eq_div)
  moreover have "8 * (unat x div 8 mod 64) < 2 ^ 32" by simp
  ultimately show ?thesis by (simp only: unat_of_nat) simp
qed

definition sha1_missing :: "u32 \<Rightarrow> nat" where
  "sha1_missing x = (120 - unat x div 8 mod 64) mod 64"

lemma missing_table:
  "list_all (\<lambda>q :: nat. (120 - (q + 1) mod 64) mod 64 = (119 - q) mod 64 \<and>
     (q = 56 \<or> (120 - q) mod 64 = Suc ((119 - q) mod 64))) [0..<64]"
  by code_simp

lemma missing_step:
  assumes "(q :: nat) < 64"
  shows "(120 - (q + 1) mod 64) mod 64 = (119 - q) mod 64"
    and "q \<noteq> 56 \<Longrightarrow> (120 - q) mod 64 = Suc ((119 - q) mod 64)"
proof -
  have "q \<in> set [0..<64]" using assms by simp
  then have "(120 - (q + 1) mod 64) mod 64 = (119 - q) mod 64 \<and> (q = 56 \<or> (120 - q) mod 64 = Suc ((119 - q) mod 64))"
    by (rule bspec [OF missing_table [unfolded list_all_iff]])
  then show "(120 - (q + 1) mod 64) mod 64 = (119 - q) mod 64"
    and "q \<noteq> 56 \<Longrightarrow> (120 - q) mod 64 = Suc ((119 - q) mod 64)" by auto
qed

lemma sha1_missing_less:
  assumes "(x :: u32) AND 504 \<noteq> 448"
  shows "sha1_missing (x + 8) < sha1_missing x"
proof -
  let ?q = "unat x div 8 mod 64"
  have ne: "?q \<noteq> 56" using assms unat_and_504 [of x] by (auto simp: word_unat_eq_iff)
  have lt: "?q < 64" by simp
  have "unat (x + 8) = (unat x + 8) mod 2 ^ 32"
    by (simp add: unat_word_ariths)
  then have "unat (x + 8) div 8 = (unat x + 8) div 8 mod 2 ^ 29"
    using drop_bit_take_bit [of 3 32 "unat x + 8"] by (simp add: drop_bit_eq_div take_bit_eq_mod)
  moreover have "(unat x + 8) div 8 = unat x div 8 + 1" by simp
  ultimately have "unat (x + 8) div 8 mod 64 = (unat x div 8 + 1) mod 64"
    by (simp add: mod_mod_cancel)
  then have "unat (x + 8) div 8 mod 64 = (?q + 1) mod 64" by (simp only: mod_add_left_eq)
  then show ?thesis
    unfolding sha1_missing_def using missing_step [OF lt] ne by (simp only:) simp
qed

function sha1_pad :: "SHA1Context \<Rightarrow> SHA1Context outcome" where
  "sha1_pad context =
     (if sha1_count0 context AND 504 \<noteq> 448
      then (case SHA1Update context [0] of
              Ret context' \<Rightarrow> sha1_pad context'
            | Err e \<Rightarrow> Err e
            | OutOfBounds \<Rightarrow> OutOfBounds)
      else Ret context)"
  by pat_completeness auto
termination
proof (relation "measure (\<lambda>c. sha1_missing (sha1_count0 c))", simp)
  fix c c'
  assume "sha1_count0 c AND 504 \<noteq> 448" "SHA1Update c [0] = Ret c'"
  then show "(c', c) \<in> measure (\<lambda>c. sha1_missing (sha1_count0 c))"
    using sha1_missing_less SHA1Update_count [of c "[0]" c'] by (simp add: push_bit_eq_mult)
qed

declare sha1_pad.simps [simp del]

definition SHA1Final :: "SHA1Context \<Rightarrow> u8 list outcome" where
  "SHA1Final context =
     (let finalcount = map (\<lambda>i. ucast (drop_bit ((3 - i mod 4) * 8)
            (if 4 \<le> i then sha1_count0 context else sha1_count1 context) AND 255)) [0..<8]
      in bind_outcome (SHA1Update context [0x80]) (\<lambda>context.
         bind_outcome (sha1_pad context) (\<lambda>context.
         bind_outcome (SHA1Update context finalcount) (\<lambda>context.
           Ret (map (\<lambda>i. ucast (drop_bit ((3 - i mod 4) * 8) (sha1_state context ! (i div 4)) AND 255)) [0..<20])))))"

definition sha1_vector :: "u8 list list \<Rightarrow> u8 list outcome" where
  "sha1_vector addr = bind_outcome (fold_outcome SHA1Update SHA1Init addr) SHA1Final"

section \<open>Compression\<close>

text \<open>The function as the standard writes it: the whole message schedule, one formula per round.\<close>

function fips1_W :: "u32 list \<Rightarrow> nat \<Rightarrow> u32" where
  "fips1_W M t =
     (if t < 16 then M ! t
      else word_rotl 1 (fips1_W M (t - 3) XOR fips1_W M (t - 8) XOR fips1_W M (t - 14) XOR fips1_W M (t - 16)))"
  by pat_completeness auto
termination
  by (relation "measure (\<lambda>(_, t). t)") auto

declare fips1_W.simps [simp del]

definition fips1_f :: "nat \<Rightarrow> u32 \<Rightarrow> u32 \<Rightarrow> u32 \<Rightarrow> u32" where
  "fips1_f t x y z =
     (if t < 20 then fips_Ch x y z else if t < 40 then x XOR y XOR z
      else if t < 60 then fips_Maj x y z else x XOR y XOR z)"

definition fips1_K :: "nat \<Rightarrow> u32" where
  "fips1_K t =
     (if t < 20 then 0x5A827999 else if t < 40 then 0x6ED9EBA1 else if t < 60 then 0x8F1BBCDC else 0xCA62C1D6)"

fun fips1_round :: "(nat \<Rightarrow> u32) \<Rightarrow> nat \<Rightarrow> u32 \<times> u32 \<times> u32 \<times> u32 \<times> u32 \<Rightarrow> u32 \<times> u32 \<times> u32 \<times> u32 \<times> u32" where
  "fips1_round W t (a, b, c, d, e) =
     (word_rotl 5 a + fips1_f t b c d + e + fips1_K t + W t, a, word_rotl 30 b, c, d)"

definition fips1_compress :: "u32 list \<Rightarrow> u8 list \<Rightarrow> u32 list" where
  "fips1_compress h blk =
     (case fold (fips1_round (fips1_W (map (\<lambda>i. WPA_GET_BE32 (drop (4 * i) blk)) [0..<16]))) [0..<80]
             (h ! 0, h ! 1, h ! 2, h ! 3, h ! 4) of
        (a, b, c, d, e) \<Rightarrow> map2 (+) h [a, b, c, d, e])"

text \<open>What the five kinds of operation have in common.\<close>

fun sha1_R :: "(u32 \<Rightarrow> u32 \<Rightarrow> u32 \<Rightarrow> u32) \<Rightarrow> u32 \<Rightarrow> (u32 list \<Rightarrow> nat \<Rightarrow> u32 list) \<Rightarrow> nat \<Rightarrow> sha1_work \<Rightarrow> sha1_work" where
  "sha1_R f k blk i (l, v, w, x, y, z) =
     (blk l i, word_rotl 5 v + f w x y + z + k + blk l i ! (i mod 16), v, word_rotl 30 w, x, y)"

lemma sha1_rol_rotl: "0 < n \<Longrightarrow> n < 32 \<Longrightarrow> sha1_rol x n = word_rotl n x"
  by (simp add: sha1_rol_def rol32)

lemma sha1_operations:
  "i < 16 \<Longrightarrow> sha1_R0 i wk = sha1_R fips_Ch 0x5A827999 sha1_blk0 i wk"
  "sha1_R1 i wk = sha1_R fips_Ch 0x5A827999 sha1_blk i wk"
  "sha1_R2 i wk = sha1_R (\<lambda>x y z. x XOR y XOR z) 0x6ED9EBA1 sha1_blk i wk"
  "sha1_R3 i wk = sha1_R fips_Maj 0x8F1BBCDC sha1_blk i wk"
  "sha1_R4 i wk = sha1_R (\<lambda>x y z. x XOR y XOR z) 0xCA62C1D6 sha1_blk i wk"
proof -
  have ch: "(w AND (x XOR y)) XOR y = fips_Ch w x y" for w x y :: u32
    using choice_xor [of y w x] by (simp add: xor.commute)
  show "i < 16 \<Longrightarrow> sha1_R0 i wk = sha1_R fips_Ch 0x5A827999 sha1_blk0 i wk"
    "sha1_R1 i wk = sha1_R fips_Ch 0x5A827999 sha1_blk i wk"
    "sha1_R2 i wk = sha1_R (\<lambda>x y z. x XOR y XOR z) 0x6ED9EBA1 sha1_blk i wk"
    "sha1_R3 i wk = sha1_R fips_Maj 0x8F1BBCDC sha1_blk i wk"
    "sha1_R4 i wk = sha1_R (\<lambda>x y z. x XOR y XOR z) 0xCA62C1D6 sha1_blk i wk"
    by (cases wk, simp add: Let_def sha1_rol_rotl ch majority_or add_ac)+
qed

lemma byte_swap:
  "(sha1_rol (WPA_GET_LE32 b) 24 AND 0xFF00FF00) OR (sha1_rol (WPA_GET_LE32 b) 8 AND 0x00FF00FF) = WPA_GET_BE32 b"
proof -
  have m: "(0xFF00FF00 :: u32) = push_bit 24 (mask 8) OR push_bit 8 (mask 8)"
    "(0x00FF00FF :: u32) = push_bit 16 (mask 8) OR mask 8"
    by (simp_all add: mask_eq_exp_minus_1 push_bit_eq_mult)
  show ?thesis
  proof (rule bit_word_eqI)
    fix n
    assume "n < LENGTH(32)"
    then consider "n < 8" | "8 \<le> n" "n < 16" | "16 \<le> n" "n < 24" | "24 \<le> n" "n < 32" by fastforce
    then show "bit ((sha1_rol (WPA_GET_LE32 b) 24 AND 0xFF00FF00) OR (sha1_rol (WPA_GET_LE32 b) 8 AND 0x00FF00FF)) n
        = bit (WPA_GET_BE32 b) n"
      unfolding m sha1_rol_def WPA_GET_LE32_def WPA_GET_BE32_def
      by cases (auto simp: bit_simps dest: bit_imp_le_length)
  qed
qed

text \<open>
  Before round \<open>t\<close> the workspace holds the last 16 words of the schedule, each at its index
  modulo 16, and words of the block that have not been swapped yet.
\<close>

definition sha1_ws :: "u8 list \<Rightarrow> nat \<Rightarrow> u32 list \<Rightarrow> bool" where
  "sha1_ws b t l \<longleftrightarrow> length l = 16 \<and>
     (\<forall>k. k < t \<longrightarrow> t \<le> k + 16 \<longrightarrow> l ! (k mod 16) = fips1_W (map (\<lambda>i. WPA_GET_BE32 (drop (4 * i) b)) [0..<16]) k) \<and>
     (\<forall>k. t \<le> k \<longrightarrow> k < 16 \<longrightarrow> l ! k = WPA_GET_LE32 (drop (4 * k) b))"

lemma sha1_ws_blk0:
  assumes "sha1_ws b t l" "t < 16"
  shows "sha1_ws b (Suc t) (sha1_blk0 l t)"
    and "sha1_blk0 l t ! (t mod 16) = fips1_W (map (\<lambda>i. WPA_GET_BE32 (drop (4 * i) b)) [0..<16]) t"
proof -
  have l: "length l = 16" "l ! t = WPA_GET_LE32 (drop (4 * t) b)"
    using assms by (auto simp: sha1_ws_def)
  have W: "fips1_W (map (\<lambda>i. WPA_GET_BE32 (drop (4 * i) b)) [0..<16]) t = WPA_GET_BE32 (drop (4 * t) b)"
    using assms(2) by (simp add: fips1_W.simps del: upt_Suc)
  show n: "sha1_blk0 l t ! (t mod 16) = fips1_W (map (\<lambda>i. WPA_GET_BE32 (drop (4 * i) b)) [0..<16]) t"
    unfolding W using assms(2) l byte_swap by (simp add: sha1_blk0_def)
  then show "sha1_ws b (Suc t) (sha1_blk0 l t)"
    using assms by (auto simp: sha1_ws_def sha1_blk0_def nth_list_update less_Suc_eq)
qed

lemma sha1_ws_blk:
  assumes "sha1_ws b t l" "16 \<le> t"
  shows "sha1_ws b (Suc t) (sha1_blk l t)"
    and "sha1_blk l t ! (t mod 16) = fips1_W (map (\<lambda>i. WPA_GET_BE32 (drop (4 * i) b)) [0..<16]) t"
proof -
  let ?W = "fips1_W (map (\<lambda>i. WPA_GET_BE32 (drop (4 * i) b)) [0..<16])"
  have l: "length l = 16" and ws: "\<And>k. k < t \<Longrightarrow> t \<le> k + 16 \<Longrightarrow> l ! (k mod 16) = ?W k"
    using assms by (auto simp: sha1_ws_def)
  have m: "(t + 13) mod 16 = (t - 3) mod 16" "(t + 8) mod 16 = (t - 8) mod 16" "(t + 2) mod 16 = (t - 14) mod 16"
    "t mod 16 = (t - 16) mod 16"
    using assms(2) by (simp_all add: mod_eq_dvd_iff_nat)
  have "l ! ((t + 13) mod 16) = ?W (t - 3)" "l ! ((t + 8) mod 16) = ?W (t - 8)" "l ! ((t + 2) mod 16) = ?W (t - 14)"
    "l ! (t mod 16) = ?W (t - 16)"
    unfolding m using assms(2) by (intro ws; simp)+
  moreover have "?W t = word_rotl 1 (?W (t - 3) XOR ?W (t - 8) XOR ?W (t - 14) XOR ?W (t - 16))"
    using assms(2) by (subst fips1_W.simps) simp
  ultimately show n: "sha1_blk l t ! (t mod 16) = ?W t"
    using l by (simp add: sha1_blk_def sha1_rol_rotl)
  show "sha1_ws b (Suc t) (sha1_blk l t)"
  proof -
    have "sha1_blk l t ! (k mod 16) = ?W k" if "k < Suc t" "Suc t \<le> k + 16" for k
    proof (cases "k = t")
      case False
      then have "k mod 16 \<noteq> t mod 16"
        using that mod_eq_dvd_iff_nat [of k t 16] by (auto dest: dvd_imp_le)
      with False that ws [of k] show ?thesis by (simp add: sha1_blk_def nth_list_update)
    qed (simp add: n)
    then show ?thesis using assms(2) l by (auto simp: sha1_ws_def sha1_blk_def)
  qed
qed

text \<open>A range of rounds with one kind of operation.\<close>

abbreviation "fips1_R b \<equiv> fips1_round (fips1_W (map (\<lambda>i. WPA_GET_BE32 (drop (4 * i) b)) [0..<16]))"

definition sha1_sim :: "u8 list \<Rightarrow> nat \<Rightarrow> sha1_work \<Rightarrow> u32 \<times> u32 \<times> u32 \<times> u32 \<times> u32 \<Rightarrow> bool" where
  "sha1_sim b t wk v \<longleftrightarrow> snd wk = v \<and> sha1_ws b t (fst wk)"

lemma sha1_rounds:
  assumes "\<And>t wk. lo \<le> t \<Longrightarrow> t < hi \<Longrightarrow> R t wk = sha1_R (fips1_f t) (fips1_K t) blk t wk"
    and "\<And>t l. lo \<le> t \<Longrightarrow> t < hi \<Longrightarrow> sha1_ws b t l \<Longrightarrow> sha1_ws b (Suc t) (blk l t)"
    and "\<And>t l. lo \<le> t \<Longrightarrow> t < hi \<Longrightarrow> sha1_ws b t l \<Longrightarrow>
      blk l t ! (t mod 16) = fips1_W (map (\<lambda>i. WPA_GET_BE32 (drop (4 * i) b)) [0..<16]) t"
    and "lo \<le> hi" "sha1_sim b lo wk v"
  shows "sha1_sim b hi (fold R [lo..<hi] wk) (fold (fips1_R b) [lo..<hi] v)"
  using assms(4,1-3)
proof (induction hi rule: dec_induct)
  case base
  then show ?case using assms(5) by simp
next
  case (step n)
  obtain l x1 x2 x3 x4 x5 where f: "fold R [lo..<n] wk = (l, x1, x2, x3, x4, x5)"
    by (cases "fold R [lo..<n] wk") auto
  then have s: "fold (fips1_R b) [lo..<n] v = (x1, x2, x3, x4, x5)" "sha1_ws b n l"
    using step.IH step.prems by (force simp: sha1_sim_def)+
  have "[lo..<Suc n] = [lo..<n] @ [n]" using step.hyps by simp
  then show ?case using f s step.prems(1) [of n] step.prems(2,3) [of n l] step.hyps
    by (simp only: fold_append o_def) (simp add: sha1_sim_def)
qed

lemma sha1_operations_fips:
  "t < 16 \<Longrightarrow> sha1_R0 t wk = sha1_R (fips1_f t) (fips1_K t) sha1_blk0 t wk"
  "16 \<le> t \<Longrightarrow> t < 20 \<Longrightarrow> sha1_R1 t wk = sha1_R (fips1_f t) (fips1_K t) sha1_blk t wk"
  "20 \<le> t \<Longrightarrow> t < 40 \<Longrightarrow> sha1_R2 t wk = sha1_R (fips1_f t) (fips1_K t) sha1_blk t wk"
  "40 \<le> t \<Longrightarrow> t < 60 \<Longrightarrow> sha1_R3 t wk = sha1_R (fips1_f t) (fips1_K t) sha1_blk t wk"
  "60 \<le> t \<Longrightarrow> t < 80 \<Longrightarrow> sha1_R4 t wk = sha1_R (fips1_f t) (fips1_K t) sha1_blk t wk"
  by (cases wk, simp add: sha1_operations fips1_f_def fips1_K_def
      del: sha1_R0.simps sha1_R1.simps sha1_R2.simps sha1_R3.simps sha1_R4.simps)+

lemma sha1_phases:
  "sha1_sim b 0 wk v \<Longrightarrow> sha1_sim b 16 (fold sha1_R0 [0..<16] wk) (fold (fips1_R b) [0..<16] v)"
  "sha1_sim b 16 wk v \<Longrightarrow> sha1_sim b 20 (fold sha1_R1 [16..<20] wk) (fold (fips1_R b) [16..<20] v)"
  "sha1_sim b 20 wk v \<Longrightarrow> sha1_sim b 40 (fold sha1_R2 [20..<40] wk) (fold (fips1_R b) [20..<40] v)"
  "sha1_sim b 40 wk v \<Longrightarrow> sha1_sim b 60 (fold sha1_R3 [40..<60] wk) (fold (fips1_R b) [40..<60] v)"
  "sha1_sim b 60 wk v \<Longrightarrow> sha1_sim b 80 (fold sha1_R4 [60..<80] wk) (fold (fips1_R b) [60..<80] v)"
  by (rule sha1_rounds [OF sha1_operations_fips(1) sha1_ws_blk0]; simp)
    (rule sha1_rounds [OF _ sha1_ws_blk]; simp add: sha1_operations_fips)+

lemma SHA1Transform_fips:
  assumes "length h = 5"
  shows "SHA1Transform h b = fips1_compress h b"
proof -
  let ?v = "(h ! 0, h ! 1, h ! 2, h ! 3, h ! 4)"
  let ?wk = "(map (\<lambda>i. WPA_GET_LE32 (drop (4 * i) b)) [0..<16], ?v)"
  have split: "[0..<80] = [0..<16] @ [16..<20] @ [20..<40] @ [40..<60] @ [60..<80]" by code_simp
  have sum: "[h ! 0 + a, h ! 1 + b, h ! 2 + c, h ! 3 + d, h ! 4 + e] = map2 (+) h [a, b, c, d, e]" for a b c d e
    using assms by (auto simp: numeral_eq_Suc length_Suc_conv)
  have "sha1_sim b 0 ?wk ?v" by (simp add: sha1_sim_def sha1_ws_def del: upt_Suc)
  then have "sha1_sim b 80
      (fold sha1_R4 [60..<80] (fold sha1_R3 [40..<60] (fold sha1_R2 [20..<40] (fold sha1_R1 [16..<20] (fold sha1_R0 [0..<16] ?wk)))))
      (fold (fips1_R b) [0..<80] ?v)"
    unfolding split fold_append o_def by (intro sha1_phases)
  then show ?thesis
    unfolding SHA1Transform_def Let_def fips1_compress_def sum sha1_sim_def
    by (auto split: prod.splits simp del: upt_Suc)
qed

lemma length_fips1_compress [simp]: "length h = 5 \<Longrightarrow> length (fips1_compress h b) = 5"
  by (simp add: fips1_compress_def split: prod.split)

section \<open>Refinement\<close>

definition sha1_rel :: "SHA1Context \<Rightarrow> u32 list \<Rightarrow> u8 list \<Rightarrow> nat \<Rightarrow> bool" where
  "sha1_rel ctx h p n \<longleftrightarrow>
     sha1_state ctx = h \<and> length h = 5 \<and> length (sha1_buffer ctx) = 64 \<and>
     take (length p) (sha1_buffer ctx) = p \<and> length p = n mod 64 \<and>
     sha1_count0 ctx = of_nat (8 * n) \<and> sha1_count1 ctx = of_nat (8 * n div 2 ^ 32)"

lemma sha1_blocks_absorb: "length h = 5 \<Longrightarrow> sha1_blocks h data = absorb 64 fips1_compress h data"
proof (induction h data rule: sha1_blocks.induct)
  case (1 h data)
  show ?case
  proof (cases "63 < length data")
    case True
    then show ?thesis
      using 1 by (simp add: sha1_blocks.simps [of h data] absorb_step [of 64 data] SHA1Transform_fips)
  next
    case False
    then show ?thesis by (simp add: sha1_blocks.simps [of h data] absorb_short)
  qed
qed

lemma sha1_update_rel:
  assumes rel: "sha1_rel ctx h p n" and len: "length d < 2 ^ 32 - 63"
    and abs: "absorb 64 fips1_compress h (p @ d) = (h', p')"
  shows "\<exists>ctx'. SHA1Update ctx d = Ret ctx' \<and> sha1_rel ctx' h' p' (n + length d)"
proof -
  have st: "sha1_state ctx = h" "length h = 5" and buf: "length (sha1_buffer ctx) = 64" "take (length p) (sha1_buffer ctx) = p"
    and pm: "length p = n mod 64" and bits: "sha1_count0 ctx = of_nat (8 * n)" "sha1_count1 ctx = of_nat (8 * n div 2 ^ 32)"
    using rel unfolding sha1_rel_def by blast+
  have lt: "length p < 64" using pm by simp
  have pm': "length p' = (n + length d) mod 64" and lt': "length p' < 64"
    using absorb_rest_length [OF _ abs] by (simp_all add: pm mod_add_left_eq)
  have h': "length h' = 5"
    using absorb_keeps [of "\<lambda>h. length h = 5" fips1_compress h 64 "p @ d"] st abs by simp
  let ?j = "drop_bit 3 (sha1_count0 ctx) AND 63 :: u32"
  have j: "unat ?j = length p" unfolding bits pm by (rule buffered) simp
  have wide: "63 < ?j + of_nat (length d) \<longleftrightarrow> 64 \<le> length p + length d"
    using len lt by (auto simp: word_less_nat_alt unat_word_ariths j unat_of_nat)
  have len32: "length d < 2 ^ 32" using len by simp
  note count = bit_count_add [OF len32, of n]
  define c where "c = ctx\<lparr>sha1_count0 := of_nat (8 * (n + length d)), sha1_count1 := of_nat (8 * (n + length d) div 2 ^ 32)\<rparr>"
  have counts: "sha1_count0 ctx + push_bit 3 (of_nat (length d)) = sha1_count0 c"
    "(if sha1_count0 c < push_bit 3 (of_nat (length d)) then sha1_count1 ctx + 1 else sha1_count1 ctx) +
       drop_bit 29 (of_nat (length d)) = sha1_count1 c"
    using count(3) unfolding c_def bits count(1,2) [symmetric] by simp_all
  show ?thesis
  proof (cases "64 \<le> length p + length d")
    case False
    with abs have e: "h' = h" "p' = p @ d" by (simp_all add: absorb_short)
    let ?c = "c\<lparr>sha1_buffer := put_at (length p) d (sha1_buffer ctx)\<rparr>"
    have "SHA1Update ctx d = Ret ?c"
      using False unfolding SHA1Update_def Let_def counts wide j by (simp add: c_def)
    moreover have "sha1_rel ?c h' p' (n + length d)"
      using False e st buf pm' put_at_prefix [OF buf(2), of d] by (simp add: sha1_rel_def c_def)
    ultimately show ?thesis by blast
  next
    case True
    let ?k = "64 - length p"
    let ?b = "p @ take ?k d"
    have b: "put_at (length p) (take ?k d) (sha1_buffer ctx) = ?b"
      using True buf lt by (simp add: put_at_full)
    have a: "sha1_blocks (SHA1Transform h ?b) (drop ?k d) = (h', p')"
      using abs True st by (simp add: absorb_pieces [OF lt] SHA1Transform_fips sha1_blocks_absorb)
    let ?c = "c\<lparr>sha1_state := h', sha1_buffer := put_at 0 p' ?b\<rparr>"
    have "SHA1Update ctx d = Ret ?c"
      using True lt' unfolding SHA1Update_def Let_def counts wide j by (simp add: c_def b st a)
    moreover have "sha1_rel ?c h' p' (n + length d)"
      using True lt lt' h' pm' put_at_prefix [of "[]" ?b p'] by (simp add: sha1_rel_def c_def)
    ultimately show ?thesis by blast
  qed
qed

lemma sha1_rel_count: "sha1_rel ctx h p n \<Longrightarrow> unat (sha1_count0 ctx) div 8 mod 64 = n mod 64"
proof -
  have "8 * n mod (8 * 2 ^ 29) = 8 * (n mod 2 ^ 29)" by (rule mod_mult_mult1)
  then have "unat (of_nat (8 * n) :: u32) div 8 = n mod 2 ^ 29" by (simp only: unat_of_nat) simp
  then show "sha1_rel ctx h p n \<Longrightarrow> ?thesis" by (simp add: sha1_rel_def mod_mod_cancel)
qed

lemma sha1_pad_rel:
  assumes "sha1_rel ctx h p n" "absorb 64 fips1_compress h (p @ replicate ((120 - n mod 64) mod 64) 0) = (h', p')"
  shows "\<exists>ctx'. sha1_pad ctx = Ret ctx' \<and> sha1_rel ctx' h' p' (n + (120 - n mod 64) mod 64)"
  using assms
proof (induction ctx arbitrary: h p n rule: sha1_pad.induct)
  case (1 ctx)
  have c: "sha1_count0 ctx AND 504 = 448 \<longleftrightarrow> n mod 64 = 56"
    using unat_and_504 [of "sha1_count0 ctx"] sha1_rel_count [OF "1.prems"(1)] by (auto simp: word_unat_eq_iff)
  show ?case
  proof (cases "n mod 64 = 56")
    case True
    moreover have "length p < 64" using "1.prems"(1) by (simp add: sha1_rel_def)
    ultimately show ?thesis using "1.prems" c by (simp add: sha1_pad.simps absorb_short)
  next
    case False
    have k: "(120 - n mod 64) mod 64 = Suc ((120 - (n + 1) mod 64) mod 64)"
      using missing_step [of "n mod 64"] False by (simp add: mod_Suc_eq)
    obtain h1 p1 where a: "absorb 64 fips1_compress h (p @ [0]) = (h1, p1)" by fastforce
    obtain ctx1 where ctx1: "SHA1Update ctx [0] = Ret ctx1" "sha1_rel ctx1 h1 p1 (n + 1)"
      using sha1_update_rel [OF "1.prems"(1) _ a] by auto
    have "absorb 64 fips1_compress h1 (p1 @ replicate ((120 - (n + 1) mod 64) mod 64) 0) = (h', p')"
      using "1.prems"(2) absorb_append [of 64 fips1_compress h "p @ [0]"] a by (simp add: k)
    from "1.IH" [OF _ ctx1(1) ctx1(2) this] show ?thesis
      using False c ctx1 by (simp add: sha1_pad.simps [of ctx] k)
  qed
qed

lemma upt_bytes:
  "[0..<8] = [0, 1, 2, 3, 4, 5, 6, 7]"
  "[0..<20] = [0, 1, 2, 3, 4, 5, 6, 7, 8, 9, 10, 11, 12, 13, 14, 15, 16, 17, 18, 19]"
  by code_simp+

lemma finalcount_bytes:
  "map (\<lambda>i. ucast (drop_bit ((3 - i mod 4) * 8) (if 4 \<le> i then c0 else c1) AND 255)) [0..<8] = WPA_PUT_BE32 c1 @ WPA_PUT_BE32 (c0 :: u32)"
  unfolding upt_bytes by (simp add: WPA_PUT_BE32_def)

lemma digest_bytes:
  assumes "length h = 5"
  shows "map (\<lambda>i. ucast (drop_bit ((3 - i mod 4) * 8) (h ! (i div 4)) AND 255)) [0..<20] = concat (map WPA_PUT_BE32 h)"
proof -
  obtain a b c d e where "h = [a, b, c, d, e]"
    using assms by (auto simp: numeral_eq_Suc length_Suc_conv)
  then show ?thesis unfolding upt_bytes by (simp add: WPA_PUT_BE32_def)
qed

definition fips1_pad :: "nat \<Rightarrow> u8 list" where
  "fips1_pad = md_pad 64 8 (\<lambda>n. WPA_PUT_BE64 (of_nat (8 * n)))"

lemma sha1_final_rel:
  assumes rel: "sha1_rel ctx h p n"
  shows "SHA1Final ctx = Ret (concat (map WPA_PUT_BE32 (fst (absorb 64 fips1_compress h (p @ fips1_pad n)))))"
proof -
  have bits: "sha1_count0 ctx = of_nat (8 * n)" "sha1_count1 ctx = of_nat (8 * n div 2 ^ 32)"
    using rel unfolding sha1_rel_def by blast+
  let ?k = "(120 - (n + 1) mod 64) mod 64" and ?L = "WPA_PUT_BE64 (of_nat (8 * n))"
  obtain h1 p1 where a1: "absorb 64 fips1_compress h (p @ [0x80]) = (h1, p1)" by fastforce
  obtain h2 p2 where a2: "absorb 64 fips1_compress h1 (p1 @ replicate ?k 0) = (h2, p2)" by fastforce
  obtain h3 p3 where a3: "absorb 64 fips1_compress h2 (p2 @ ?L) = (h3, p3)" by fastforce
  obtain c1 where c1: "SHA1Update ctx [0x80] = Ret c1" "sha1_rel c1 h1 p1 (n + 1)"
    using sha1_update_rel [OF rel _ a1] by auto
  obtain c2 where c2: "sha1_pad c1 = Ret c2" "sha1_rel c2 h2 p2 (n + 1 + ?k)"
    using sha1_pad_rel [OF c1(2) a2] by auto
  obtain c3 where c3: "SHA1Update c2 ?L = Ret c3" "sha1_state c3 = h3" "length h3 = 5"
    using sha1_update_rel [OF c2(2) _ a3] by (auto simp: sha1_rel_def)
  have "p @ fips1_pad n = ((p @ [0x80]) @ replicate ?k 0) @ ?L"
    using missing_step(1) [of "n mod 64"] by (simp add: fips1_pad_def md_pad_def mod_Suc_eq)
  then have "absorb 64 fips1_compress h (p @ fips1_pad n) = (h3, p3)"
    using a1 a2 a3 absorb_append [of 64 fips1_compress h "(p @ [0x80]) @ replicate ?k 0" ?L]
      absorb_append [of 64 fips1_compress h "p @ [0x80]" "replicate ?k 0"] by (simp only: prod.case)
  then show ?thesis
    using c1 c2 c3 digest_bytes [OF c3(3)]
    unfolding SHA1Final_def Let_def finalcount_bytes bits put_halves(2) [symmetric] by simp
qed

lemma sha1_rel_init: "sha1_rel SHA1Init (sha1_state SHA1Init) [] 0"
  by (simp add: sha1_rel_def SHA1Init_def)

interpretation sha1: md_hash 64 fips1_compress "sha1_state SHA1Init" SHA1Init SHA1Update sha1_rel "2 ^ 32 - 63"
  SHA1Final fips1_pad "\<lambda>h. concat (map WPA_PUT_BE32 h)"
  by unfold_locales (auto simp: sha1_final_rel sha1_rel_init intro: sha1_update_rel)

section \<open>The digest\<close>

definition fips1 :: "u8 list \<Rightarrow> u8 list" where
  "fips1 = md_digest 64 fips1_compress (sha1_state SHA1Init) fips1_pad (\<lambda>h. concat (map WPA_PUT_BE32 h))"

lemma length_fips1 [simp]: "length (fips1 m) = 20"
proof -
  have "length (fst (absorb 64 fips1_compress (sha1_state SHA1Init) k)) = 5" for k
    by (rule absorb_keeps) (simp_all add: SHA1Init_def)
  then show ?thesis by (simp add: fips1_def md_digest_def length_concat o_def sum_list_triv)
qed

lemma sha1_vector_ref:
  "\<forall>d \<in> set addr. length d < 2 ^ 32 - 63 \<Longrightarrow> sha1_vector addr = Ret (fips1 (concat addr))"
  unfolding sha1_vector_def fips1_def by (rule sha1.vector_digest)

text \<open>
  C38. \<open>sha1_vector\<close> returns the SHA-1 digest of the concatenation of its data areas: the
  circular workspace is the message schedule of the standard, and the updates in pieces with
  the padding loop at the end hash the padded message. Every loop ends and no copy leaves
  the buffer, for data areas of less than 2^32 - 63 bytes.
\<close>

theorem sha1_vector_fips:
  assumes "\<forall>d \<in> set addr. length d < 2 ^ 32 - 63"
  shows "sha1_vector addr = Ret (fips1 (concat addr)) \<and> length (fips1 (concat addr)) = 20"
  using sha1_vector_ref [OF assms] by simp

lemma sha1_vector_fips_witness:
  "sha1_vector [[0x61], [], [0x62, 0x63]] = Ret (fips1 [0x61, 0x62, 0x63])"
  using sha1_vector_fips [of "[[0x61], [], [0x62, 0x63]]"] by simp

end
