(* ===== verification/Md5.thy ===== *)
theory Md5
  imports Sha2
begin

text \<open>
  MD5 (\<open>src/crypto/md5-internal.c\<close>, \<open>md5_i.h\<close> of wpa\_supplicant), on a little-endian machine:
  \<open>byteReverse\<close> does nothing there, and the words of the buffer are read in that order.
\<close>

section \<open>The implementation\<close>

record MD5Context =
  md5_buf :: "u32 list"
  md5_bits0 :: u32
  md5_bits1 :: u32
  md5_in :: "u8 list"

definition md5_F1 :: "u32 \<Rightarrow> u32 \<Rightarrow> u32 \<Rightarrow> u32" where
  "md5_F1 x y z = z XOR (x AND (y XOR z))"

definition md5_F2 :: "u32 \<Rightarrow> u32 \<Rightarrow> u32 \<Rightarrow> u32" where
  "md5_F2 x y z = md5_F1 z x y"

definition md5_F3 :: "u32 \<Rightarrow> u32 \<Rightarrow> u32 \<Rightarrow> u32" where
  "md5_F3 x y z = x XOR y XOR z"

definition md5_F4 :: "u32 \<Rightarrow> u32 \<Rightarrow> u32 \<Rightarrow> u32" where
  "md5_F4 x y z = y XOR (x OR NOT z)"

text \<open>
  One step changes the variable \<open>w\<close>. The next step of the unrolled code names the variables in
  the order \<open>z, w, x, y\<close>, so the step also returns them in that order; after four steps every
  variable is in its place again.
\<close>

fun MD5STEP :: "(u32 \<Rightarrow> u32 \<Rightarrow> u32 \<Rightarrow> u32) \<Rightarrow> u32 list \<Rightarrow> nat \<times> u32 \<times> nat \<Rightarrow>
    u32 \<times> u32 \<times> u32 \<times> u32 \<Rightarrow> u32 \<times> u32 \<times> u32 \<times> u32" where
  "MD5STEP f inp (k, c, s) (w, x, y, z) =
     (let w = w + (f x y z + (inp ! k + c));
          w = push_bit s w OR drop_bit (32 - s) w;
          w = w + x
      in (z, w, x, y))"

text \<open>The arguments of the steps: index of the word, constant and shift.\<close>

definition md5_steps1 :: "(nat \<times> u32 \<times> nat) list" where
  "md5_steps1 =
    [(0, 0xd76aa478, 7), (1, 0xe8c7b756, 12), (2, 0x242070db, 17), (3, 0xc1bdceee, 22),
     (4, 0xf57c0faf, 7), (5, 0x4787c62a, 12), (6, 0xa8304613, 17), (7, 0xfd469501, 22),
     (8, 0x698098d8, 7), (9, 0x8b44f7af, 12), (10, 0xffff5bb1, 17), (11, 0x895cd7be, 22),
     (12, 0x6b901122, 7), (13, 0xfd987193, 12), (14, 0xa679438e, 17), (15, 0x49b40821, 22)]"

definition md5_steps2 :: "(nat \<times> u32 \<times> nat) list" where
  "md5_steps2 =
    [(1, 0xf61e2562, 5), (6, 0xc040b340, 9), (11, 0x265e5a51, 14), (0, 0xe9b6c7aa, 20),
     (5, 0xd62f105d, 5), (10, 0x02441453, 9), (15, 0xd8a1e681, 14), (4, 0xe7d3fbc8, 20),
     (9, 0x21e1cde6, 5), (14, 0xc33707d6, 9), (3, 0xf4d50d87, 14), (8, 0x455a14ed, 20),
     (13, 0xa9e3e905, 5), (2, 0xfcefa3f8, 9), (7, 0x676f02d9, 14), (12, 0x8d2a4c8a, 20)]"

definition md5_steps3 :: "(nat \<times> u32 \<times> nat) list" where
  "md5_steps3 =
    [(5, 0xfffa3942, 4), (8, 0x8771f681, 11), (11, 0x6d9d6122, 16), (14, 0xfde5380c, 23),
     (1, 0xa4beea44, 4), (4, 0x4bdecfa9, 11), (7, 0xf6bb4b60, 16), (10, 0xbebfbc70, 23),
     (13, 0x289b7ec6, 4), (0, 0xeaa127fa, 11), (3, 0xd4ef3085, 16), (6, 0x04881d05, 23),
     (9, 0xd9d4d039, 4), (12, 0xe6db99e5, 11), (15, 0x1fa27cf8, 16), (2, 0xc4ac5665, 23)]"

definition md5_steps4 :: "(nat \<times> u32 \<times> nat) list" where
  "md5_steps4 =
    [(0, 0xf4292244, 6), (7, 0x432aff97, 10), (14, 0xab9423a7, 15), (5, 0xfc93a039, 21),
     (12, 0x655b59c3, 6), (3, 0x8f0ccc92, 10), (10, 0xffeff47d, 15), (1, 0x85845dd1, 21),
     (8, 0x6fa87e4f, 6), (15, 0xfe2ce6e0, 10), (6, 0xa3014314, 15), (13, 0x4e0811a1, 21),
     (4, 0xf7537e82, 6), (11, 0xbd3af235, 10), (2, 0x2ad7d2bb, 15), (9, 0xeb86d391, 21)]"

definition MD5Transform :: "u32 list \<Rightarrow> u32 list \<Rightarrow> u32 list" where
  "MD5Transform buf inp =
     (let v = (buf ! 0, buf ! 1, buf ! 2, buf ! 3);
          v = fold (MD5STEP md5_F1 inp) md5_steps1 v;
          v = fold (MD5STEP md5_F2 inp) md5_steps2 v;
          v = fold (MD5STEP md5_F3 inp) md5_steps3 v;
          (a, b, c, d) = fold (MD5STEP md5_F4 inp) md5_steps4 v
      in [buf ! 0 + a, buf ! 1 + b, buf ! 2 + c, buf ! 3 + d])"

text \<open>The bytes of \<open>in\<close> as an array of words.\<close>

definition md5_words :: "u8 list \<Rightarrow> u32 list" where
  "md5_words b = map (\<lambda>i. WPA_GET_LE32 (drop (4 * i) b)) [0..<16]"

definition MD5Init :: MD5Context where
  "MD5Init = \<lparr>md5_buf = [0x67452301, 0xefcdab89, 0x98badcfe, 0x10325476],
     md5_bits0 = 0, md5_bits1 = 0, md5_in = replicate 64 0\<rparr>"

text \<open>The chunks of 64 bytes, and what remains of the data.\<close>

function md5_chunks :: "MD5Context \<Rightarrow> u8 list \<Rightarrow> MD5Context" where
  "md5_chunks ctx data =
     (if 64 \<le> length data
      then let inp = put_at 0 (take 64 data) (md5_in ctx)
           in md5_chunks (ctx\<lparr>md5_in := inp, md5_buf := MD5Transform (md5_buf ctx) (md5_words inp)\<rparr>)
                (drop 64 data)
      else ctx\<lparr>md5_in := put_at 0 data (md5_in ctx)\<rparr>)"
  by pat_completeness auto
termination
  by (relation "measure (\<lambda>(_, data). length data)") auto

declare md5_chunks.simps [simp del]

definition MD5Update :: "MD5Context \<Rightarrow> u8 list \<Rightarrow> MD5Context" where
  "MD5Update ctx data =
     (let len = of_nat (length data) :: u32;
          t = md5_bits0 ctx;
          b0 = t + push_bit 3 len;
          b1 = (if b0 < t then md5_bits1 ctx + 1 else md5_bits1 ctx) + drop_bit 29 len;
          ctx = ctx\<lparr>md5_bits0 := b0, md5_bits1 := b1\<rparr>;
          t = unat (drop_bit 3 t AND 0x3f)
      in if t \<noteq> 0 then
           let p = t; t = 64 - t
           in if length data < t then ctx\<lparr>md5_in := put_at p data (md5_in ctx)\<rparr>
              else
                let inp = put_at p (take t data) (md5_in ctx)
                in md5_chunks (ctx\<lparr>md5_in := inp, md5_buf := MD5Transform (md5_buf ctx) (md5_words inp)\<rparr>)
                     (drop t data)
         else md5_chunks ctx data)"

definition MD5Final :: "MD5Context \<Rightarrow> u8 list" where
  "MD5Final ctx =
     (let count = unat (drop_bit 3 (md5_bits0 ctx) AND 0x3f);
          inp = (md5_in ctx)[count := 0x80];
          p = count + 1;
          count = 64 - 1 - count;
          (buf, inp) =
            (if count < 8
             then let inp = put_at p (replicate count 0) inp;
                      buf = MD5Transform (md5_buf ctx) (md5_words inp)
                  in (buf, put_at 0 (replicate 56 0) inp)
             else (md5_buf ctx, put_at p (replicate (count - 8) 0) inp));
          inp = put_at (4 * 14) (WPA_PUT_LE32 (md5_bits0 ctx)) inp;
          inp = put_at (4 * 15) (WPA_PUT_LE32 (md5_bits1 ctx)) inp;
          buf = MD5Transform buf (md5_words inp)
      in concat (map WPA_PUT_LE32 buf))"

definition md5_vector :: "u8 list list \<Rightarrow> u8 list" where
  "md5_vector addr = MD5Final (fold (\<lambda>d ctx. MD5Update ctx d) addr MD5Init)"

section \<open>Compression\<close>

text \<open>
  The steps as RFC 1321 gives them, by the number of the step; the table of constants is the
  one of the code, read off in order.
\<close>

fun rfc1321_f :: "nat \<Rightarrow> u32 \<Rightarrow> u32 \<Rightarrow> u32 \<Rightarrow> u32" where
  "rfc1321_f i x y z =
     (if i < 16 then (x AND y) OR (NOT x AND z)
      else if i < 32 then (x AND z) OR (y AND NOT z)
      else if i < 48 then x XOR y XOR z
      else y XOR (x OR NOT z))"

definition rfc1321_k :: "nat \<Rightarrow> nat" where
  "rfc1321_k i =
     (if i < 16 then i else if i < 32 then (5 * i + 1) mod 16 else if i < 48 then (3 * i + 5) mod 16
      else (7 * i) mod 16)"

definition rfc1321_s :: "nat \<Rightarrow> nat" where
  "rfc1321_s i =
     (if i < 16 then [7, 12, 17, 22] else if i < 32 then [5, 9, 14, 20] else if i < 48 then [4, 11, 16, 23]
      else [6, 10, 15, 21]) ! (i mod 4)"

definition rfc1321_T :: "u32 list" where
  "rfc1321_T = map (\<lambda>(_, c, _). c) (md5_steps1 @ md5_steps2 @ md5_steps3 @ md5_steps4)"

fun rfc1321_step :: "u32 list \<Rightarrow> nat \<Rightarrow> u32 \<times> u32 \<times> u32 \<times> u32 \<Rightarrow> u32 \<times> u32 \<times> u32 \<times> u32" where
  "rfc1321_step M i (a, b, c, d) =
     (d, b + word_rotl (rfc1321_s i) (a + rfc1321_f i b c d + M ! rfc1321_k i + rfc1321_T ! i), b, c)"

definition rfc1321_compress :: "u32 list \<Rightarrow> u8 list \<Rightarrow> u32 list" where
  "rfc1321_compress h blk =
     (case fold (rfc1321_step (map (\<lambda>i. WPA_GET_LE32 (drop (4 * i) blk)) [0..<16])) [0..<64] (h ! 0, h ! 1, h ! 2, h ! 3) of
        (a, b, c, d) \<Rightarrow> map2 (+) h [a, b, c, d])"

lemma rfc1321_functions:
  "md5_F1 x y z = (x AND y) OR (NOT x AND z)" "md5_F2 x y z = (x AND z) OR (y AND NOT z)"
  by (rule bit_word_eqI, auto simp: md5_F1_def md5_F2_def bit_simps)+

lemma MD5STEP_rfc1321:
  assumes "\<And>x y z. f x y z = rfc1321_f i x y z" "k = rfc1321_k i" "c = rfc1321_T ! i" "s = rfc1321_s i"
    "0 < s" "s < 32"
  shows "MD5STEP f M (k, c, s) v = rfc1321_step M i v"
proof -
  obtain w x y z where v: "v = (w, x, y, z)" by (cases v)
  show ?thesis
    using assms(5,6) by (simp add: v assms(1-4) Let_def add_ac rol32 del: rfc1321_f.simps)
qed

lemma md5_steps:
  "md5_steps1 = map (\<lambda>i. (rfc1321_k i, rfc1321_T ! i, rfc1321_s i)) [0..<16]"
  "md5_steps2 = map (\<lambda>i. (rfc1321_k i, rfc1321_T ! i, rfc1321_s i)) [16..<32]"
  "md5_steps3 = map (\<lambda>i. (rfc1321_k i, rfc1321_T ! i, rfc1321_s i)) [32..<48]"
  "md5_steps4 = map (\<lambda>i. (rfc1321_k i, rfc1321_T ! i, rfc1321_s i)) [48..<64]"
  by code_simp+

lemma rfc1321_shift: "i < 64 \<Longrightarrow> 0 < rfc1321_s i \<and> rfc1321_s i < 32"
proof -
  assume "i < 64"
  moreover have "i mod 4 \<in> {0, 1, 2, 3}" by auto
  ultimately show ?thesis by (auto simp: rfc1321_s_def)
qed

lemma md5_rounds:
  assumes "steps = map (\<lambda>i. (rfc1321_k i, rfc1321_T ! i, rfc1321_s i)) [lo..<hi]" "hi \<le> 64"
    and "\<And>i x y z. lo \<le> i \<Longrightarrow> i < hi \<Longrightarrow> f x y z = rfc1321_f i x y z"
  shows "fold (MD5STEP f M) steps v = fold (rfc1321_step M) [lo..<hi] v"
  unfolding assms(1) fold_map using assms(2,3) rfc1321_shift
  by (intro fold_cong) (auto intro!: MD5STEP_rfc1321)

lemma MD5Transform_rfc1321:
  assumes "length h = 4"
  shows "MD5Transform h (md5_words b) = rfc1321_compress h b"
proof -
  have split: "[0..<64] = [0..<16] @ [16..<32] @ [32..<48] @ [48..<64]"
    by code_simp
  have sum: "[h ! 0 + a, h ! 1 + b, h ! 2 + c, h ! 3 + d] = map2 (+) h [a, b, c, d]" for a b c d
    using assms by (auto simp: numeral_eq_Suc length_Suc_conv)
  let ?M = "md5_words b"
  have rounds: "fold (MD5STEP md5_F1 ?M) md5_steps1 v = fold (rfc1321_step ?M) [0..<16] v"
    "fold (MD5STEP md5_F2 ?M) md5_steps2 v = fold (rfc1321_step ?M) [16..<32] v"
    "fold (MD5STEP md5_F3 ?M) md5_steps3 v = fold (rfc1321_step ?M) [32..<48] v"
    "fold (MD5STEP md5_F4 ?M) md5_steps4 v = fold (rfc1321_step ?M) [48..<64] v" for v
    by (rule md5_rounds, rule md5_steps, simp, simp add: rfc1321_functions md5_F3_def md5_F4_def)+
  show ?thesis
    unfolding MD5Transform_def Let_def rounds rfc1321_compress_def split fold_append o_def
      md5_words_def [symmetric] sum by (rule refl)
qed

lemma length_rfc1321_compress [simp]: "length h = 4 \<Longrightarrow> length (rfc1321_compress h b) = 4"
  by (simp add: rfc1321_compress_def split: prod.split)

section \<open>Refinement\<close>

definition md5_rel :: "MD5Context \<Rightarrow> u32 list \<Rightarrow> u8 list \<Rightarrow> nat \<Rightarrow> bool" where
  "md5_rel ctx h p n \<longleftrightarrow>
     md5_buf ctx = h \<and> length h = 4 \<and> length (md5_in ctx) = 64 \<and>
     take (length p) (md5_in ctx) = p \<and> length p = n mod 64 \<and>
     md5_bits0 ctx = of_nat (8 * n) \<and> md5_bits1 ctx = of_nat (8 * n div 2 ^ 32)"

lemma md5_chunks_absorb:
  assumes "length (md5_buf ctx) = 4" "length (md5_in ctx) = 64"
    and "absorb 64 rfc1321_compress (md5_buf ctx) data = (h, p)"
  shows "\<exists>inp. md5_chunks ctx data = ctx\<lparr>md5_buf := h, md5_in := inp\<rparr> \<and>
    length h = 4 \<and> length inp = 64 \<and> take (length p) inp = p"
  using assms
proof (induction ctx data rule: md5_chunks.induct)
  case (1 ctx data)
  show ?case
  proof (cases "64 \<le> length data")
    case True
    then have "put_at 0 (take 64 data) (md5_in ctx) = take 64 data"
      using "1.prems"(2) by (simp add: put_at_def)
    with True 1 show ?thesis
      by (simp add: md5_chunks.simps [of ctx] absorb_step MD5Transform_rfc1321 Let_def)
  next
    case False
    with "1.prems" show ?thesis
      by (auto simp: md5_chunks.simps [of ctx] absorb_short put_at_def intro!: exI)
  qed
qed

lemma md5_update_rel:
  assumes rel: "md5_rel ctx h p n" and len: "length d < 2 ^ 32"
    and abs: "absorb 64 rfc1321_compress h (p @ d) = (h', p')"
  shows "md5_rel (MD5Update ctx d) h' p' (n + length d)"
proof -
  have buf: "md5_buf ctx = h" "length h = 4" and inp: "length (md5_in ctx) = 64" "take (length p) (md5_in ctx) = p"
    and pm: "length p = n mod 64" and bits: "md5_bits0 ctx = of_nat (8 * n)" "md5_bits1 ctx = of_nat (8 * n div 2 ^ 32)"
    using rel unfolding md5_rel_def by blast+
  have lt: "length p < 64" using pm by simp
  have pm': "length p' = (n + length d) mod 64"
    using absorb_rest_length [OF _ abs] by (simp add: pm mod_add_left_eq)
  define c where "c = ctx\<lparr>md5_bits0 := of_nat (8 * (n + length d)), md5_bits1 := of_nat (8 * (n + length d) div 2 ^ 32)\<rparr>"
  note count = bit_count_add [OF len, of n]
  have upd: "MD5Update ctx d =
      (if length p \<noteq> 0 then
         if length d < 64 - length p then c\<lparr>md5_in := put_at (length p) d (md5_in ctx)\<rparr>
         else md5_chunks (c\<lparr>md5_in := put_at (length p) (take (64 - length p) d) (md5_in ctx),
                md5_buf := MD5Transform h (md5_words (put_at (length p) (take (64 - length p) d) (md5_in ctx)))\<rparr>)
                (drop (64 - length p) d)
       else md5_chunks c d)"
    unfolding MD5Update_def Let_def bits count(3) unfolding count(1) c_def pm
    by (simp add: buffered [simplified] buf)
  consider (part) "length p + length d < 64" "p \<noteq> []" | (full) "64 \<le> length p + length d" "p \<noteq> []" | (none) "p = []"
    by linarith
  then show ?thesis
  proof cases
    case part
    with abs have "h' = h" "p' = p @ d" by (simp_all add: absorb_short)
    moreover have "length d < 64 - length p" using part by simp
    ultimately show ?thesis
      using part buf inp pm' put_at_prefix [OF inp(2), of d] by (simp add: upd md5_rel_def c_def)
  next
    case full
    let ?k = "64 - length p"
    let ?b = "p @ take ?k d"
    have b: "put_at (length p) (take ?k d) (md5_in ctx) = ?b"
      using full inp lt by (simp add: put_at_full)
    have "absorb 64 rfc1321_compress (rfc1321_compress h ?b) (drop ?k d) = (h', p')"
      using abs full by (simp add: absorb_pieces [OF lt])
    then show ?thesis
      using md5_chunks_absorb [of "c\<lparr>md5_in := ?b, md5_buf := rfc1321_compress h ?b\<rparr>" "drop ?k d" h' p']
        full pm' lt buf by (auto simp: upd b MD5Transform_rfc1321 md5_rel_def c_def)
  next
    case none
    with md5_chunks_absorb [of c d h' p'] abs buf inp pm' show ?thesis
      by (auto simp: upd md5_rel_def c_def)
  qed
qed

definition md5_pad :: "nat \<Rightarrow> u8 list" where
  "md5_pad = md_pad 64 8 (\<lambda>n. WPA_PUT_LE64 (of_nat (8 * n)))"

lemma md5_final_rel:
  assumes "md5_rel ctx h p n"
  shows "MD5Final ctx = concat (map WPA_PUT_LE32 (fst (absorb 64 rfc1321_compress h (p @ md5_pad n))))"
proof -
  have buf: "md5_buf ctx = h" "length h = 4" and inp: "length (md5_in ctx) = 64" "take (length p) (md5_in ctx) = p"
    and pm: "length p = n mod 64" and bits: "md5_bits0 ctx = of_nat (8 * n)" "md5_bits1 ctx = of_nat (8 * n div 2 ^ 32)"
    using assms unfolding md5_rel_def by blast+
  have lt: "length p < 64" using pm by simp
  let ?b = "md5_in ctx" and ?L0 = "WPA_PUT_LE32 (md5_bits0 ctx)" and ?L1 = "WPA_PUT_LE32 (md5_bits1 ctx)"
  have cnt: "unat (drop_bit 3 (md5_bits0 ctx) AND 0x3f) = length p"
    unfolding bits pm by (rule buffered) simp
  have pad: "fst (absorb 64 rfc1321_compress h (p @ md5_pad n)) =
      (if length p + 1 \<le> 56 then rfc1321_compress h (p @ 0x80 # replicate (56 - (length p + 1)) 0 @ ?L0 @ ?L1)
       else rfc1321_compress (rfc1321_compress h (p @ 0x80 # replicate (64 - (length p + 1)) 0)) (replicate 56 0 @ ?L0 @ ?L1))"
    using absorb_pad [of 8 64 p n "\<lambda>n. WPA_PUT_LE64 (of_nat (8 * n))" rfc1321_compress h] pm
    unfolding md5_pad_def put_halves bits by simp
  have one: "?b[length p := 0x80] = put_at (length p) [0x80] ?b" using lt inp by (simp add: put_at_one)
  have tail: "put_at 60 ?L1 (put_at 56 ?L0 b) = put_at 56 (?L0 @ ?L1) b" if "length b = 64" for b
    using put_at_append [of 56 ?L0 b ?L1] that by simp
  show ?thesis
  proof (cases "length p + 1 \<le> 56")
    case True
    let ?z = "replicate (56 - (length p + 1)) (0 :: u8)"
    have "put_at (length p + 1) ?z (put_at (length p) [0x80] ?b) = put_at (length p) (0x80 # ?z) ?b"
      using put_at_append [of "length p" "[0x80]" ?b ?z] lt inp by simp
    moreover have "put_at 56 (?L0 @ ?L1) (put_at (length p) (0x80 # ?z) ?b) = p @ 0x80 # ?z @ ?L0 @ ?L1"
      using put_at_append [of "length p" "0x80 # ?z" ?b "?L0 @ ?L1"] put_at_full [OF inp(2), of "0x80 # ?z @ ?L0 @ ?L1"] True inp by simp
    moreover have "\<not> 63 - length p < 8" using True by simp
    ultimately show ?thesis
      using True lt inp by (simp add: MD5Final_def Let_def cnt one buf pad tail MD5Transform_rfc1321)
  next
    case False
    let ?z = "replicate (64 - (length p + 1)) (0 :: u8)"
    have "put_at (length p + 1) ?z (put_at (length p) [0x80] ?b) = p @ 0x80 # ?z"
      using put_at_append [of "length p" "[0x80]" ?b ?z] put_at_full [OF inp(2), of "0x80 # ?z"] lt inp by simp
    moreover have "put_at 56 (?L0 @ ?L1) (put_at 0 (replicate 56 0) (p @ 0x80 # ?z)) = replicate 56 0 @ ?L0 @ ?L1"
      using put_at_append [of 0 "replicate 56 0" "p @ 0x80 # ?z" "?L0 @ ?L1"] put_at_full [of "[]" _ "replicate 56 0 @ ?L0 @ ?L1"] lt by simp
    moreover have "63 - length p < 8" using False by simp
    ultimately show ?thesis
      using False lt inp by (simp add: MD5Final_def Let_def cnt one buf pad tail MD5Transform_rfc1321)
  qed
qed

lemma md5_rel_init: "md5_rel MD5Init (md5_buf MD5Init) [] 0"
  by (simp add: md5_rel_def MD5Init_def)

interpretation md5: md_hash 64 rfc1321_compress "md5_buf MD5Init" MD5Init
  "\<lambda>ctx d. Ret (MD5Update ctx d)" md5_rel "2 ^ 32" "\<lambda>ctx. Ret (MD5Final ctx)" md5_pad "\<lambda>h. concat (map WPA_PUT_LE32 h)"
  by unfold_locales (auto simp: md5_final_rel md5_rel_init intro: md5_update_rel)

section \<open>The digest\<close>

definition rfc1321_md5 :: "u8 list \<Rightarrow> u8 list" where
  "rfc1321_md5 = md_digest 64 rfc1321_compress (md5_buf MD5Init) md5_pad (\<lambda>h. concat (map WPA_PUT_LE32 h))"

lemma md5_vector_ref:
  "\<forall>d \<in> set addr. length d < 2 ^ 32 \<Longrightarrow> md5_vector addr = rfc1321_md5 (concat addr)"
  using md5.vector_digest [of addr] by (simp add: fold_outcome_Ret md5_vector_def rfc1321_md5_def)

lemma length_rfc1321_md5 [simp]: "length (rfc1321_md5 m) = 16"
proof -
  have "length (fst (absorb 64 rfc1321_compress (md5_buf MD5Init) k)) = 4" for k
    by (rule absorb_keeps) (simp_all add: MD5Init_def)
  then show ?thesis by (simp add: rfc1321_md5_def md_digest_def length_concat o_def sum_list_triv)
qed

text \<open>
  \<open>md5_vector\<close> returns the MD5 digest of the concatenation of its data areas: the table of
  unrolled steps, the 64-bit count in two words with the carry between them, the filling of
  the buffer and the padding agree with RFC 1321 on one message.
\<close>

theorem md5_vector_rfc1321:
  assumes "\<forall>d \<in> set addr. length d < 2 ^ 32"
  shows "md5_vector addr = rfc1321_md5 (concat addr) \<and> length (md5_vector addr) = 16"
  using md5_vector_ref [OF assms] by simp

lemma md5_vector_rfc1321_witness:
  "md5_vector [[0x61], [], [0x62, 0x63]] = rfc1321_md5 [0x61, 0x62, 0x63]"
  using md5_vector_rfc1321 [of "[[0x61], [], [0x62, 0x63]]"] by simp

end
