(* ===== verification/Hmac.thy ===== *)
theory Hmac
  imports Sha256 Sha512 Sha1 Md5
begin

text \<open>
  HMAC over a vector of data areas (\<open>src/crypto/md5.c\<close>, \<open>sha1.c\<close>, \<open>sha256.c\<close>, \<open>sha384.c\<close> and
  \<open>sha512.c\<close> of wpa\_supplicant). The five functions are the same text at different hashes, block
  sizes and limits, so the text is one definition and each function an instance of it; the
  locale \<open>vector_hash\<close> is what the text needs of the hash. For SHA-384 and SHA-512 the
  allocations of the hash are taken to succeed.
\<close>

section \<open>The implementation\<close>

definition hmac_text :: "nat \<Rightarrow> nat \<Rightarrow> (u8 list list \<Rightarrow> u8 list outcome) \<Rightarrow> u8 list \<Rightarrow> u8 list list \<Rightarrow> u8 list outcome" where
  "hmac_text B max_elem vec key addr =
     (if max_elem < length addr then Err (-1)
      else bind_outcome (if B < length key then vec [key] else Ret key) (\<lambda>key.
        let k_pad = put_at 0 key (replicate B 0);
            k_pad = map (\<lambda>b. b XOR 0x36) k_pad
        in bind_outcome (vec (k_pad # addr)) (\<lambda>mac.
             let k_pad = put_at 0 key (replicate B 0);
                 k_pad = map (\<lambda>b. b XOR 0x5c) k_pad
             in vec [k_pad, mac])))"

definition HMAC_VECTOR_MAX_ELEM :: nat where
  "HMAC_VECTOR_MAX_ELEM = 11"

definition hmac_md5_vector :: "u8 list \<Rightarrow> u8 list list \<Rightarrow> u8 list outcome" where
  "hmac_md5_vector = hmac_text 64 5 (\<lambda>addr. Ret (md5_vector addr))"

definition hmac_md5 :: "u8 list \<Rightarrow> u8 list \<Rightarrow> u8 list outcome" where
  "hmac_md5 key data = hmac_md5_vector key [data]"

definition hmac_sha1_vector :: "u8 list \<Rightarrow> u8 list list \<Rightarrow> u8 list outcome" where
  "hmac_sha1_vector = hmac_text 64 5 sha1_vector"

definition hmac_sha1 :: "u8 list \<Rightarrow> u8 list \<Rightarrow> u8 list outcome" where
  "hmac_sha1 key data = hmac_sha1_vector key [data]"

definition hmac_sha256_vector :: "u8 list \<Rightarrow> u8 list list \<Rightarrow> u8 list outcome" where
  "hmac_sha256_vector = hmac_text 64 HMAC_VECTOR_MAX_ELEM sha256_vector"

definition hmac_sha256 :: "u8 list \<Rightarrow> u8 list \<Rightarrow> u8 list outcome" where
  "hmac_sha256 key data = hmac_sha256_vector key [data]"

definition hmac_sha384_vector :: "u8 list \<Rightarrow> u8 list list \<Rightarrow> u8 list outcome" where
  "hmac_sha384_vector = hmac_text 128 HMAC_VECTOR_MAX_ELEM (sha384_vector (\<lambda>_. True))"

definition hmac_sha384 :: "u8 list \<Rightarrow> u8 list \<Rightarrow> u8 list outcome" where
  "hmac_sha384 key data = hmac_sha384_vector key [data]"

definition hmac_sha512_vector :: "u8 list \<Rightarrow> u8 list list \<Rightarrow> u8 list outcome" where
  "hmac_sha512_vector = hmac_text 128 HMAC_VECTOR_MAX_ELEM (sha512_vector (\<lambda>_. True))"

definition hmac_sha512 :: "u8 list \<Rightarrow> u8 list \<Rightarrow> u8 list outcome" where
  "hmac_sha512 key data = hmac_sha512_vector key [data]"

section \<open>Reference\<close>

text \<open>RFC 2104, with the hash \<open>H\<close> of block size \<open>B\<close>.\<close>

definition rfc2104 :: "nat \<Rightarrow> (u8 list \<Rightarrow> u8 list) \<Rightarrow> u8 list \<Rightarrow> u8 list \<Rightarrow> u8 list" where
  "rfc2104 B H key text =
     (let k = (if B < length key then H key else key);
          k = k @ replicate (B - length k) 0
      in H (map (\<lambda>b. b XOR 0x5c) k @ H (map (\<lambda>b. b XOR 0x36) k @ text)))"

text \<open>
  A hash of vectors: up to 16 data areas of less than \<open>lim\<close> bytes give the hash of the
  concatenation.
\<close>

locale vector_hash =
  fixes vec :: "u8 list list \<Rightarrow> u8 list outcome" and H :: "u8 list \<Rightarrow> u8 list" and B L lim :: nat
  assumes vec_hash: "\<forall>d \<in> set ds. length d < lim \<Longrightarrow> length ds \<le> 16 \<Longrightarrow> vec ds = Ret (H (concat ds))"
    and length_hash: "length (H m) = L"
    and sizes: "0 < L" "L \<le> B" "B < lim"
begin

lemma hmac_rfc2104:
  assumes "length key < lim" "\<forall>d \<in> set addr. length d < lim" "length addr \<le> max_elem" "max_elem < 16"
  shows "hmac_text B max_elem vec key addr = Ret (rfc2104 B H key (concat addr))"
proof -
  define k where "k = (if B < length key then H key else key)"
  have k: "length k \<le> B" by (simp add: k_def length_hash sizes)
  define K where "K = k @ replicate (B - length k) 0"
  have K: "length K < lim" using k sizes by (simp add: K_def)
  have "(if B < length key then vec [key] else Ret key) = Ret k"
    using vec_hash [of "[key]"] assms(1) by (simp add: k_def)
  moreover have "put_at 0 k (replicate B 0) = K"
    by (simp add: put_at_def K_def)
  moreover have "vec (map f K # addr) = Ret (H (map f K @ concat addr))" for f
    using vec_hash [of "map f K # addr"] assms K by simp
  moreover have "vec [map f K, H m] = Ret (H (map f K @ H m))" for f m
    using vec_hash [of "[map f K, H m]"] K sizes by (simp add: length_hash)
  ultimately show ?thesis
    using assms(3) unfolding hmac_text_def rfc2104_def Let_def k_def [symmetric] K_def [symmetric] by simp
qed

lemma length_rfc2104: "length (rfc2104 B H key m) = L"
  by (simp add: rfc2104_def Let_def length_hash)

end

interpretation vsha256: vector_hash sha256_vector fips256 64 32 "2 ^ 32"
  by unfold_locales (simp_all add: sha256_vector_ref)

interpretation vsha1: vector_hash sha1_vector fips1 64 20 "2 ^ 32 - 63"
  by unfold_locales (simp_all add: sha1_vector_ref)

interpretation vmd5: vector_hash "\<lambda>addr. Ret (md5_vector addr)" rfc1321_md5 64 16 "2 ^ 32"
  by unfold_locales (simp_all add: md5_vector_ref)

interpretation vsha512: vector_hash "sha512_vector (\<lambda>_. True)" fips512 128 64 "2 ^ 32"
  by unfold_locales (simp_all add: sha512_vector_ref)

interpretation vsha384: vector_hash "sha384_vector (\<lambda>_. True)" fips384 128 48 "2 ^ 32"
  by unfold_locales (simp_all add: sha512_vector_ref)

text \<open>
  The HMAC functions return what RFC 2104 defines for their hash, for keys of any length
  (longer ones are hashed first) and every number of data areas up to their limit; beyond the
  limit they fail.
\<close>

theorem hmac_vectors_rfc2104:
  assumes "length key < 2 ^ 32 - 63" "\<forall>d \<in> set addr. length d < 2 ^ 32 - 63"
  shows "hmac_md5_vector key addr =
      (if length addr \<le> 5 then Ret (rfc2104 64 rfc1321_md5 key (concat addr)) else Err (-1)) \<and>
    hmac_sha1_vector key addr =
      (if length addr \<le> 5 then Ret (rfc2104 64 fips1 key (concat addr)) else Err (-1)) \<and>
    hmac_sha256_vector key addr =
      (if length addr \<le> 11 then Ret (rfc2104 64 fips256 key (concat addr)) else Err (-1)) \<and>
    hmac_sha384_vector key addr =
      (if length addr \<le> 11 then Ret (rfc2104 128 fips384 key (concat addr)) else Err (-1)) \<and>
    hmac_sha512_vector key addr =
      (if length addr \<le> 11 then Ret (rfc2104 128 fips512 key (concat addr)) else Err (-1))"
proof -
  have l: "length key < 2 ^ 32" "\<forall>d \<in> set addr. length d < 2 ^ 32" using assms by auto
  show ?thesis
    using vmd5.hmac_rfc2104 [OF l, of 5] vsha1.hmac_rfc2104 [OF assms, of 5] vsha256.hmac_rfc2104 [OF l, of 11]
      vsha384.hmac_rfc2104 [OF l, of 11] vsha512.hmac_rfc2104 [OF l, of 11]
    by (auto simp: hmac_md5_vector_def hmac_sha1_vector_def hmac_sha256_vector_def hmac_sha384_vector_def
        hmac_sha512_vector_def HMAC_VECTOR_MAX_ELEM_def) (auto simp: hmac_text_def)
qed

lemma hmac_vectors_rfc2104_witness:
  "hmac_sha256_vector (replicate 70 7) [[1, 2], [3]] = Ret (rfc2104 64 fips256 (replicate 70 7) [1, 2, 3])"
  using hmac_vectors_rfc2104 [of "replicate 70 7" "[[1, 2], [3]]"] by simp

end
