(* ===== verification/Key_Derivation.thy ===== *)
theory Key_Derivation
  imports Hmac
begin

text \<open>
  The key derivation functions over HMAC (\<open>src/crypto\<close> of wpa\_supplicant): the PRF of IEEE
  802.11 (\<open>sha1-prf.c\<close>, \<open>sha256-prf.c\<close>, \<open>sha384-prf.c\<close>, \<open>sha512-prf.c\<close>), HKDF-Expand and the KDF
  of RFC 5295 (\<open>sha256-kdf.c\<close>, \<open>sha384-kdf.c\<close>, \<open>sha512-kdf.c\<close>), the PRF of TLS 1.2
  (\<open>sha256-tlsprf.c\<close>, \<open>sha384-tlsprf.c\<close>), the T-PRF of EAP-FAST (\<open>sha1-tprf.c\<close>) and PBKDF2
  (\<open>sha1-pbkdf2.c\<close>). All of them fill a buffer block by block; the reference is the block with
  a given number. Functions that are the same text at different hashes are instances of one
  definition. The output buffer is the result.
\<close>

section \<open>The implementation\<close>

type_synonym hmac = "u8 list \<Rightarrow> u8 list list \<Rightarrow> u8 list outcome"

text \<open>
  The loop of \<open>sha256_prf_bits\<close>, with \<open>left\<close> bytes of the buffer to fill and blocks of \<open>L\<close>
  bytes; the counter has 16 bits.
\<close>

function prf_loop :: "hmac \<Rightarrow> nat \<Rightarrow> u8 list \<Rightarrow> u8 list \<Rightarrow> u8 list \<Rightarrow> u8 list \<Rightarrow> u16 \<Rightarrow> nat \<Rightarrow> u8 list outcome" where
  "prf_loop hmac L key label data length_le counter left =
     (if left = 0 then Ret []
      else bind_outcome (hmac key [WPA_PUT_LE16 counter, label, data, length_le]) (\<lambda>hash.
        if L \<le> left \<and> 0 < L
        then bind_outcome (prf_loop hmac L key label data length_le (counter + 1) (left - L)) (\<lambda>rest. Ret (hash @ rest))
        else Ret (take left hash)))"
  by pat_completeness auto
termination
  by (relation "measure (\<lambda>(_, _, _, _, _, _, _, left). left)") auto

declare prf_loop.simps [simp del]

definition prf_bits_text :: "hmac \<Rightarrow> nat \<Rightarrow> u8 list \<Rightarrow> u8 list \<Rightarrow> u8 list \<Rightarrow> u32 \<Rightarrow> u8 list outcome" where
  "prf_bits_text hmac L key label data buf_len_bits =
     (let buf_len = unat ((buf_len_bits + 7) div 8);
          length_le = WPA_PUT_LE16 (ucast buf_len_bits)
      in bind_outcome (prf_loop hmac L key label data length_le 1 buf_len) (\<lambda>buf.
           if 0 < buf_len \<and> buf_len_bits mod 8 \<noteq> 0
           then let mask = push_bit (8 - unat (buf_len_bits mod 8)) 0xff :: u8
                in Ret (buf[buf_len - 1 := buf ! (buf_len - 1) AND mask])
           else Ret buf))"

definition sha256_prf_bits :: "u8 list \<Rightarrow> u8 list \<Rightarrow> u8 list \<Rightarrow> u32 \<Rightarrow> u8 list outcome" where
  "sha256_prf_bits = prf_bits_text hmac_sha256_vector 32"

definition sha256_prf :: "u8 list \<Rightarrow> u8 list \<Rightarrow> u8 list \<Rightarrow> u32 \<Rightarrow> u8 list outcome" where
  "sha256_prf key label data buf_len = sha256_prf_bits key label data (buf_len * 8)"

definition sha384_prf_bits :: "u8 list \<Rightarrow> u8 list \<Rightarrow> u8 list \<Rightarrow> u32 \<Rightarrow> u8 list outcome" where
  "sha384_prf_bits = prf_bits_text hmac_sha384_vector 48"

definition sha384_prf :: "u8 list \<Rightarrow> u8 list \<Rightarrow> u8 list \<Rightarrow> u32 \<Rightarrow> u8 list outcome" where
  "sha384_prf key label data buf_len = sha384_prf_bits key label data (buf_len * 8)"

definition sha512_prf_bits :: "u8 list \<Rightarrow> u8 list \<Rightarrow> u8 list \<Rightarrow> u32 \<Rightarrow> u8 list outcome" where
  "sha512_prf_bits = prf_bits_text hmac_sha512_vector 64"

definition sha512_prf :: "u8 list \<Rightarrow> u8 list \<Rightarrow> u8 list \<Rightarrow> u32 \<Rightarrow> u8 list outcome" where
  "sha512_prf key label data buf_len = sha512_prf_bits key label data (buf_len * 8)"

text \<open>The loop of \<open>sha1_prf\<close>, with a counter of 8 bits. The label includes its final zero.\<close>

function sha1_prf_loop :: "u8 list \<Rightarrow> u8 list \<Rightarrow> u8 list \<Rightarrow> u8 \<Rightarrow> nat \<Rightarrow> u8 list outcome" where
  "sha1_prf_loop key label0 data counter left =
     (if left = 0 then Ret []
      else bind_outcome (hmac_sha1_vector key [label0, data, [counter]]) (\<lambda>hash.
        if 20 \<le> left
        then bind_outcome (sha1_prf_loop key label0 data (counter + 1) (left - 20)) (\<lambda>rest. Ret (hash @ rest))
        else Ret (take left hash)))"
  by pat_completeness auto
termination
  by (relation "measure (\<lambda>(_, _, _, _, left). left)") auto

declare sha1_prf_loop.simps [simp del]

definition sha1_prf :: "u8 list \<Rightarrow> u8 list \<Rightarrow> u8 list \<Rightarrow> nat \<Rightarrow> u8 list outcome" where
  "sha1_prf key label data buf_len = sha1_prf_loop key (label @ [0]) data 0 buf_len"

text \<open>The loop of \<open>sha1_t_prf\<close>; \<open>hash\<close> is the previous block, and empty before the first.\<close>

function sha1_t_prf_loop :: "u8 list \<Rightarrow> u8 list \<Rightarrow> u8 list \<Rightarrow> u8 list \<Rightarrow> u8 list \<Rightarrow> u8 \<Rightarrow> nat \<Rightarrow> u8 list outcome" where
  "sha1_t_prf_loop key label0 seed output_len hash counter left =
     (if left = 0 then Ret []
      else
        let counter = counter + 1
        in bind_outcome (hmac_sha1_vector key [hash, label0, seed, output_len, [counter]]) (\<lambda>hash.
             if 20 \<le> left
             then bind_outcome (sha1_t_prf_loop key label0 seed output_len hash counter (left - 20))
                    (\<lambda>rest. Ret (hash @ rest))
             else Ret (take left hash)))"
  by pat_completeness auto
termination
  by (relation "measure (\<lambda>(_, _, _, _, _, _, left). left)") auto

declare sha1_t_prf_loop.simps [simp del]

definition sha1_t_prf :: "u8 list \<Rightarrow> u8 list \<Rightarrow> u8 list \<Rightarrow> u32 \<Rightarrow> u8 list outcome" where
  "sha1_t_prf key label seed buf_len =
     (let output_len = [ucast (drop_bit 8 buf_len AND 0xff), ucast (buf_len AND 0xff)]
      in sha1_t_prf_loop key (label @ [0]) seed output_len [] 0 (unat buf_len))"

text \<open>The loop of \<open>tls_prf_sha256\<close>.\<close>

function tls_prf_loop :: "hmac \<Rightarrow> nat \<Rightarrow> u8 list \<Rightarrow> u8 list \<Rightarrow> u8 list \<Rightarrow> u8 list \<Rightarrow> nat \<Rightarrow> u8 list outcome" where
  "tls_prf_loop hmac L secret label seed A left =
     (if left = 0 then Ret []
      else bind_outcome (hmac secret [A, label, seed]) (\<lambda>P.
        bind_outcome (hmac secret [A]) (\<lambda>A.
          let clen = (if L < left then L else left)
          in if L = 0 then Ret (take clen P)
             else bind_outcome (tls_prf_loop hmac L secret label seed A (left - clen)) (\<lambda>rest. Ret (take clen P @ rest)))))"
  by pat_completeness auto
termination
  by (relation "measure (\<lambda>(_, _, _, _, _, _, left). left)") auto

declare tls_prf_loop.simps [simp del]

definition tls_prf_text :: "hmac \<Rightarrow> nat \<Rightarrow> u8 list \<Rightarrow> u8 list \<Rightarrow> u8 list \<Rightarrow> nat \<Rightarrow> u8 list outcome" where
  "tls_prf_text hmac L secret label seed outlen =
     bind_outcome (hmac secret [label, seed]) (\<lambda>A. tls_prf_loop hmac L secret label seed A outlen)"

definition tls_prf_sha256 :: "u8 list \<Rightarrow> u8 list \<Rightarrow> u8 list \<Rightarrow> nat \<Rightarrow> u8 list outcome" where
  "tls_prf_sha256 = tls_prf_text hmac_sha256_vector 32"

definition tls_prf_sha384 :: "u8 list \<Rightarrow> u8 list \<Rightarrow> u8 list \<Rightarrow> nat \<Rightarrow> u8 list outcome" where
  "tls_prf_sha384 = tls_prf_text hmac_sha384_vector 48"

lemma u8_inc:
  assumes "(x :: u8) \<noteq> 255"
  shows "unat (x + 1) = Suc (unat x)" "unat x < 255"
proof -
  have "unat x \<noteq> 255" using assms by (auto simp: word_unat_eq_iff)
  with unat_u8 [of x] show "unat x < 255" by linarith
  then show "unat (x + 1) = Suc (unat x)" by (simp add: unat_word_ariths)
qed

text \<open>
  The loop of \<open>hmac_sha256_kdf\<close> with the block \<open>T\<close> to be copied. On failure the function has
  cleared the whole buffer.
\<close>

function kdf_loop :: "hmac \<Rightarrow> nat \<Rightarrow> u8 list \<Rightarrow> u8 list \<Rightarrow> u8 list \<Rightarrow> u8 list \<Rightarrow> u8 \<Rightarrow> nat \<Rightarrow> u8 list outcome" where
  "kdf_loop hmac L secret label0 seed T iter left =
     (let clen = (if L < left then L else left)
      in if left - clen = 0 then Ret (take clen T)
         else if iter = 255 then Err (-1)
         else
           let iter' = iter + 1
           in bind_outcome (hmac secret [T, label0, seed, [iter']]) (\<lambda>T'.
                bind_outcome (kdf_loop hmac L secret label0 seed T' iter' (left - clen)) (\<lambda>rest. Ret (take clen T @ rest))))"
  by pat_completeness auto
termination
proof (relation "measure (\<lambda>(_, _, _, _, _, _, iter, _). 255 - unat iter)", simp)
  fix L secret label0 seed T left T' clen and iter iter' :: u8 and hmac :: hmac
  assume a: "iter \<noteq> 255" "iter' = iter + 1"
  from u8_inc [OF a(1)] have "unat iter' = Suc (unat iter)" "unat iter < 255" by (simp_all add: a(2))
  then show "((hmac, L, secret, label0, seed, T', iter', left - clen), hmac, L, secret, label0, seed, T, iter, left)
      \<in> measure (\<lambda>(_, _, _, _, _, _, iter, _). 255 - unat iter)"
    by simp
qed

declare kdf_loop.simps [simp del]

definition kdf_text :: "hmac \<Rightarrow> nat \<Rightarrow> u8 list \<Rightarrow> u8 list option \<Rightarrow> u8 list \<Rightarrow> nat \<Rightarrow> u8 list outcome" where
  "kdf_text hmac L secret label seed outlen =
     (let label0 = (case label of Some l \<Rightarrow> l @ [0] | None \<Rightarrow> [])
      in bind_outcome (hmac secret [label0, seed, [1]]) (\<lambda>T. kdf_loop hmac L secret label0 seed T 1 outlen))"

definition hmac_sha256_kdf :: "u8 list \<Rightarrow> u8 list option \<Rightarrow> u8 list \<Rightarrow> nat \<Rightarrow> u8 list outcome" where
  "hmac_sha256_kdf = kdf_text hmac_sha256_vector 32"

definition hmac_sha384_kdf :: "u8 list \<Rightarrow> u8 list option \<Rightarrow> u8 list \<Rightarrow> nat \<Rightarrow> u8 list outcome" where
  "hmac_sha384_kdf = kdf_text hmac_sha384_vector 48"

definition hmac_sha512_kdf :: "u8 list \<Rightarrow> u8 list option \<Rightarrow> u8 list \<Rightarrow> nat \<Rightarrow> u8 list outcome" where
  "hmac_sha512_kdf = kdf_text hmac_sha512_vector 64"

text \<open>PBKDF2: the inner loop with \<open>n\<close> iterations to go, and the loop over the blocks.\<close>

fun pbkdf2_iterate :: "u8 list \<Rightarrow> nat \<Rightarrow> u8 list \<Rightarrow> u8 list \<Rightarrow> u8 list outcome" where
  "pbkdf2_iterate passphrase 0 tmp digest = Ret digest"
| "pbkdf2_iterate passphrase (Suc n) tmp digest =
     bind_outcome (hmac_sha1 passphrase tmp) (\<lambda>tmp2. pbkdf2_iterate passphrase n tmp2 (xorl digest tmp2))"

definition pbkdf2_sha1_f :: "u8 list \<Rightarrow> u8 list \<Rightarrow> int \<Rightarrow> u32 \<Rightarrow> u8 list outcome" where
  "pbkdf2_sha1_f passphrase ssid iterations count =
     (let count_buf = [ucast (drop_bit 24 count AND 0xff), ucast (drop_bit 16 count AND 0xff),
            ucast (drop_bit 8 count AND 0xff), ucast (count AND 0xff)]
      in bind_outcome (hmac_sha1_vector passphrase [ssid, count_buf]) (\<lambda>tmp.
           pbkdf2_iterate passphrase (nat (iterations - 1)) tmp tmp))"

function pbkdf2_loop :: "u8 list \<Rightarrow> u8 list \<Rightarrow> int \<Rightarrow> u32 \<Rightarrow> nat \<Rightarrow> u8 list outcome" where
  "pbkdf2_loop passphrase ssid iterations count left =
     (if 0 < left then
        let count = count + 1
        in bind_outcome (pbkdf2_sha1_f passphrase ssid iterations count) (\<lambda>digest.
             let plen = (if 20 < left then 20 else left)
             in bind_outcome (pbkdf2_loop passphrase ssid iterations count (left - plen)) (\<lambda>rest.
                  Ret (take plen digest @ rest)))
      else Ret [])"
  by pat_completeness auto
termination
  by (relation "measure (\<lambda>(_, _, _, _, left). left)") auto

declare pbkdf2_loop.simps [simp del]

definition pbkdf2_sha1 :: "u8 list \<Rightarrow> u8 list \<Rightarrow> int \<Rightarrow> nat \<Rightarrow> u8 list outcome" where
  "pbkdf2_sha1 passphrase ssid iterations buflen = pbkdf2_loop passphrase ssid iterations 0 buflen"

section \<open>Blocks\<close>

text \<open>The first \<open>n\<close> bytes of the blocks \<open>f i\<close>, \<open>f (i + 1)\<close>, and so on, of \<open>L\<close> bytes each.\<close>

definition blocks :: "(nat \<Rightarrow> u8 list) \<Rightarrow> nat \<Rightarrow> nat \<Rightarrow> nat \<Rightarrow> u8 list" where
  "blocks f L i n = take n (concat (map f [i..<i + n div L + 1]))"

lemma blocks_none [simp]: "blocks f L i 0 = []"
  by (simp add: blocks_def)

lemma blocks_last: "n < L \<Longrightarrow> blocks f L i n = take n (f i)"
  by (simp add: blocks_def)

lemma blocks_step:
  assumes "0 < L" "L \<le> n" "length (f i) = L"
  shows "blocks f L i n = f i @ blocks f L (Suc i) (n - L)"
proof -
  have "n div L = Suc ((n - L) div L)" using assms by (simp add: le_div_geq)
  then have e: "[i..<i + n div L + 1] = i # [Suc i..<Suc i + (n - L) div L + 1]"
    by (simp add: upt_conv_Cons)
  show ?thesis unfolding blocks_def e using assms by (simp del: upt_Suc)
qed

lemma blocks_exact: "0 < L \<Longrightarrow> length (f i) = L \<Longrightarrow> blocks f L i L = f i"
  by (simp add: blocks_step)

lemma length_blocks:
  assumes "0 < L" "\<And>i. length (f i) = L"
  shows "length (blocks f L i n) = n"
proof (induction n arbitrary: i rule: less_induct)
  case (less n)
  show ?case
  proof (cases "n < L")
    case True
    then show ?thesis by (simp add: blocks_last assms)
  next
    case False
    then show ?thesis using less [of "n - L" "Suc i"] assms by (simp add: blocks_step)
  qed
qed

text \<open>The blocks the standards define, over a keyed hash \<open>mac\<close>.\<close>

type_synonym keyed = "u8 list \<Rightarrow> u8 list \<Rightarrow> u8 list"

definition prf_block :: "keyed \<Rightarrow> u8 list \<Rightarrow> u8 list \<Rightarrow> u8 list \<Rightarrow> u8 list \<Rightarrow> nat \<Rightarrow> u8 list" where
  "prf_block mac key label data length_le i = mac key (WPA_PUT_LE16 (of_nat i) @ label @ data @ length_le)"

definition sha1_prf_block :: "keyed \<Rightarrow> u8 list \<Rightarrow> u8 list \<Rightarrow> u8 list \<Rightarrow> nat \<Rightarrow> u8 list" where
  "sha1_prf_block mac key label data i = mac key (label @ 0 # data @ [of_nat i])"

text \<open>A chain in which every block goes into the next: RFC 5869 and RFC 4851.\<close>

fun chain_block :: "keyed \<Rightarrow> u8 list \<Rightarrow> u8 list \<Rightarrow> nat \<Rightarrow> u8 list" where
  "chain_block mac key info 0 = []"
| "chain_block mac key info (Suc i) = mac key (chain_block mac key info i @ info @ [of_nat (Suc i)])"

fun tls_A :: "keyed \<Rightarrow> u8 list \<Rightarrow> u8 list \<Rightarrow> nat \<Rightarrow> u8 list" where
  "tls_A mac secret seed 0 = seed"
| "tls_A mac secret seed (Suc i) = mac secret (tls_A mac secret seed i)"

definition tls_block :: "keyed \<Rightarrow> u8 list \<Rightarrow> u8 list \<Rightarrow> nat \<Rightarrow> u8 list" where
  "tls_block mac secret seed i = mac secret (tls_A mac secret seed i @ seed)"

fun pbkdf2_U :: "keyed \<Rightarrow> u8 list \<Rightarrow> u8 list \<Rightarrow> nat \<Rightarrow> u8 list" where
  "pbkdf2_U mac p salt 0 = mac p salt"
| "pbkdf2_U mac p salt (Suc j) = mac p (pbkdf2_U mac p salt j)"

definition pbkdf2_block :: "keyed \<Rightarrow> u8 list \<Rightarrow> u8 list \<Rightarrow> nat \<Rightarrow> nat \<Rightarrow> u8 list" where
  "pbkdf2_block mac p ssid c i =
     fold (\<lambda>j d. xorl d (pbkdf2_U mac p (ssid @ WPA_PUT_BE32 (of_nat i)) j)) [1..<c]
       (pbkdf2_U mac p (ssid @ WPA_PUT_BE32 (of_nat i)) 0)"

section \<open>The loops\<close>

locale keyed_mac =
  fixes hmac :: hmac and mac :: keyed and L lim :: nat
  assumes hmac_mac: "length key < lim \<Longrightarrow> \<forall>d \<in> set addr. length d < lim \<Longrightarrow> length addr \<le> 5 \<Longrightarrow>
      hmac key addr = Ret (mac key (concat addr))"
    and length_mac: "length (mac key m) = L"
    and sizes: "0 < L" "L < lim" "2 < lim"
begin

lemma prf_loop_blocks:
  assumes "length key < lim" "length label < lim" "length data < lim" "length length_le = 2"
  shows "prf_loop hmac L key label data length_le (of_nat i) left =
    Ret (blocks (prf_block mac key label data length_le) L i left)"
proof (induction left arbitrary: i rule: less_induct)
  case (less left)
  have h: "hmac key [WPA_PUT_LE16 (of_nat i), label, data, length_le] = Ret (prf_block mac key label data length_le i)"
    using hmac_mac [of key "[WPA_PUT_LE16 (of_nat i), label, data, length_le]"] assms sizes by (simp add: prf_block_def)
  have l: "length (prf_block mac key label data length_le i) = L" by (simp add: prf_block_def length_mac)
  consider "left = 0" | "0 < left" "left < L" | "L \<le> left" by linarith
  then show ?case
  proof cases
    case 3
    with less [of "left - L" "Suc i"] sizes show ?thesis
      by (subst prf_loop.simps) (simp add: h blocks_step l add.commute)
  qed (simp_all add: prf_loop.simps [of hmac] h blocks_last)
qed

lemma tls_prf_loop_blocks:
  assumes "length secret < lim" "length label < lim" "length seed < lim"
  shows "tls_prf_loop hmac L secret label seed (tls_A mac secret (label @ seed) (Suc i)) left =
    Ret (blocks (tls_block mac secret (label @ seed)) L (Suc i) left)"
proof (induction left arbitrary: i rule: less_induct)
  case (less left)
  let ?A = "tls_A mac secret (label @ seed)"
  have A: "length (?A (Suc j)) = L" for j by (simp add: length_mac)
  have P: "hmac secret [?A (Suc i), label, seed] = Ret (tls_block mac secret (label @ seed) (Suc i))"
    using hmac_mac [of secret "[?A (Suc i), label, seed]"] assms sizes A [of i] by (simp add: tls_block_def)
  have n: "hmac secret [?A (Suc i)] = Ret (?A (Suc (Suc i)))"
    using hmac_mac [of secret "[?A (Suc i)]"] assms sizes A [of i] by simp
  have l: "length (tls_block mac secret (label @ seed) j) = L" for j by (simp add: tls_block_def length_mac)
  consider "left = 0" | "0 < left" "left \<le> L" | "L < left" by linarith
  then show ?case
  proof cases
    case 2
    then show ?thesis
      using sizes blocks_last [of left L] blocks_exact [of L "tls_block mac secret (label @ seed)" "Suc i"] l [of "Suc i"]
      by (subst tls_prf_loop.simps, cases "left = L")
        (simp_all add: P n tls_prf_loop.simps [of hmac L secret label seed _ 0] del: tls_A.simps)
  next
    case 3
    with less [of "left - L" "Suc i"] sizes l [of "Suc i"] show ?thesis
      by (subst tls_prf_loop.simps) (simp add: P n blocks_step del: tls_A.simps)
  qed (simp add: tls_prf_loop.simps)
qed

lemma kdf_loop_blocks:
  assumes "length secret < lim" "length label0 < lim" "length seed < lim"
    and "1 \<le> unat iter"
  shows "kdf_loop hmac L secret label0 seed (chain_block mac secret (label0 @ seed) (unat iter)) iter left =
    (if left \<le> (256 - unat iter) * L then Ret (blocks (chain_block mac secret (label0 @ seed)) L (unat iter) left) else Err (-1))"
  using assms(4)
proof (induction "255 - unat iter" arbitrary: iter left rule: less_induct)
  case less
  let ?c = "chain_block mac secret (label0 @ seed)" and ?i = "unat iter"
  obtain j where j: "?i = Suc j" using less.prems by (cases ?i) auto
  have l: "length (?c ?i) = L" by (simp add: j length_mac)
  have "1 \<le> 256 - ?i" using unat_u8 [of iter] by linarith
  then have room: "L \<le> (256 - ?i) * L" using mult_le_mono1 [of 1 "256 - ?i" L] by simp
  consider (done_now) "left \<le> L" | (too_long) "L < left" "iter = 255" | (next_block) "L < left" "iter \<noteq> 255" by linarith
  then show ?case
  proof cases
    case done_now
    then have "blocks ?c L ?i left = take left (?c ?i)"
      using sizes l by (cases "left = L") (simp_all add: blocks_exact blocks_last)
    moreover have "left \<le> (256 - ?i) * L" using done_now room by (rule le_trans)
    ultimately show ?thesis using done_now by (subst kdf_loop.simps) (simp add: Let_def)
  next
    case too_long
    then show ?thesis by (subst kdf_loop.simps) (simp add: Let_def)
  next
    case next_block
    note inc = u8_inc [OF next_block(2)]
    have "hmac secret [?c ?i, label0, seed, [iter + 1]] = Ret (?c (unat (iter + 1)))"
      using hmac_mac [of secret "[?c ?i, label0, seed, [iter + 1]]"] assms sizes l inc(1) by (simp add: add.commute)
    moreover have "left - L \<le> (256 - unat (iter + 1)) * L \<longleftrightarrow> left \<le> (256 - ?i) * L"
    proof -
      have "256 - ?i = Suc (256 - unat (iter + 1))" using inc by simp
      then have "(256 - ?i) * L = L + (256 - unat (iter + 1)) * L" by (simp only: mult_Suc)
      then show ?thesis using next_block(1) by linarith
    qed
    moreover have "blocks ?c L ?i left = ?c ?i @ blocks ?c L (unat (iter + 1)) (left - L)"
      using next_block sizes l inc by (simp add: blocks_step)
    ultimately show ?thesis
      using next_block less.hyps [of "iter + 1" "left - L"] inc l
      by (subst kdf_loop.simps) (simp add: Let_def)
  qed
qed

end

section \<open>The functions\<close>

text \<open>
  The output of the PRF with \<open>n\<close> bits: the blocks, cut to whole bytes, and the bits of the last
  byte that were not asked for cleared.
\<close>

definition ieee_prf :: "keyed \<Rightarrow> nat \<Rightarrow> u8 list \<Rightarrow> u8 list \<Rightarrow> u8 list \<Rightarrow> nat \<Rightarrow> u8 list" where
  "ieee_prf mac L key label data n =
     (let b = blocks (prf_block mac key label data (WPA_PUT_LE16 (of_nat n))) L 1 ((n + 7) div 8)
      in if n mod 8 = 0 then b
         else butlast b @ [last b AND push_bit (8 - n mod 8) 0xff])"

lemma mask_last: "b \<noteq> [] \<Longrightarrow> b[length b - 1 := b ! (length b - 1) AND m] = butlast b @ [last b AND m]"
  by (metis last_conv_nth list_update_length append_butlast_last_id length_butlast)

context keyed_mac
begin

lemma prf_bits_blocks:
  assumes "length key < lim" "length label < lim" "length data < lim" "unat bits + 7 < 2 ^ 32"
  shows "prf_bits_text hmac L key label data bits = Ret (ieee_prf mac L key label data (unat bits))"
proof -
  let ?b = "blocks (prf_block mac key label data (WPA_PUT_LE16 (ucast bits))) L 1 ((unat bits + 7) div 8)"
  have n: "unat ((bits + 7) div 8) = (unat bits + 7) div 8"
    using assms(4) by (simp add: unat_div unat_word_ariths)
  have m: "unat (bits mod 8) = unat bits mod 8" by (simp add: unat_mod)
  have z: "bits mod 8 \<noteq> 0 \<longleftrightarrow> unat bits mod 8 \<noteq> 0" by (simp add: word_unat_eq_iff m)
  have len: "length ?b = (unat bits + 7) div 8"
    by (rule length_blocks) (simp_all add: sizes prf_block_def length_mac)
  have loop: "prf_loop hmac L key label data (WPA_PUT_LE16 (ucast bits)) 1 ((unat bits + 7) div 8) = Ret ?b"
    using prf_loop_blocks [OF assms(1-3), of "WPA_PUT_LE16 (ucast bits)" 1] by simp
  have u: "(of_nat (unat bits) :: u16) = ucast bits" by simp
  show ?thesis
  proof (cases "unat bits mod 8 = 0")
    case True
    then show ?thesis by (simp add: prf_bits_text_def Let_def n z loop ieee_prf_def u)
  next
    case False
    then have "0 < (unat bits + 7) div 8" by (cases "unat bits") auto
    with len have "?b \<noteq> []" by auto
    from mask_last [OF this, unfolded len] False \<open>0 < _\<close> show ?thesis
      by (simp add: prf_bits_text_def Let_def n z m loop ieee_prf_def u)
  qed
qed

lemma tls_prf_blocks:
  assumes "length secret < lim" "length label < lim" "length seed < lim"
  shows "tls_prf_text hmac L secret label seed outlen = Ret (blocks (tls_block mac secret (label @ seed)) L 1 outlen)"
  using hmac_mac [of secret "[label, seed]"] assms tls_prf_loop_blocks [OF assms, of 0 outlen]
  by (simp add: tls_prf_text_def)

lemma kdf_blocks:
  assumes "length secret < lim" "length (case label of Some l \<Rightarrow> l @ [0] | None \<Rightarrow> []) < lim" "length seed < lim"
  shows "kdf_text hmac L secret label seed outlen =
    (if outlen \<le> 255 * L
     then Ret (blocks (chain_block mac secret ((case label of Some l \<Rightarrow> l @ [0] | None \<Rightarrow> []) @ seed)) L 1 outlen)
     else Err (-1))"
  using hmac_mac [of secret "[case label of Some l \<Rightarrow> l @ [0] | None \<Rightarrow> [], seed, [1]]"] assms sizes
    kdf_loop_blocks [OF assms, of 1 outlen]
  by (simp add: kdf_text_def Let_def)

end

interpretation mac256: keyed_mac hmac_sha256_vector "rfc2104 64 fips256" 32 "2 ^ 32"
  by unfold_locales (simp_all add: hmac_sha256_vector_def HMAC_VECTOR_MAX_ELEM_def vsha256.hmac_rfc2104 vsha256.length_rfc2104)

interpretation mac384: keyed_mac hmac_sha384_vector "rfc2104 128 fips384" 48 "2 ^ 32"
  by unfold_locales (simp_all add: hmac_sha384_vector_def HMAC_VECTOR_MAX_ELEM_def vsha384.hmac_rfc2104 vsha384.length_rfc2104)

interpretation mac512: keyed_mac hmac_sha512_vector "rfc2104 128 fips512" 64 "2 ^ 32"
  by unfold_locales (simp_all add: hmac_sha512_vector_def HMAC_VECTOR_MAX_ELEM_def vsha512.hmac_rfc2104 vsha512.length_rfc2104)

interpretation mac1: keyed_mac hmac_sha1_vector "rfc2104 64 fips1" 20 "2 ^ 32 - 63"
  by unfold_locales (simp_all add: hmac_sha1_vector_def vsha1.hmac_rfc2104 vsha1.length_rfc2104)

subsection \<open>The functions over SHA-1\<close>

abbreviation "hmac1 \<equiv> rfc2104 64 fips1"

lemma hmac1_length [simp]: "length (hmac1 k m) = 20"
  by (rule mac1.length_mac)

lemma sha1_prf_loop_blocks:
  assumes "length key < 2 ^ 32 - 63" "length label < 2 ^ 32 - 64" "length data < 2 ^ 32 - 63"
  shows "sha1_prf_loop key (label @ [0]) data (of_nat i) left = Ret (blocks (sha1_prf_block hmac1 key label data) 20 i left)"
proof (induction left arbitrary: i rule: less_induct)
  case (less left)
  have h: "hmac_sha1_vector key [label @ [0], data, [of_nat i]] = Ret (sha1_prf_block hmac1 key label data i)"
    using mac1.hmac_mac [of key "[label @ [0], data, [of_nat i]]"] assms by (simp add: sha1_prf_block_def)
  have l: "length (sha1_prf_block hmac1 key label data i) = 20" by (simp add: sha1_prf_block_def)
  consider "left = 0" | "0 < left" "left < 20" | "20 \<le> left" by linarith
  then show ?case
  proof cases
    case 3
    with less [of "left - 20" "Suc i"] show ?thesis
      by (subst sha1_prf_loop.simps) (simp add: h blocks_step l add.commute)
  qed (simp_all add: sha1_prf_loop.simps h blocks_last)
qed

lemma sha1_t_prf_loop_blocks:
  assumes "length key < 2 ^ 32 - 63" "length label0 < 2 ^ 32 - 63" "length seed < 2 ^ 32 - 63" "length ol = 2"
  shows "sha1_t_prf_loop key label0 seed ol (chain_block hmac1 key (label0 @ seed @ ol) i) (of_nat i) left
    = Ret (blocks (chain_block hmac1 key (label0 @ seed @ ol)) 20 (Suc i) left)"
proof (induction left arbitrary: i rule: less_induct)
  case (less left)
  let ?c = "chain_block hmac1 key (label0 @ seed @ ol)"
  have "length (?c i) < 2 ^ 32 - 63" by (cases i) simp_all
  then have h: "hmac_sha1_vector key [?c i, label0, seed, ol, [of_nat i + 1]] = Ret (?c (Suc i))"
    using mac1.hmac_mac [of key "[?c i, label0, seed, ol, [of_nat i + 1]]"] assms by (simp add: add.commute)
  have l: "length (?c (Suc i)) = 20" by simp
  consider "left = 0" | "0 < left" "left < 20" | "20 \<le> left" by linarith
  then show ?case
  proof cases
    case 3
    with less [of "left - 20" "Suc i"] h l show ?thesis
      by (subst sha1_t_prf_loop.simps) (simp add: blocks_step add.commute Let_def del: chain_block.simps)
  qed (use h in \<open>simp_all add: sha1_t_prf_loop.simps blocks_last del: chain_block.simps\<close>)
qed

lemma pbkdf2_iterate_fold:
  assumes "length p < 2 ^ 32 - 63"
  shows "pbkdf2_iterate p n (pbkdf2_U hmac1 p salt j) d =
    Ret (fold (\<lambda>j d. xorl d (pbkdf2_U hmac1 p salt j)) [Suc j..<Suc j + n] d)"
proof (induction n arbitrary: j d)
  case (Suc n)
  have "length (pbkdf2_U hmac1 p salt j) = 20" by (cases j) simp_all
  then have "hmac_sha1 p (pbkdf2_U hmac1 p salt j) = Ret (pbkdf2_U hmac1 p salt (Suc j))"
    using mac1.hmac_mac [of p "[pbkdf2_U hmac1 p salt j]"] assms by (simp add: hmac_sha1_def)
  moreover have "[Suc j..<Suc j + Suc n] = Suc j # [Suc (Suc j)..<Suc (Suc j) + n]"
    by (simp add: upt_conv_Cons)
  ultimately show ?case using Suc by (simp del: upt_Suc pbkdf2_U.simps)
qed simp

lemma pbkdf2_f_block:
  assumes "length p < 2 ^ 32 - 63" "length ssid < 2 ^ 32 - 63"
  shows "pbkdf2_sha1_f p ssid iterations (of_nat i) = Ret (pbkdf2_block hmac1 p ssid (nat iterations) i)"
proof -
  have "hmac_sha1_vector p [ssid, WPA_PUT_BE32 (of_nat i)] = Ret (pbkdf2_U hmac1 p (ssid @ WPA_PUT_BE32 (of_nat i)) 0)"
    using mac1.hmac_mac [of p "[ssid, WPA_PUT_BE32 (of_nat i)]"] assms by simp
  moreover have "[1..<nat iterations] = [Suc 0..<Suc 0 + nat (iterations - 1)]"
    by (cases "1 \<le> iterations") (simp_all add: nat_diff_distrib)
  ultimately show ?thesis
    unfolding pbkdf2_sha1_f_def Let_def WPA_PUT_BE32_def [symmetric]
    using pbkdf2_iterate_fold [OF assms(1), of _ _ 0] by (simp add: pbkdf2_block_def del: upt_Suc pbkdf2_U.simps)
qed

lemma length_pbkdf2_block [simp]: "length (pbkdf2_block hmac1 p ssid c i) = 20"
proof -
  have "length (pbkdf2_U hmac1 p s j) = 20" for s j by (cases j) simp_all
  then have "length d = 20 \<Longrightarrow> length (fold (\<lambda>j d. xorl d (pbkdf2_U hmac1 p s j)) js d) = 20" for s js and d :: "u8 list"
    by (induction js arbitrary: d) simp_all
  then show ?thesis by (simp add: pbkdf2_block_def)
qed

lemma pbkdf2_loop_blocks:
  assumes "length p < 2 ^ 32 - 63" "length ssid < 2 ^ 32 - 63"
  shows "pbkdf2_loop p ssid iterations (of_nat i) left =
    Ret (blocks (pbkdf2_block hmac1 p ssid (nat iterations)) 20 (Suc i) left)"
proof (induction left arbitrary: i rule: less_induct)
  case (less left)
  let ?b = "pbkdf2_block hmac1 p ssid (nat iterations)"
  have h: "pbkdf2_sha1_f p ssid iterations (of_nat i + 1) = Ret (?b (Suc i))"
    "pbkdf2_sha1_f p ssid iterations (1 + of_nat i) = Ret (?b (Suc i))"
    using pbkdf2_f_block [OF assms, of iterations "Suc i"] by (simp_all add: add.commute)
  consider "left = 0" | "0 < left" "left < 20" | "20 \<le> left" by linarith
  then show ?case
  proof cases
    case 2
    then show ?thesis
      by (subst pbkdf2_loop.simps) (simp add: h blocks_last Let_def pbkdf2_loop.simps [of p ssid iterations _ 0])
  next
    case 3
    with less [of "left - 20" "Suc i"] show ?thesis
      by (subst pbkdf2_loop.simps) (auto simp: h blocks_step Let_def add.commute)
  qed (simp add: pbkdf2_loop.simps)
qed

section \<open>Properties\<close>

text \<open>
  The key derivation functions of IEEE 802.11 over SHA-256, SHA-384 and SHA-512 return the
  first bits of the blocks \<open>HMAC(key, i || label || data || length)\<close>, \<open>i = 1, 2, ...\<close>, for every
  number of bits: the last block is cut, and in the last byte the bits beyond the length are
  zero.
\<close>

theorem prf_bits_ieee:
  assumes "length key < 2 ^ 32" "length label < 2 ^ 32" "length data < 2 ^ 32" "unat bits + 7 < 2 ^ 32"
  shows "sha256_prf_bits key label data bits = Ret (ieee_prf (rfc2104 64 fips256) 32 key label data (unat bits)) \<and>
    sha384_prf_bits key label data bits = Ret (ieee_prf (rfc2104 128 fips384) 48 key label data (unat bits)) \<and>
    sha512_prf_bits key label data bits = Ret (ieee_prf (rfc2104 128 fips512) 64 key label data (unat bits))"
  unfolding sha256_prf_bits_def sha384_prf_bits_def sha512_prf_bits_def
  by (intro conjI mac256.prf_bits_blocks mac384.prf_bits_blocks mac512.prf_bits_blocks assms)

lemma prf_bits_ieee_witness:
  "sha384_prf [1, 2] [0x61] [3] 60 = Ret (ieee_prf (rfc2104 128 fips384) 48 [1, 2] [0x61] [3] 480)"
  using prf_bits_ieee [of "[1, 2]" "[0x61]" "[3]" 480] by (simp add: sha384_prf_def)

text \<open>
  The KDF of RFC 5295 is HKDF-Expand of RFC 5869, with the label and its final zero before
  the seed when there is a label: every block is the HMAC of the block before it, the label,
  the seed and its number. More than 255 blocks cannot be had: the functions fail exactly
  for an output of more than 255 digests.
\<close>

theorem kdf_hkdf:
  assumes "length secret < 2 ^ 32" "length (case label of Some l \<Rightarrow> l @ [0] | None \<Rightarrow> []) < 2 ^ 32" "length seed < 2 ^ 32"
  defines "info \<equiv> (case label of Some l \<Rightarrow> l @ [0] | None \<Rightarrow> []) @ seed"
  shows "hmac_sha256_kdf secret label seed n =
      (if n \<le> 255 * 32 then Ret (blocks (chain_block (rfc2104 64 fips256) secret info) 32 1 n) else Err (-1)) \<and>
    hmac_sha384_kdf secret label seed n =
      (if n \<le> 255 * 48 then Ret (blocks (chain_block (rfc2104 128 fips384) secret info) 48 1 n) else Err (-1)) \<and>
    hmac_sha512_kdf secret label seed n =
      (if n \<le> 255 * 64 then Ret (blocks (chain_block (rfc2104 128 fips512) secret info) 64 1 n) else Err (-1))"
  unfolding hmac_sha256_kdf_def hmac_sha384_kdf_def hmac_sha512_kdf_def info_def
  by (intro conjI mac256.kdf_blocks mac384.kdf_blocks mac512.kdf_blocks assms(1-3))

lemma kdf_hkdf_witness:
  "hmac_sha256_kdf [1] None [2] 8161 = Err (-1) \<and>
   hmac_sha256_kdf [1] (Some [0x61]) [2] 8160 = Ret (blocks (chain_block (rfc2104 64 fips256) [1] [0x61, 0, 2]) 32 1 8160)"
  using kdf_hkdf [of "[1]" None "[2]" 8161] kdf_hkdf [of "[1]" "Some [0x61]" "[2]" 8160] by simp

text \<open>
  The PRF of TLS 1.2 returns the first bytes of \<open>P_hash(secret, label || seed)\<close> of RFC 5246;
  the PRF of IEEE 802.11i those of the blocks \<open>HMAC(key, label || 0 || data || i)\<close>, \<open>i = 0, 1, ...\<close>; and
  the T-PRF of EAP-FAST those of the chain of RFC 4851, whose blocks also take in the length
  of the output.
\<close>

theorem stream_prfs:
  assumes "length key < 2 ^ 32 - 63" "length label < 2 ^ 32 - 64" "length seed < 2 ^ 32 - 63"
  shows "tls_prf_sha256 key label seed n = Ret (blocks (tls_block (rfc2104 64 fips256) key (label @ seed)) 32 1 n) \<and>
    tls_prf_sha384 key label seed n = Ret (blocks (tls_block (rfc2104 128 fips384) key (label @ seed)) 48 1 n) \<and>
    sha1_prf key label seed n = Ret (blocks (sha1_prf_block (rfc2104 64 fips1) key label seed) 20 0 n) \<and>
    sha1_t_prf key label seed len = Ret (blocks
      (chain_block (rfc2104 64 fips1) key (label @ 0 # seed @ WPA_PUT_BE16 (ucast len))) 20 1 (unat len))"
proof -
  have l: "length key < 2 ^ 32" "length label < 2 ^ 32" "length seed < 2 ^ 32" using assms by auto
  have l0: "length (label @ [0]) < 2 ^ 32 - 63" using assms by simp
  have be: "WPA_PUT_BE16 (ucast len) = [ucast (drop_bit 8 len AND 0xff), ucast (len AND 0xff)]"
    unfolding WPA_PUT_BE16_def by (auto simp: low_byte intro!: bit_word_eqI) (auto simp: bit_simps)
  show ?thesis
    using mac256.tls_prf_blocks [OF l] mac384.tls_prf_blocks [OF l] sha1_prf_loop_blocks [OF assms, of 0]
      sha1_t_prf_loop_blocks [OF assms(1) l0 assms(3), of "WPA_PUT_BE16 (ucast len)" 0]
    by (simp add: tls_prf_sha256_def tls_prf_sha384_def sha1_prf_def sha1_t_prf_def be [symmetric] del: chain_block.simps)
      (simp add: chain_block.simps(1))
qed

lemma stream_prfs_witness:
  "tls_prf_sha256 [1] [0x61] [2] 40 = Ret (blocks (tls_block (rfc2104 64 fips256) [1] [0x61, 2]) 32 1 40)"
  using stream_prfs [of "[1]" "[0x61]" "[2]" 40] by simp

text \<open>
  \<open>pbkdf2_sha1\<close> returns the first bytes of the blocks of PBKDF2 with HMAC-SHA-1: block \<open>i\<close> is the
  exclusive or of \<open>iterations\<close> values, the first the HMAC of the SSID and \<open>i\<close>, every other the
  HMAC of the one before it. The passphrase is the key, as for the PSK of a network.
\<close>

theorem pbkdf2_sha1_blocks:
  assumes "length passphrase < 2 ^ 32 - 63" "length ssid < 2 ^ 32 - 63"
  shows "pbkdf2_sha1 passphrase ssid iterations n =
    Ret (blocks (pbkdf2_block (rfc2104 64 fips1) passphrase ssid (nat iterations)) 20 1 n)"
  using pbkdf2_loop_blocks [OF assms, of iterations 0 n] by (simp add: pbkdf2_sha1_def)

lemma pbkdf2_sha1_blocks_witness:
  "pbkdf2_sha1 [0x70, 0x77] [0x6e] 4096 32 = Ret (blocks (pbkdf2_block (rfc2104 64 fips1) [0x70, 0x77] [0x6e] 4096) 20 1 32)"
  using pbkdf2_sha1_blocks [of "[0x70, 0x77]" "[0x6e]" 4096 32] by simp

end
