(* ===== verification/Base64.thy ===== *)
theory Base64
  imports Prelude
begin

text \<open>
  Base64 encoding and decoding (\<open>src/utils/base64.c\<close> of wpa\_supplicant). Characters are
  bytes; the result NULL is \<open>Err 0\<close>; whether \<open>os_malloc\<close> succeeds is an argument. Writing
  beyond the allocated buffer is \<open>OutOfBounds\<close>.
\<close>

section \<open>The implementation\<close>

definition base64_table :: "u8 list" where
  "base64_table =
    [65, 66, 67, 68, 69, 70, 71, 72, 73, 74, 75, 76, 77, 78, 79, 80,
     81, 82, 83, 84, 85, 86, 87, 88, 89, 90, 97, 98, 99, 100, 101, 102,
     103, 104, 105, 106, 107, 108, 109, 110, 111, 112, 113, 114, 115, 116, 117, 118,
     119, 120, 121, 122, 48, 49, 50, 51, 52, 53, 54, 55, 56, 57, 43, 47]"

definition base64_url_table :: "u8 list" where
  "base64_url_table =
    [65, 66, 67, 68, 69, 70, 71, 72, 73, 74, 75, 76, 77, 78, 79, 80,
     81, 82, 83, 84, 85, 86, 87, 88, 89, 90, 97, 98, 99, 100, 101, 102,
     103, 104, 105, 106, 107, 108, 109, 110, 111, 112, 113, 114, 115, 116, 117, 118,
     119, 120, 121, 122, 48, 49, 50, 51, 52, 53, 54, 55, 56, 57, 45, 95]"

definition BASE64_PAD :: u32 where
  "BASE64_PAD = push_bit 0 1"

definition BASE64_LF :: u32 where
  "BASE64_LF = push_bit 1 1"

text \<open>The loop over the blocks of three bytes: the output, the bytes left over and \<open>line_len\<close>.\<close>

fun base64_enc_blocks :: "u8 list \<Rightarrow> bool \<Rightarrow> nat \<Rightarrow> u8 list \<Rightarrow> u8 list \<times> u8 list \<times> nat" where
  "base64_enc_blocks table lf line_len (a # b # c # inp) =
     (let q = [table ! unat (drop_bit 2 a AND 0x3f),
               table ! unat ((push_bit 4 (a AND 0x03) OR drop_bit 4 b) AND 0x3f),
               table ! unat ((push_bit 2 (b AND 0x0f) OR drop_bit 6 c) AND 0x3f),
               table ! unat (c AND 0x3f)];
          line_len = line_len + 4;
          (q, line_len) = (if lf \<and> 72 \<le> line_len then (q @ [0x0a], 0) else (q, line_len));
          (out, inp, line_len) = base64_enc_blocks table lf line_len inp
      in (q @ out, inp, line_len))"
| "base64_enc_blocks table lf line_len inp = ([], inp, line_len)"

text \<open>The last one or two bytes.\<close>

fun base64_enc_tail :: "u8 list \<Rightarrow> bool \<Rightarrow> u8 list \<Rightarrow> u8 list" where
  "base64_enc_tail table pad [a] =
     [table ! unat (drop_bit 2 a AND 0x3f), table ! unat (push_bit 4 (a AND 0x03) AND 0x3f)] @
     (if pad then [0x3d] else []) @ (if pad then [0x3d] else [])"
| "base64_enc_tail table pad (a # b # _) =
     [table ! unat (drop_bit 2 a AND 0x3f),
      table ! unat ((push_bit 4 (a AND 0x03) OR drop_bit 4 b) AND 0x3f),
      table ! unat (push_bit 2 (b AND 0x0f) AND 0x3f)] @
     (if pad then [0x3d] else [])"
| "base64_enc_tail table pad [] = []"

definition SIZE_MAX :: nat where
  "SIZE_MAX = 2 ^ 32 - 1"

text \<open>The size of the output buffer. Below \<open>SIZE_MAX / 4\<close> bytes of input nothing wraps around.\<close>

definition base64_olen :: "bool \<Rightarrow> nat \<Rightarrow> nat" where
  "base64_olen lf len =
     (let olen = len * 4 div 3 + 4;
          olen = (if lf then olen + olen div 72 else olen)
      in olen + 1)"

definition base64_gen_encode :: "bool \<Rightarrow> u8 list \<Rightarrow> u8 list \<Rightarrow> u32 \<Rightarrow> u8 list outcome" where
  "base64_gen_encode alloc src table add_pad =
     (let lf = add_pad AND BASE64_LF \<noteq> 0; pad = add_pad AND BASE64_PAD \<noteq> 0
      in if SIZE_MAX div 4 \<le> length src then Err 0
         else
           let olen = base64_olen lf (length src)
           in if olen < length src then Err 0
              else if \<not> alloc then Err 0
              else
                let (out, inp, line_len) = base64_enc_blocks table lf 0 src;
                    out = out @ base64_enc_tail table pad inp;
                    line_len = (if inp \<noteq> [] then line_len + 4 else line_len);
                    out = (if lf \<and> line_len \<noteq> 0 then out @ [0x0a] else out)
                in if olen < length out + 1 then OutOfBounds else Ret out)"

definition base64_dtable :: "u8 list \<Rightarrow> u8 list" where
  "base64_dtable table =
     (fold (\<lambda>i d. d[unat (table ! i) := of_nat i]) [0..<64] (replicate 256 0x80))[0x3d := 0]"

text \<open>The loop of the decoder over the characters that remain, with those of the current block.\<close>

fun base64_dec_loop :: "u8 list \<Rightarrow> nat \<Rightarrow> u8 list \<Rightarrow> u8 list \<Rightarrow> nat \<Rightarrow> u8 list \<Rightarrow> u8 list outcome" where
  "base64_dec_loop dtable olen [] block pad out = Ret out"
| "base64_dec_loop dtable olen (val # vals) block pad out =
     (let tmp = dtable ! unat val
      in if tmp = 0x80 then base64_dec_loop dtable olen vals block pad out
         else
           let pad = (if val = 0x3d then pad + 1 else pad);
               block = block @ [tmp]
           in if length block = 4 then
                let out = out @ [push_bit 2 (block ! 0) OR drop_bit 4 (block ! 1),
                                 push_bit 4 (block ! 1) OR drop_bit 2 (block ! 2),
                                 push_bit 6 (block ! 2) OR block ! 3]
                in if olen < length out then OutOfBounds
                   else if pad \<noteq> 0 then
                     if pad = 1 then Ret (take (length out - 1) out)
                     else if pad = 2 then Ret (take (length out - 2) out)
                     else Err 0
                   else base64_dec_loop dtable olen vals [] pad out
              else base64_dec_loop dtable olen vals block pad out)"

definition base64_gen_decode :: "bool \<Rightarrow> u8 list \<Rightarrow> u8 list \<Rightarrow> u8 list outcome" where
  "base64_gen_decode alloc src table =
     (let dtable = base64_dtable table;
          count = length (filter (\<lambda>c. dtable ! unat c \<noteq> 0x80) src)
      in if count = 0 then Err 0
         else
           let extra_pad = (4 - count mod 4) mod 4;
               olen = (count + extra_pad) div 4 * 3
           in if \<not> alloc then Err 0
              else base64_dec_loop dtable olen (src @ replicate extra_pad 0x3d) [] 0 [])"

definition base64_encode :: "bool \<Rightarrow> u8 list \<Rightarrow> u8 list outcome" where
  "base64_encode alloc src = base64_gen_encode alloc src base64_table (BASE64_PAD OR BASE64_LF)"

definition base64_encode_no_lf :: "bool \<Rightarrow> u8 list \<Rightarrow> u8 list outcome" where
  "base64_encode_no_lf alloc src = base64_gen_encode alloc src base64_table BASE64_PAD"

definition base64_url_encode :: "bool \<Rightarrow> u8 list \<Rightarrow> u8 list outcome" where
  "base64_url_encode alloc src = base64_gen_encode alloc src base64_url_table 0"

definition base64_decode :: "bool \<Rightarrow> u8 list \<Rightarrow> u8 list outcome" where
  "base64_decode alloc src = base64_gen_decode alloc src base64_table"

definition base64_url_decode :: "bool \<Rightarrow> u8 list \<Rightarrow> u8 list outcome" where
  "base64_url_decode alloc src = base64_gen_decode alloc src base64_url_table"

section \<open>An alphabet\<close>

text \<open>What the codec needs of a table: the decoding table inverts it, and the padding and the line feed are not in it.\<close>

locale base64_alphabet =
  fixes table :: "u8 list"
  assumes decode_char: "i < 64 \<Longrightarrow> base64_dtable table ! unat (table ! i) = of_nat i"
    and pad_char: "i < 64 \<Longrightarrow> table ! i \<noteq> 0x3d" "base64_dtable table ! 0x3d = 0"
    and line_feed: "base64_dtable table ! 0x0a = 0x80"

text \<open>The six bit groups of three bytes.\<close>

lemma six_bits: "unat (v AND 0x3f :: u8) < 64"
proof -
  have "(0x3f :: u8) = mask 6" by (simp add: mask_eq_exp_minus_1)
  then have "v AND 0x3f = take_bit 6 v" by (simp add: take_bit_eq_mask)
  then show ?thesis using take_bit_nat_less_exp [of 6 "unat v"] by (simp add: unsigned_take_bit_eq)
qed

lemma u8_eqI:
  fixes a b :: u8
  assumes "bit a 0 = bit b 0" "bit a 1 = bit b 1" "bit a 2 = bit b 2" "bit a 3 = bit b 3"
    "bit a 4 = bit b 4" "bit a 5 = bit b 5" "bit a 6 = bit b 6" "bit a 7 = bit b 7"
  shows "a = b"
proof (rule bit_word_eqI)
  fix n
  assume "n < LENGTH(8)"
  then have "n \<in> {0, 1, 2, 3, 4, 5, 6, 7}" by auto
  with assms show "bit a n = bit b n" by auto
qed

lemma regroup:
  fixes a b c :: u8
  shows "push_bit 2 (drop_bit 2 a AND 0x3f) OR drop_bit 4 ((push_bit 4 (a AND 0x03) OR drop_bit 4 b) AND 0x3f) = a"
    and "push_bit 4 ((push_bit 4 (a AND 0x03) OR drop_bit 4 b) AND 0x3f) OR
         drop_bit 2 ((push_bit 2 (b AND 0x0f) OR drop_bit 6 c) AND 0x3f) = b"
    and "push_bit 6 ((push_bit 2 (b AND 0x0f) OR drop_bit 6 c) AND 0x3f) OR (c AND 0x3f) = c"
proof -
  have m: "(0x3f :: u8) = mask 6" "(0x0f :: u8) = mask 4" "(0x03 :: u8) = mask 2"
    by (simp_all add: mask_eq_exp_minus_1)
  show "push_bit 2 (drop_bit 2 a AND 0x3f) OR drop_bit 4 ((push_bit 4 (a AND 0x03) OR drop_bit 4 b) AND 0x3f) = a"
    "push_bit 4 ((push_bit 4 (a AND 0x03) OR drop_bit 4 b) AND 0x3f) OR
         drop_bit 2 ((push_bit 2 (b AND 0x0f) OR drop_bit 6 c) AND 0x3f) = b"
    "push_bit 6 ((push_bit 2 (b AND 0x0f) OR drop_bit 6 c) AND 0x3f) OR (c AND 0x3f) = c"
    unfolding m by (rule u8_eqI; auto simp: bit_simps dest: bit_imp_le_length)+
qed

text \<open>Induction by blocks of three.\<close>

lemma triple_induct [case_names nil one two more]:
  assumes "P []" "\<And>a. P [a]" "\<And>a b. P [a, b]" "\<And>a b c xs. P xs \<Longrightarrow> P (a # b # c # xs)"
  shows "P xs"
proof (induction "length xs" arbitrary: xs rule: less_induct)
  case less
  consider "xs = []" | a where "xs = [a]" | a b where "xs = [a, b]" | a b c r where "xs = a # b # c # r"
    by (metis list.exhaust)
  then show ?case by cases (simp_all add: assms less)
qed

text \<open>One step of the encoder.\<close>

definition base64_quad :: "u8 list \<Rightarrow> u8 \<Rightarrow> u8 \<Rightarrow> u8 \<Rightarrow> u8 list" where
  "base64_quad table a b c =
     [table ! unat (drop_bit 2 a AND 0x3f),
      table ! unat ((push_bit 4 (a AND 0x03) OR drop_bit 4 b) AND 0x3f),
      table ! unat ((push_bit 2 (b AND 0x0f) OR drop_bit 6 c) AND 0x3f),
      table ! unat (c AND 0x3f)]"

lemma enc_blocks_more:
  assumes "base64_enc_blocks table lf l (a # b # c # inp) = (out, rest, l')"
  obtains o1 where "out = base64_quad table a b c @ (if lf \<and> 72 \<le> l + 4 then [0x0a] else []) @ o1"
    "base64_enc_blocks table lf (if lf \<and> 72 \<le> l + 4 then 0 else l + 4) inp = (o1, rest, l')"
  using assms by (auto simp: Let_def base64_quad_def split: prod.splits if_splits)

context base64_alphabet
begin

abbreviation "dt \<equiv> base64_dtable table"

lemma char_value: "dt ! unat (table ! unat (v AND 0x3f)) = v AND 0x3f" "table ! unat (v AND 0x3f) \<noteq> 0x3d"
  "dt ! unat (table ! unat (v AND 0x3f)) \<noteq> 0x80"
  using decode_char [OF six_bits, of v] pad_char(1) [OF six_bits, of v] six_bits [of v]
  by (auto simp: word_unat_eq_iff)

text \<open>Decoding four characters of the alphabet.\<close>

lemma dec_quad:
  "base64_dec_loop dt olen
     (table ! unat (w AND 0x3f) # table ! unat (x AND 0x3f) # table ! unat (y AND 0x3f) # table ! unat (z AND 0x3f) # cs) [] 0 out =
   (if olen < length out + 3 then OutOfBounds
    else base64_dec_loop dt olen cs [] 0 (out @ [push_bit 2 (w AND 0x3f) OR drop_bit 4 (x AND 0x3f),
      push_bit 4 (x AND 0x3f) OR drop_bit 2 (y AND 0x3f), push_bit 6 (y AND 0x3f) OR (z AND 0x3f)]))"
  using char_value [of w] char_value [of x] char_value [of y] char_value [of z] by (simp add: Let_def)

lemma dec_base64_quad:
  "length out + 3 \<le> olen \<Longrightarrow>
   base64_dec_loop dt olen (base64_quad table a b c @ cs) [] 0 out = base64_dec_loop dt olen cs [] 0 (out @ [a, b, c])"
  unfolding base64_quad_def append_Cons append_Nil dec_quad regroup by (simp del: base64_dec_loop.simps)

lemma count_base64_quad: "filter (\<lambda>c. dt ! unat c \<noteq> 0x80) (base64_quad table a b c) = base64_quad table a b c"
  unfolding base64_quad_def by (simp only: filter.simps char_value(3) simp_thms if_True)

lemma length_base64_quad [simp]: "length (base64_quad table a b c) = 4"
  by (simp add: base64_quad_def)

lemma dec_line_feed: "base64_dec_loop dt olen (0x0a # cs) block pad out = base64_dec_loop dt olen cs block pad out"
  using line_feed by simp

text \<open>The blocks decode to the bytes they encode, whatever follows.\<close>

lemma enc_blocks_decode:
  assumes "base64_enc_blocks table lf l src = (out, rest, l')"
  shows "\<exists>pre. src = pre @ rest \<and> length rest < 3 \<and> 3 dvd length pre \<and>
    length (filter (\<lambda>c. dt ! unat c \<noteq> 0x80) out) = 4 * (length pre div 3) \<and>
    (\<forall>olen cs acc. length acc + length pre \<le> olen \<longrightarrow>
       base64_dec_loop dt olen (out @ cs) [] 0 acc = base64_dec_loop dt olen cs [] 0 (acc @ pre))"
  using assms
proof (induction src arbitrary: l out rule: triple_induct)
  case (more a b c inp)
  from more.prems obtain o1 where out: "out = base64_quad table a b c @ (if lf \<and> 72 \<le> l + 4 then [0x0a] else []) @ o1"
    and o1: "base64_enc_blocks table lf (if lf \<and> 72 \<le> l + 4 then 0 else l + 4) inp = (o1, rest, l')"
    by (rule enc_blocks_more)
  from more.IH [OF o1] obtain pre where pre: "inp = pre @ rest" "length rest < 3" "3 dvd length pre"
    "length (filter (\<lambda>c. dt ! unat c \<noteq> 0x80) o1) = 4 * (length pre div 3)"
    and dec: "\<And>olen cs acc. length acc + length pre \<le> olen \<Longrightarrow>
       base64_dec_loop dt olen (o1 @ cs) [] 0 acc = base64_dec_loop dt olen cs [] 0 (acc @ pre)" by blast
  have "base64_dec_loop dt olen (out @ cs) [] 0 acc = base64_dec_loop dt olen cs [] 0 (acc @ a # b # c # pre)"
    if "length acc + length (a # b # c # pre) \<le> olen" for olen cs acc
    using that dec [of "acc @ [a, b, c]" olen cs]
    by (simp add: out dec_base64_quad dec_line_feed del: base64_dec_loop.simps)
  moreover have "length (filter (\<lambda>c. dt ! unat c \<noteq> 0x80) out) = 4 * (length (a # b # c # pre) div 3)"
    using pre(3,4) line_feed by (simp add: out count_base64_quad)
  moreover have "3 dvd length (a # b # c # pre)" using pre(3) by (auto simp: dvd_def) presburger
  ultimately show ?case using pre(1,2) by (intro exI [of _ "a # b # c # pre"]) simp
qed auto

end

text \<open>The length of the output: four characters for three bytes, and a line feed after 72.\<close>

lemma enc_blocks_length:
  assumes "base64_enc_blocks table lf l src = (out, rest, l')" "4 dvd l" "lf \<longrightarrow> l < 72"
  shows "length out = 4 * (length src div 3) + (if lf then (l + 4 * (length src div 3)) div 72 else 0) \<and>
    l' = (if lf then (l + 4 * (length src div 3)) mod 72 else l + 4 * (length src div 3)) \<and>
    length rest = length src mod 3"
  using assms
proof (induction src arbitrary: l out rule: triple_induct)
  case (more a b c inp)
  from more.prems(1) obtain o1 where out: "out = base64_quad table a b c @ (if lf \<and> 72 \<le> l + 4 then [0x0a] else []) @ o1"
    and o1: "base64_enc_blocks table lf (if lf \<and> 72 \<le> l + 4 then 0 else l + 4) inp = (o1, rest, l')"
    by (rule enc_blocks_more)
  obtain m where m: "l = 4 * m" "lf \<longrightarrow> m < 18" using more.prems(2,3) by (auto simp: dvd_def)
  have div: "length (a # b # c # inp) div 3 = Suc (length inp div 3)" by simp
  show ?case
  proof (cases "lf \<and> 72 \<le> l + 4")
    case True
    with m have "m = 17" by simp
    with True more.IH [OF o1] m show ?thesis unfolding div by (simp add: out base64_quad_def)
  next
    case False
    with more.IH [OF o1] m show ?thesis unfolding div
      by (cases lf) (simp_all add: out base64_quad_def algebra_simps)
  qed
qed auto

text \<open>The buffer is large enough.\<close>

lemma enc_tail_length: "length r < 3 \<Longrightarrow> length (base64_enc_tail table pad r) \<le> (if r = [] then 0 else 4)"
  by (cases r; cases "tl r") auto

lemma third: "(n :: nat) * 4 div 3 = 4 * (n div 3) + n mod 3"
  by presburger

lemma gen_encode_total:
  assumes "length src < SIZE_MAX div 4"
  shows "\<exists>enc. base64_gen_encode True src table flags = Ret enc"
proof -
  define lf where "lf = (flags AND BASE64_LF \<noteq> 0)"
  define pad where "pad = (flags AND BASE64_PAD \<noteq> 0)"
  let ?n = "length src" and ?k = "length src div 3"
  obtain out rest l where e: "base64_enc_blocks table lf 0 src = (out, rest, l)"
    by (cases "base64_enc_blocks table lf 0 src")
  have len: "length out = 4 * ?k + (if lf then 4 * ?k div 72 else 0)" "l = (if lf then 4 * ?k mod 72 else 4 * ?k)"
    "length rest = ?n mod 3"
    using enc_blocks_length [OF e] by simp_all
  define enc where "enc = out @ base64_enc_tail table pad rest"
  have tail: "length enc \<le> length out + (if rest = [] then 0 else 4)"
    using enc_tail_length [of rest table pad] len by (simp add: enc_def split: if_splits)
  have "rest = [] \<longleftrightarrow> ?n mod 3 = 0" using len by (metis length_0_conv)
  moreover have n4: "?n * 4 div 3 = 4 * ?k + ?n mod 3" "?n mod 3 < 3"
    by (rule third) simp
  moreover have "4 * ?k div 72 \<le> (4 * ?k + ?n mod 3 + 4) div 72" by (intro div_le_mono) simp
  ultimately have "length enc + (if lf \<and> (if rest \<noteq> [] then l + 4 else l) \<noteq> 0 then 1 else 0) + 1 \<le> base64_olen lf ?n"
    using tail len(1) unfolding base64_olen_def Let_def n4 by (auto split: if_splits)
  moreover have "?n \<le> ?n * 4 div 3" using div_le_mono [of "?n * 3" "?n * 4" 3] by simp
  then have "\<not> base64_olen lf ?n < ?n" by (simp add: base64_olen_def Let_def)
  ultimately show ?thesis
    using assms e unfolding base64_gen_encode_def lf_def [symmetric] pad_def [symmetric] Let_def
    by (auto simp: enc_def)
qed

section \<open>Round trip\<close>

context base64_alphabet
begin

lemma pad_value: "dt ! unat (0x3d :: u8) = 0"
  using pad_char(2) by simp

text \<open>A block that ends in padding ends the data.\<close>

lemma dec_pad:
  "length out + 3 \<le> olen \<Longrightarrow> base64_dec_loop dt olen
     (table ! unat (w AND 0x3f) # table ! unat (x AND 0x3f) # 0x3d # 0x3d # cs) [] 0 out =
     Ret (out @ [push_bit 2 (w AND 0x3f) OR drop_bit 4 (x AND 0x3f)])"
  "length out + 3 \<le> olen \<Longrightarrow> base64_dec_loop dt olen
     (table ! unat (w AND 0x3f) # table ! unat (x AND 0x3f) # table ! unat (y AND 0x3f) # 0x3d # cs) [] 0 out =
     Ret (out @ [push_bit 2 (w AND 0x3f) OR drop_bit 4 (x AND 0x3f),
       push_bit 4 (x AND 0x3f) OR drop_bit 2 (y AND 0x3f)])"
  using char_value [of w] char_value [of x] char_value [of y] pad_value by (simp_all add: Let_def)

lemma dec_tail:
  assumes "length out + 3 \<le> olen"
  shows "base64_dec_loop dt olen (base64_enc_tail table True [a] @ cs) [] 0 out = Ret (out @ [a])"
    and "base64_dec_loop dt olen (base64_enc_tail table True [a, b] @ cs) [] 0 out = Ret (out @ [a, b])"
  using regroup(1) [of a 0] regroup(1) [of a b] regroup(2) [of a b 0]
    dec_pad(1) [OF assms, of "drop_bit 2 a" "push_bit 4 (a AND 0x03)" cs]
    dec_pad(2) [OF assms, of "drop_bit 2 a" "push_bit 4 (a AND 0x03) OR drop_bit 4 b" "push_bit 2 (b AND 0x0f)" cs]
  unfolding base64_enc_tail.simps append_Cons append_Nil if_True drop_bit_of_0 or.right_neutral
  by (simp_all only:)

abbreviation "valid \<equiv> (\<lambda>c. dt ! unat c \<noteq> 0x80)"

lemma count_tail:
  "length (filter valid (base64_enc_tail table True [a])) = 4"
  "length (filter valid (base64_enc_tail table True [a, b])) = 4"
  "length (filter valid (base64_enc_tail table False [a])) = 2"
  "length (filter valid (base64_enc_tail table False [a, b])) = 3"
  unfolding base64_enc_tail.simps
  by (simp_all only: filter_append filter.simps char_value(3) pad_value if_True if_False append_Nil not_False_eq_True) simp_all

lemma tail_pad:
  "base64_enc_tail table False [a] @ [0x3d, 0x3d] = base64_enc_tail table True [a]"
  "base64_enc_tail table False [a, b] @ [0x3d] = base64_enc_tail table True [a, b]"
  by simp_all

lemma gen_decode_count:
  assumes "length (filter valid src) + extra = 4 * m" "0 < length (filter valid src)" "extra < 4"
  shows "base64_gen_decode True src table = base64_dec_loop dt (3 * m) (src @ replicate extra 0x3d) [] 0 []"
proof -
  define n where "n = length (filter valid src)"
  have n: "n + extra = 4 * m" "0 < n" using assms(1,2) by (simp_all only: n_def)
  have "(4 - n mod 4) mod 4 = extra"
  proof (cases "extra = 0")
    case False
    with n assms(3) have "n = (4 - extra) + (m - 1) * 4" by linarith
    then have "n mod 4 = (4 - extra) mod 4" by (simp only: mod_mult_self1)
    with False assms(3) show ?thesis by simp
  qed (use n(1) in simp)
  moreover have "(n + extra) div 4 * 3 = 3 * m" by (simp add: n(1))
  ultimately show ?thesis using n(2) unfolding base64_gen_decode_def Let_def n_def [symmetric] by (simp add: mult.commute)
qed

lemma decode_text:
  assumes "filter valid nl = []" and "nl = [] \<or> nl = [0x0a]" and "pad \<or> nl = []"
    and "3 dvd length pre" "length rest < 3" "pre @ rest \<noteq> []"
    and count: "length (filter valid out) = 4 * (length pre div 3)"
    and dec: "\<And>olen cs acc. length acc + length pre \<le> olen \<Longrightarrow>
       base64_dec_loop dt olen (out @ cs) [] 0 acc = base64_dec_loop dt olen cs [] 0 (acc @ pre)"
  shows "base64_gen_decode True (out @ base64_enc_tail table pad rest @ nl) table = Ret (pre @ rest)"
proof -
  obtain k where k: "length pre = 3 * k" using assms(4) by (auto simp: dvd_def)
  consider "rest = []" | a where "rest = [a]" | a b where "rest = [a, b]"
    using assms(5) by (auto simp: numeral_eq_Suc less_Suc_eq length_Suc_conv)
  then show ?thesis
  proof cases
    case 1
    with assms(6) k have "0 < k" by (cases k) auto
    moreover have "base64_dec_loop dt (3 * k) nl [] 0 pre = Ret pre"
      using assms(2) dec_line_feed by auto
    ultimately show ?thesis
      using 1 dec [of "[]" "3 * k" nl] assms(1) count k gen_decode_count [of "out @ nl" 0 k] by simp
  next
    case 2
    then show ?thesis
      using dec [of "[]" "3 + 3 * k"] dec_tail(1) [of pre "3 + 3 * k" a nl] dec_tail(1) [of pre "3 + 3 * k" a "[]"] assms(1,3) count k count_tail tail_pad(1) [of a]
        gen_decode_count [of "out @ base64_enc_tail table True [a] @ nl" 0 "k + 1"]
        gen_decode_count [of "out @ base64_enc_tail table False [a]" 2 "k + 1"]
      by (cases pad) (simp_all add: numeral_2_eq_2 del: base64_dec_loop.simps base64_enc_tail.simps)
  next
    case 3
    then show ?thesis
      using dec [of "[]" "3 + 3 * k"] dec_tail(2) [of pre "3 + 3 * k" a b nl] dec_tail(2) [of pre "3 + 3 * k" a b "[]"] assms(1,3) count k count_tail tail_pad(2) [of a b]
        gen_decode_count [of "out @ base64_enc_tail table True [a, b] @ nl" 0 "k + 1"]
        gen_decode_count [of "out @ base64_enc_tail table False [a, b]" 1 "k + 1"]
      by (cases pad) (simp_all del: base64_dec_loop.simps base64_enc_tail.simps)
  qed
qed

lemma decode_encode:
  assumes "base64_gen_encode alloc src table flags = Ret enc" "src \<noteq> []"
    and "flags AND BASE64_PAD \<noteq> 0 \<or> flags AND BASE64_LF = 0"
  shows "base64_gen_decode True enc table = Ret src"
proof -
  define lf where "lf = (flags AND BASE64_LF \<noteq> 0)"
  define pad where "pad = (flags AND BASE64_PAD \<noteq> 0)"
  obtain out rest l where e: "base64_enc_blocks table lf 0 src = (out, rest, l)"
    by (cases "base64_enc_blocks table lf 0 src")
  define nl where "nl = (if lf \<and> (if rest \<noteq> [] then l + 4 else l) \<noteq> 0 then [0x0a :: u8] else [])"
  have enc: "enc = out @ base64_enc_tail table pad rest @ nl"
    using assms(1) e unfolding base64_gen_encode_def lf_def [symmetric] pad_def [symmetric] Let_def nl_def
    by (auto split: if_splits)
  obtain pre where pre: "src = pre @ rest" "length rest < 3" "3 dvd length pre"
    "length (filter valid out) = 4 * (length pre div 3)"
    and dec: "\<And>olen cs acc. length acc + length pre \<le> olen \<Longrightarrow>
       base64_dec_loop dt olen (out @ cs) [] 0 acc = base64_dec_loop dt olen cs [] 0 (acc @ pre)"
    using enc_blocks_decode [OF e] by blast
  have nl: "filter valid nl = []" "nl = [] \<or> nl = [0x0a]" "pad \<or> nl = []"
    using line_feed assms(3) by (auto simp: nl_def lf_def pad_def)
  show ?thesis
    unfolding enc pre(1) by (rule decode_text [OF nl pre(3,2) _ pre(4) dec]) (use assms(2) pre(1) in auto)
qed

end

lemma alphabet_tables:
  "list_all (\<lambda>i. base64_dtable base64_table ! unat (base64_table ! i) = of_nat i \<and> base64_table ! i \<noteq> 0x3d) [0..<64]"
  "list_all (\<lambda>i. base64_dtable base64_url_table ! unat (base64_url_table ! i) = of_nat i \<and> base64_url_table ! i \<noteq> 0x3d) [0..<64]"
  "base64_dtable base64_table ! 0x3d = 0" "base64_dtable base64_url_table ! 0x3d = 0"
  "base64_dtable base64_table ! 0x0a = 0x80" "base64_dtable base64_url_table ! 0x0a = 0x80"
  by code_simp+

interpretation b64: base64_alphabet base64_table
  using alphabet_tables by unfold_locales (auto simp: list_all_iff)

interpretation b64url: base64_alphabet base64_url_table
  using alphabet_tables by unfold_locales (auto simp: list_all_iff)

text \<open>
  Base64 round trip: below \<open>SIZE_MAX / 4\<close> bytes the three encoders succeed when the
  allocation does, never write beyond the buffer they compute (line feeds, padding and the
  final zero included), and the decoder of their alphabet returns the bytes again, also from
  text without padding. From that size on they fail.
\<close>

theorem base64_roundtrip:
  assumes "src \<noteq> []"
  shows "if length src < SIZE_MAX div 4
    then (\<exists>t. base64_encode True src = Ret t \<and> base64_decode True t = Ret src) \<and>
      (\<exists>t. base64_encode_no_lf True src = Ret t \<and> base64_decode True t = Ret src) \<and>
      (\<exists>t. base64_url_encode True src = Ret t \<and> base64_url_decode True t = Ret src)
    else base64_encode True src = Err 0 \<and> base64_encode_no_lf True src = Err 0 \<and> base64_url_encode True src = Err 0"
proof (cases "length src < SIZE_MAX div 4")
  case True
  note total = gen_encode_total [OF True]
  have flags: "(BASE64_PAD OR BASE64_LF) AND BASE64_PAD \<noteq> 0" "BASE64_PAD AND BASE64_PAD \<noteq> 0"
    by (simp_all add: BASE64_PAD_def BASE64_LF_def)
  show ?thesis
    using True total flags b64.decode_encode [OF _ assms] b64url.decode_encode [OF _ assms]
    unfolding base64_encode_def base64_encode_no_lf_def base64_url_encode_def base64_decode_def base64_url_decode_def
    by (metis and_zero_eq and.commute)
next
  case False
  then show ?thesis
    by (simp add: base64_encode_def base64_encode_no_lf_def base64_url_encode_def base64_gen_encode_def Let_def)
qed

lemma base64_roundtrip_witness:
  "\<exists>t. base64_url_encode True [255, 254, 253, 252] = Ret t \<and> base64_url_decode True t = Ret [255, 254, 253, 252]"
  using base64_roundtrip [of "[255, 254, 253, 252]"] by (simp add: SIZE_MAX_def)

end
