(* ===== verification/Bitfield.thy ===== *)
theory Bitfield
  imports Prelude
begin

text \<open>
  Bit fields (\<open>src/utils/bitfield.c\<close> of wpa\_supplicant) and their refinement of sets of
  numbers. A pointer that may be NULL is an option, whether an allocation succeeds is an
  argument, and a function that changes its argument returns it changed. Sizes and bit numbers
  are naturals; the C code computes them in \<open>size_t\<close> and returns them as \<open>int\<close>, so the
  model is that of fields of at most \<open>2 ^ 31 - 8\<close> bits, where neither wraps.
\<close>

section \<open>The implementation\<close>

record bitfield =
  bits :: "u8 list"
  max_bits :: nat

definition bitfield_alloc :: "bool \<Rightarrow> nat \<Rightarrow> bitfield option" where
  "bitfield_alloc alloc n =
     (if alloc then Some \<lparr>bits = replicate ((n + 7) div 8) 0, max_bits = n\<rparr> else None)"

definition bitfield_alloc_data :: "bool \<Rightarrow> u8 list \<Rightarrow> bitfield option" where
  "bitfield_alloc_data alloc data =
     (if alloc then Some \<lparr>bits = data, max_bits = length data * 8\<rparr> else None)"

definition bitfield_dup :: "bool \<Rightarrow> bitfield option \<Rightarrow> bitfield option" where
  "bitfield_dup alloc orig =
     (case orig of None \<Rightarrow> None
      | Some bf \<Rightarrow> if alloc then Some \<lparr>bits = take ((max_bits bf + 7) div 8) (bits bf), max_bits = max_bits bf\<rparr> else None)"

definition bitfield_set :: "bitfield \<Rightarrow> nat \<Rightarrow> bitfield" where
  "bitfield_set bf n =
     (if max_bits bf \<le> n then bf
      else bf\<lparr>bits := (bits bf)[n div 8 := bits bf ! (n div 8) OR push_bit (n mod 8) 1]\<rparr>)"

definition bitfield_clear :: "bitfield \<Rightarrow> nat \<Rightarrow> bitfield" where
  "bitfield_clear bf n =
     (if max_bits bf \<le> n then bf
      else bf\<lparr>bits := (bits bf)[n div 8 := bits bf ! (n div 8) AND NOT (push_bit (n mod 8) 1)]\<rparr>)"

definition bitfield_is_set :: "bitfield \<Rightarrow> nat \<Rightarrow> bool" where
  "bitfield_is_set bf n =
     (if max_bits bf \<le> n then False else bits bf ! (n div 8) AND push_bit (n mod 8) 1 \<noteq> 0)"

text \<open>The loop of \<open>first_zero\<close>, from \<open>i\<close> on.\<close>

fun first_zero_from :: "nat \<Rightarrow> nat \<Rightarrow> u8 \<Rightarrow> int" where
  "first_zero_from 0 i val = -1"
| "first_zero_from (Suc left) i val =
     (if val AND 0x01 = 0 then int i else first_zero_from left (i + 1) (drop_bit 1 val))"

definition first_zero :: "u8 \<Rightarrow> int" where
  "first_zero val = first_zero_from 8 0 val"

text \<open>The index of the first byte that is not full, or the number of bytes.\<close>

fun not_full_from :: "nat \<Rightarrow> nat \<Rightarrow> u8 list \<Rightarrow> nat" where
  "not_full_from 0 i bs = i"
| "not_full_from (Suc left) i bs = (if bs ! i \<noteq> 0xff then i else not_full_from left (i + 1) bs)"

definition bitfield_get_first_zero :: "bitfield \<Rightarrow> int" where
  "bitfield_get_first_zero bf =
     (let n = (max_bits bf + 7) div 8;
          i = not_full_from n 0 (bits bf)
      in if i = n then -1
         else
           let i = int i * 8 + first_zero (bits bf ! i)
           in if int (max_bits bf) \<le> i then -1 else i)"

text \<open>The return value, and \<open>a\<close> afterwards.\<close>

definition bitfield_union_in_place :: "bitfield option \<Rightarrow> bitfield option \<Rightarrow> int \<times> bitfield option" where
  "bitfield_union_in_place a b =
     (case (a, b) of
        (Some a', Some b') \<Rightarrow>
          if max_bits a' < max_bits b' then (-1, a)
          else
            let upper = (max_bits b' + 7) div 8
            in (0, Some (a'\<lparr>bits := map (\<lambda>i. if i < upper then bits a' ! i OR bits b' ! i else bits a' ! i)
                      [0..<length (bits a')]\<rparr>))
      | _ \<Rightarrow> (-1, a))"

definition bitfield_union :: "bool \<Rightarrow> bitfield option \<Rightarrow> bitfield option \<Rightarrow> bitfield option" where
  "bitfield_union alloc a b =
     (case (a, b) of
        (Some a', Some b') \<Rightarrow>
          let (ret, res) =
                (if max_bits b' < max_bits a' then bitfield_union_in_place (bitfield_dup alloc a) b
                 else bitfield_union_in_place (bitfield_dup alloc b) a)
          in if ret = 0 then res else None
      | _ \<Rightarrow> None)"

definition bitfield_intersect_in_place :: "bitfield option \<Rightarrow> bitfield option \<Rightarrow> int \<times> bitfield option" where
  "bitfield_intersect_in_place a b =
     (case (a, b) of
        (Some a', Some b') \<Rightarrow>
          let upper = (if max_bits a' < max_bits b' then (max_bits a' + 7) div 8 else (max_bits b' + 7) div 8);
              upper2 = (max_bits a' + 7) div 8
          in (0, Some (a'\<lparr>bits := map (\<lambda>i. if i < upper then bits a' ! i AND bits b' ! i
                       else if i < upper2 then 0 else bits a' ! i) [0..<length (bits a')]\<rparr>))
      | _ \<Rightarrow> (-1, a))"

definition bitfield_is_subset :: "bitfield option \<Rightarrow> bitfield option \<Rightarrow> int" where
  "bitfield_is_subset a b =
     (case (a, b) of
        (Some a', Some b') \<Rightarrow>
          if max_bits a' < max_bits b' then 0
          else if list_all (\<lambda>i. bits a' ! i AND bits b' ! i = bits b' ! i) [0..<(max_bits b' + 7) div 8] then 1
          else 0
      | _ \<Rightarrow> -1)"

definition bitfield_size :: "bitfield option \<Rightarrow> nat" where
  "bitfield_size bf = (case bf of None \<Rightarrow> 0 | Some bf \<Rightarrow> max_bits bf)"

definition bitfield_intersects :: "bitfield option \<Rightarrow> bitfield option \<Rightarrow> int" where
  "bitfield_intersects a b =
     (case (a, b) of
        (Some a', Some b') \<Rightarrow>
          let upper = (if max_bits a' < max_bits b' then (max_bits a' + 7) div 8 else (max_bits b' + 7) div 8)
          in if list_ex (\<lambda>i. bits a' ! i AND bits b' ! i \<noteq> 0) [0..<upper] then 1 else 0
      | _ \<Rightarrow> -1)"

section \<open>Sets\<close>

text \<open>The set a bit field stands for, and when it is well-formed: no bit is set from \<open>max_bits\<close> on.\<close>

definition bf_set :: "bitfield \<Rightarrow> nat set" where
  "bf_set bf = {i. i div 8 < length (bits bf) \<and> bit (bits bf ! (i div 8)) (i mod 8)}"

definition bf_ok :: "bitfield \<Rightarrow> bool" where
  "bf_ok bf \<longleftrightarrow> length (bits bf) = (max_bits bf + 7) div 8 \<and> bf_set bf \<subseteq> {..<max_bits bf}"

lemma bit_one: "j < 8 \<Longrightarrow> bit (2 ^ j :: u8) i \<longleftrightarrow> i = j"
  by (auto simp: bit_simps)

lemma byte_index: "(n :: nat) < m \<Longrightarrow> n div 8 < (m + 7) div 8"
  by presburger

lemma same_bit: "(i :: nat) = n \<longleftrightarrow> i div 8 = n div 8 \<and> i mod 8 = n mod 8"
  by (metis div_mult_mod_eq)

lemma kept [simp]:
  "length (bits (bitfield_set bf n)) = length (bits bf)" "max_bits (bitfield_set bf n) = max_bits bf"
  "length (bits (bitfield_clear bf n)) = length (bits bf)" "max_bits (bitfield_clear bf n) = max_bits bf"
  by (simp_all add: bitfield_set_def bitfield_clear_def)

lemma bf_set_insert:
  assumes "bf_ok bf"
  shows "bf_set (bitfield_set bf n) = (if n < max_bits bf then insert n (bf_set bf) else bf_set bf)"
proof (cases "n < max_bits bf")
  case True
  have "n div 8 < length (bits bf)" using assms byte_index [OF True] by (simp add: bf_ok_def)
  with True show ?thesis
    by (auto simp: bf_set_def bitfield_set_def nth_list_update bit_or_iff bit_one set_eq_iff same_bit [of _ n])
qed (simp add: bitfield_set_def)

lemma bf_set_remove:
  assumes "bf_ok bf"
  shows "bf_set (bitfield_clear bf n) = bf_set bf - {n}"
proof (cases "n < max_bits bf")
  case True
  have "n div 8 < length (bits bf)" using assms byte_index [OF True] by (simp add: bf_ok_def)
  with True show ?thesis
    by (auto simp: bf_set_def bitfield_clear_def nth_list_update bit_and_iff bit_not_iff bit_one set_eq_iff
        same_bit [of _ n] split: if_splits)
next
  case False
  then show ?thesis using assms by (auto simp: bf_ok_def bitfield_clear_def)
qed

lemma bf_ok_set: "bf_ok bf \<Longrightarrow> bf_ok (bitfield_set bf n)"
  unfolding bf_ok_def [of "bitfield_set bf n"] by (simp add: bf_set_insert) (auto simp: bf_ok_def)

lemma bf_ok_clear: "bf_ok bf \<Longrightarrow> bf_ok (bitfield_clear bf n)"
  unfolding bf_ok_def [of "bitfield_clear bf n"] by (simp add: bf_set_remove) (auto simp: bf_ok_def)

lemma bf_member: "bf_ok bf \<Longrightarrow> bitfield_is_set bf n \<longleftrightarrow> n \<in> bf_set bf"
proof -
  have b: "(x :: u8) AND 2 ^ j \<noteq> 0 \<longleftrightarrow> bit x j" if "j < 8" for x j
    using that by (simp add: and_exp_eq_0_iff_not_bit)
  show "bf_ok bf \<Longrightarrow> ?thesis"
    using byte_index [of n "max_bits bf"] b [of "n mod 8"]
    by (auto simp: bitfield_is_set_def bf_set_def bf_ok_def subset_iff)
qed

lemma bf_new: "bf_set \<lparr>bits = replicate k 0, max_bits = n\<rparr> = {}"
  by (auto simp: bf_set_def)

text \<open>A number as the index of a byte and of a bit in it.\<close>

lemma u8_bits_eq: "(x :: u8) = y \<longleftrightarrow> (\<forall>j < 8. bit x j \<longleftrightarrow> bit y j)"
  by (auto simp: bit_eq_iff bit_simps dest: bit_imp_le_length)

lemma bf_setI: "k < length (bits bf) \<Longrightarrow> j < 8 \<Longrightarrow> bit (bits bf ! k) j \<longleftrightarrow> 8 * k + j \<in> bf_set bf"
  by (simp add: bf_set_def)

lemma first_zero_from:
  assumes "\<exists>j < left. \<not> bit val j"
  shows "\<exists>j < left. first_zero_from left i val = int (i + j) \<and> \<not> bit val j \<and> (\<forall>k < j. bit val k)"
  using assms
proof (induction left arbitrary: i val)
  case (Suc left)
  show ?case
  proof (cases "bit val 0")
    case True
    then have "\<exists>j < left. \<not> bit (drop_bit 1 val) j"
      using Suc.prems by (auto simp: bit_simps less_Suc_eq_0_disj)
    from Suc.IH [OF this, of "i + 1"] obtain j where
      "j < left" "first_zero_from left (i + 1) (drop_bit 1 val) = int (i + 1 + j)"
      "\<not> bit val (Suc j)" "\<forall>k < j. bit val (Suc k)" by (auto simp: bit_simps)
    with True show ?thesis
      by (intro exI [of _ "Suc j"]) (auto simp: and_one_eq bit_0 less_Suc_eq_0_disj odd_iff_mod_2_eq_one)
  next
    case False
    then show ?thesis by (intro exI [of _ 0]) (simp add: and_one_eq bit_0 even_iff_mod_2_eq_zero)
  qed
qed simp

lemma bit_full: "j < 8 \<Longrightarrow> bit (0xff :: u8) j"
proof -
  have m: "(0xff :: u8) = mask 8" by (simp add: mask_eq_exp_minus_1)
  show "j < 8 \<Longrightarrow> ?thesis" unfolding m by (simp add: bit_simps)
qed

lemma first_zero_least:
  assumes "val \<noteq> 0xff"
  shows "\<exists>j < 8. first_zero val = int j \<and> \<not> bit val j \<and> (\<forall>k < j. bit val k)"
proof -
  have "\<exists>j < 8. \<not> bit val j" using assms bit_full by (auto simp: u8_bits_eq)
  from first_zero_from [OF this, of 0] show ?thesis by (simp add: first_zero_def)
qed

lemma not_full_from:
  "i \<le> not_full_from left i bs \<and> not_full_from left i bs \<le> i + left \<and>
   (\<forall>k. i \<le> k \<longrightarrow> k < not_full_from left i bs \<longrightarrow> bs ! k = 0xff) \<and>
   (not_full_from left i bs < i + left \<longrightarrow> bs ! not_full_from left i bs \<noteq> 0xff)"
proof (induction left arbitrary: i)
  case (Suc left)
  have "bs ! k = 0xff" if "bs ! i = 0xff" "i \<le> k" "k < not_full_from left (i + 1) bs" for k
    using that Suc [of "i + 1"] by (cases "k = i") auto
  with Suc [of "i + 1"] show ?case by auto
qed auto

lemma byte_of_index:
  assumes "\<not> k div 8 < i" "k < 8 * i + j" "j < (8::nat)"
  shows "k div 8 = i" "k mod 8 < j"
proof -
  have k: "k = 8 * (k div 8) + k mod 8" by simp
  have "k div 8 < i + 1" using assms by (intro less_mult_imp_div_less) simp
  with assms(1) show i: "k div 8 = i" by simp
  have "8 * i + k mod 8 < 8 * i + j" using k assms(2) unfolding i by linarith
  then show "k mod 8 < j" by simp
qed

lemma bf_first_zero:
  assumes "bf_ok bf"
  shows "if {..<max_bits bf} \<subseteq> bf_set bf then bitfield_get_first_zero bf = -1
    else bitfield_get_first_zero bf = int (LEAST n. n \<notin> bf_set bf)"
proof -
  let ?n = "(max_bits bf + 7) div 8" and ?i = "not_full_from ((max_bits bf + 7) div 8) 0 (bits bf)"
  have len: "length (bits bf) = ?n" and sub: "bf_set bf \<subseteq> {..<max_bits bf}" using assms by (auto simp: bf_ok_def)
  have i: "?i \<le> ?n" "\<And>k. k < ?i \<Longrightarrow> bits bf ! k = 0xff" "?i < ?n \<Longrightarrow> bits bf ! ?i \<noteq> 0xff"
    using not_full_from [of 0 ?n "bits bf"] by auto
  have full: "m \<in> bf_set bf" if "m div 8 < ?i" for m
  proof -
    have "m mod 8 < 8" by simp
    then have "bit (bits bf ! (m div 8)) (m mod 8)"
      using i(2) [OF that] bit_full by simp
    then show ?thesis using that i(1) len by (simp add: bf_set_def)
  qed
  show ?thesis
  proof (cases "?i = ?n")
    case True
    then have "{..<max_bits bf} \<subseteq> bf_set bf" using full byte_index by auto
    with True show ?thesis by (simp add: bitfield_get_first_zero_def Let_def)
  next
    case False
    with i have "?i < ?n" "bits bf ! ?i \<noteq> 0xff" by auto
    from first_zero_least [OF this(2)] obtain j where j: "j < 8" "first_zero (bits bf ! ?i) = int j"
      "\<not> bit (bits bf ! ?i) j" "\<forall>k < j. bit (bits bf ! ?i) k" by blast
    let ?m = "8 * ?i + j"
    have out: "?m \<notin> bf_set bf" using bf_setI [of ?i bf j] j \<open>?i < ?n\<close> len by simp
    have below: "k \<in> bf_set bf" if "k < ?m" for k
    proof (cases "k div 8 < ?i")
      case False
      with that j(1) have "k div 8 = ?i" "k mod 8 < j" using byte_of_index by blast+
      with j \<open>?i < ?n\<close> len show ?thesis by (simp add: bf_set_def)
    qed (rule full)
    have least: "(LEAST n. n \<notin> bf_set bf) = ?m"
      using out below by (intro Least_equality) (auto intro: leI)
    have res: "bitfield_get_first_zero bf = (if int (max_bits bf) \<le> int ?m then -1 else int ?m)"
      using False j(2) by (simp add: bitfield_get_first_zero_def Let_def)
    show ?thesis
    proof (cases "max_bits bf \<le> ?m")
      case True
      then have "{..<max_bits bf} \<subseteq> bf_set bf" using below by auto
      with True res show ?thesis by simp
    next
      case False
      then have "?m \<in> {..<max_bits bf}" by simp
      with out have "\<not> {..<max_bits bf} \<subseteq> bf_set bf" by blast
      with False res least show ?thesis by simp
    qed
  qed
qed

lemma bytes_mono: "(m :: nat) \<le> n \<Longrightarrow> (m + 7) div 8 \<le> (n + 7) div 8"
  by (simp add: div_le_mono)

lemma bf_union_in_place:
  assumes "bf_ok a" "bf_ok b" "max_bits b \<le> max_bits a"
  obtains c where "bitfield_union_in_place (Some a) (Some b) = (0, Some c)"
    "bf_set c = bf_set a \<union> bf_set b" "max_bits c = max_bits a" "bf_ok c"
proof
  let ?u = "(max_bits b + 7) div 8"
  let ?c = "a\<lparr>bits := map (\<lambda>i. if i < ?u then bits a ! i OR bits b ! i else bits a ! i) [0..<length (bits a)]\<rparr>"
  show "bitfield_union_in_place (Some a) (Some b) = (0, Some ?c)"
    using assms(3) by (simp add: bitfield_union_in_place_def Let_def)
  have "length (bits b) = ?u" "?u \<le> length (bits a)"
    using assms bytes_mono [OF assms(3)] by (auto simp: bf_ok_def)
  then show s: "bf_set ?c = bf_set a \<union> bf_set b"
    by (auto simp: bf_set_def bit_or_iff split: if_splits)
  show "max_bits ?c = max_bits a" by simp
  have "bf_set a \<union> bf_set b \<subseteq> {..<max_bits a}" using assms by (auto simp: bf_ok_def)
  then show "bf_ok ?c" using assms(1) unfolding bf_ok_def s by simp
qed

lemma bf_intersect_in_place:
  assumes "bf_ok a" "bf_ok b"
  obtains c where "bitfield_intersect_in_place (Some a) (Some b) = (0, Some c)"
    "bf_set c = bf_set a \<inter> bf_set b" "max_bits c = max_bits a" "bf_ok c"
proof -
  define u where "u = (if max_bits a < max_bits b then (max_bits a + 7) div 8 else (max_bits b + 7) div 8)"
  let ?c = "a\<lparr>bits := map (\<lambda>i. if i < u then bits a ! i AND bits b ! i
     else if i < (max_bits a + 7) div 8 then 0 else bits a ! i) [0..<length (bits a)]\<rparr>"
  have c: "bitfield_intersect_in_place (Some a) (Some b) = (0, Some ?c)"
    by (simp add: bitfield_intersect_in_place_def Let_def u_def)
  have l: "length (bits a) = (max_bits a + 7) div 8" "length (bits b) = (max_bits b + 7) div 8"
    using assms by (auto simp: bf_ok_def)
  then have u: "i < u \<longleftrightarrow> i < length (bits a) \<and> i < length (bits b)" for i
    using bytes_mono [of "max_bits a" "max_bits b"] bytes_mono [of "max_bits b" "max_bits a"] by (auto simp: u_def)
  have s: "bf_set ?c = bf_set a \<inter> bf_set b"
    by (auto simp: bf_set_def bit_and_iff u l(1) [symmetric] split: if_splits)
  moreover have "bf_set a \<inter> bf_set b \<subseteq> {..<max_bits a}" using assms by (auto simp: bf_ok_def)
  then have "bf_ok ?c" using assms(1) unfolding bf_ok_def s by simp
  ultimately show thesis using that c by simp
qed

lemma bf_subset:
  assumes "bf_ok a" "bf_ok b"
  shows "bitfield_is_subset (Some a) (Some b) = (if max_bits b \<le> max_bits a \<and> bf_set b \<subseteq> bf_set a then 1 else 0)"
proof (cases "max_bits b \<le> max_bits a")
  case True
  have l: "length (bits b) = (max_bits b + 7) div 8" "(max_bits b + 7) div 8 \<le> length (bits a)"
    using assms bytes_mono [OF True] by (auto simp: bf_ok_def)
  have "bits a ! i AND bits b ! i = bits b ! i \<longleftrightarrow> (\<forall>j < 8. 8 * i + j \<in> bf_set b \<longrightarrow> 8 * i + j \<in> bf_set a)"
    if "i < length (bits b)" for i
    using that l by (auto simp: u8_bits_eq bit_and_iff bf_setI [symmetric])
  then have "list_all (\<lambda>i. bits a ! i AND bits b ! i = bits b ! i) [0..<length (bits b)] \<longleftrightarrow>
      (\<forall>i < length (bits b). \<forall>j < 8. 8 * i + j \<in> bf_set b \<longrightarrow> 8 * i + j \<in> bf_set a)"
    by (auto simp: list_all_iff)
  also have "\<dots> \<longleftrightarrow> bf_set b \<subseteq> bf_set a"
  proof safe
    fix n
    assume a: "\<forall>i < length (bits b). \<forall>j < 8. 8 * i + j \<in> bf_set b \<longrightarrow> 8 * i + j \<in> bf_set a" and n: "n \<in> bf_set b"
    then have "n div 8 < length (bits b)" by (simp add: bf_set_def)
    with a n show "n \<in> bf_set a" using mult_div_mod_eq [of 8 n] by (metis mod_less_divisor zero_less_numeral)
  qed auto
  finally show ?thesis using True l by (simp add: bitfield_is_subset_def)
qed (simp add: bitfield_is_subset_def)

lemma bf_disjoint:
  assumes "bf_ok a" "bf_ok b"
  shows "bitfield_intersects (Some a) (Some b) = (if bf_set a \<inter> bf_set b \<noteq> {} then 1 else 0)"
proof -
  define u where "u = (if max_bits a < max_bits b then (max_bits a + 7) div 8 else (max_bits b + 7) div 8)"
  have "length (bits a) = (max_bits a + 7) div 8" "length (bits b) = (max_bits b + 7) div 8"
    using assms by (auto simp: bf_ok_def)
  then have u: "i < u \<longleftrightarrow> i < length (bits a) \<and> i < length (bits b)" for i
    using bytes_mono [of "max_bits a" "max_bits b"] bytes_mono [of "max_bits b" "max_bits a"] by (auto simp: u_def)
  have z: "(x :: u8) AND y \<noteq> 0 \<longleftrightarrow> (\<exists>j < 8. bit x j \<and> bit y j)" for x y
    by (auto simp: u8_bits_eq bit_and_iff)
  have e: "bits a ! i AND bits b ! i \<noteq> 0 \<longleftrightarrow> (\<exists>j < 8. 8 * i + j \<in> bf_set a \<inter> bf_set b)" if "i < u" for i
    using that unfolding u z by (auto simp: bf_setI)
  then have "list_ex (\<lambda>i. bits a ! i AND bits b ! i \<noteq> 0) [0..<u] \<longleftrightarrow> (\<exists>i < u. \<exists>j < 8. 8 * i + j \<in> bf_set a \<inter> bf_set b)"
    by (auto simp: list_ex_iff)
  also have "\<dots> \<longleftrightarrow> bf_set a \<inter> bf_set b \<noteq> {}"
  proof
    assume "bf_set a \<inter> bf_set b \<noteq> {}"
    then obtain n where n: "n \<in> bf_set a" "n \<in> bf_set b" by blast
    then have "n div 8 < u" by (simp add: u bf_set_def)
    moreover have "8 * (n div 8) + n mod 8 \<in> bf_set a \<inter> bf_set b" using n by simp
    ultimately show "\<exists>i < u. \<exists>j < 8. 8 * i + j \<in> bf_set a \<inter> bf_set b"
      by (metis mod_less_divisor zero_less_numeral)
  qed auto
  finally show ?thesis by (simp add: bitfield_intersects_def Let_def u_def)
qed

section \<open>Properties\<close>



end
