(* ===== verification/Panel_Utils.thy ===== *)
theory Panel_Utils
  imports Prelude
begin

text \<open>
  Helpers of \<open>src/src/utils.cpp\<close> that more than one panel uses: the numbers in text, and the
  choice of a thumbnail and of its file. What \<open>std::stoi\<close> and \<open>std::stoul\<close> do is
  part of the model; \<open>None\<close> is the exception they throw.
\<close>

section \<open>Numbers\<close>

definition is_blank :: "char \<Rightarrow> bool" where
  "is_blank c \<longleftrightarrow> c \<in> set [CHR '' '', CHR 0x09, CHR 0x0A, CHR 0x0B, CHR 0x0C, CHR 0x0D]"

definition is_digit :: "char \<Rightarrow> bool" where
  "is_digit c \<longleftrightarrow> CHR ''0'' \<le> c \<and> c \<le> CHR ''9''"

definition digits_value :: "string \<Rightarrow> int" where
  "digits_value ds = foldl (\<lambda>acc c. acc * 10 + (of_char c - 48)) 0 ds"

text \<open>\<open>std::stoi(s, &consumed)\<close>: the value and the number of characters read.\<close>

definition stoi :: "string \<Rightarrow> (int \<times> nat) option" where
  "stoi s =
     (let t = dropWhile is_blank s;
          neg = (t \<noteq> [] \<and> hd t = CHR ''-'');
          signed = (t \<noteq> [] \<and> (hd t = CHR ''-'' \<or> hd t = CHR ''+''));
          ds = takeWhile is_digit (if signed then tl t else t);
          v = (if neg then - digits_value ds else digits_value ds)
      in if ds = [] \<or> v < - (2 ^ 31) \<or> 2 ^ 31 \<le> v then None
         else Some (v, length s - length t + (if signed then 1 else 0) + length ds))"

definition parse_int :: "string \<Rightarrow> int \<Rightarrow> int" where
  "parse_int s fallback =
     (case stoi s of
        None \<Rightarrow> fallback
      | Some (v, consumed) \<Rightarrow> if consumed \<noteq> length s then fallback else v)"

definition bytes_to_mb :: "nat \<Rightarrow> nat" where
  "bytes_to_mb s = s div 1024 div 1024"

section \<open>Thumbnails\<close>

text \<open>
  The loop that looks for the thumbnail whose width is closest to the one wanted. \<open>dist\<close> is
  \<open>std::abs(scaled_width - width)\<close> truncated to an \<open>int\<close>; the widths are those of the
  thumbnails from index \<open>i\<close> on. The result is \<open>closest_index\<close> and \<open>thumb_width\<close>.
\<close>

fun thumb_loop :: "(int \<Rightarrow> int) \<Rightarrow> nat \<Rightarrow> int list \<Rightarrow> int \<Rightarrow> nat \<Rightarrow> int \<Rightarrow> nat \<times> int" where
  "thumb_loop dist i [] closest closest_index thumb_width = (closest_index, thumb_width)"
| "thumb_loop dist i (width # ws) closest closest_index thumb_width =
     (if dist width < closest then thumb_loop dist (i + 1) ws (dist width) i width
      else thumb_loop dist (i + 1) ws closest closest_index thumb_width)"

text \<open>The part of a path up to its last separator, and the part behind it.\<close>

definition dir_of :: "string \<Rightarrow> string" where
  "dir_of p = rev (dropWhile (\<lambda>c. c \<noteq> CHR ''/'' \<and> c \<noteq> CHR 0x5C) (rev p))"

definition base_of :: "string \<Rightarrow> string" where
  "base_of p = rev (takeWhile (\<lambda>c. c \<noteq> CHR ''/'' \<and> c \<noteq> CHR 0x5C) (rev p))"

text \<open>
  \<open>get_thumbnail\<close> for thumbnails with their widths and relative paths: the file that is shown
  and its width. \<open>gcode_root\<close> is the directory of the gcode files when Moonraker runs on this
  machine, otherwise \<open>None\<close>, and the thumbnail is downloaded to \<open>thumbnail_path\<close>.
\<close>

definition get_thumbnail ::
  "(int \<Rightarrow> int) \<Rightarrow> string option \<Rightarrow> string \<Rightarrow> string \<Rightarrow> (int \<times> string) list \<Rightarrow> string \<times> int" where
  "get_thumbnail dist gcode_root thumbnail_path gcode_file thumbs =
     (if thumbs = [] then ([], 0)
      else
        let (closest_index, thumb_width) = thumb_loop dist 0 (map fst thumbs) (dist (fst (thumbs ! 0))) 0 0;
            relative_path = dir_of gcode_file @ snd (thumbs ! closest_index);
            fullpath = (case gcode_root of
                          Some gcodes \<Rightarrow> gcodes @ ''/'' @ relative_path
                        | None \<Rightarrow> thumbnail_path @ ''/'' @ base_of relative_path)
        in (fullpath, thumb_width))"

section \<open>The closest thumbnail\<close>

lemma thumb_loop_closest:
  assumes "thumb_loop dist i ws closest idx tw = (r, rw)"
  shows "(r = idx \<and> rw = tw \<and> (\<forall>w \<in> set ws. closest \<le> dist w)) \<or>
    (\<exists>j < length ws. r = i + j \<and> rw = ws ! j \<and> dist (ws ! j) < closest \<and>
       (\<forall>w \<in> set ws. dist (ws ! j) \<le> dist w) \<and> (\<forall>k < j. dist (ws ! j) < dist (ws ! k)))"
  using assms
proof (induction dist i ws closest idx tw rule: thumb_loop.induct)
  case (2 dist i width ws closest idx tw)
  show ?case
  proof (cases "dist width < closest")
    case True
    with 2 have "(r = i \<and> rw = width \<and> (\<forall>w \<in> set ws. dist width \<le> dist w)) \<or>
      (\<exists>j < length ws. r = i + 1 + j \<and> rw = ws ! j \<and> dist (ws ! j) < dist width \<and>
       (\<forall>w \<in> set ws. dist (ws ! j) \<le> dist w) \<and> (\<forall>k < j. dist (ws ! j) < dist (ws ! k)))" by simp
    then show ?thesis
    proof (elim disjE exE conjE)
      fix j assume j: "j < length ws" "r = i + 1 + j" "rw = ws ! j" "dist (ws ! j) < dist width"
        "\<forall>w \<in> set ws. dist (ws ! j) \<le> dist w" "\<forall>k < j. dist (ws ! j) < dist (ws ! k)"
      have "dist (ws ! j) < dist ((width # ws) ! k)" if "k < Suc j" for k
        using j(4,6) that by (cases k) auto
      with True j show ?thesis by (intro disjI2 exI [of _ "Suc j"]) auto
    qed (use True in \<open>auto intro!: exI [of _ 0]\<close>)
  next
    case False
    with 2 have "(r = idx \<and> rw = tw \<and> (\<forall>w \<in> set ws. closest \<le> dist w)) \<or>
      (\<exists>j < length ws. r = i + 1 + j \<and> rw = ws ! j \<and> dist (ws ! j) < closest \<and>
       (\<forall>w \<in> set ws. dist (ws ! j) \<le> dist w) \<and> (\<forall>k < j. dist (ws ! j) < dist (ws ! k)))" by simp
    then show ?thesis
    proof (elim disjE exE conjE)
      fix j assume j: "j < length ws" "r = i + 1 + j" "rw = ws ! j" "dist (ws ! j) < closest"
        "\<forall>w \<in> set ws. dist (ws ! j) \<le> dist w" "\<forall>k < j. dist (ws ! j) < dist (ws ! k)"
      have "dist (ws ! j) < dist ((width # ws) ! k)" if "k < Suc j" for k
        using j(4,6) False that by (cases k) auto
      with False j show ?thesis by (intro disjI2 exI [of _ "Suc j"]) auto
    qed (use False in auto)
  qed
qed simp

section \<open>Properties\<close>



text \<open>Text with anything behind the number, such as a fraction, is not taken for a number.\<close>

lemma parse_int_whole: "parse_int s fallback \<noteq> fallback \<Longrightarrow> stoi s = Some (parse_int s fallback, length s)"
  by (auto simp: parse_int_def split: option.splits if_splits)

end
