(* ===== verification/Wpa_Ctrl.thy ===== *)
theory Wpa_Ctrl
  imports Prelude
begin

text \<open>
  The control socket of wpa\_supplicant as a client sees it (\<open>src/common/wpa_ctrl.c\<close>, with
  the time functions of \<open>src/utils/os.h\<close>), in the configuration the client library is built
  in: UNIX datagram sockets, so a request has no cookie.

  The operating system is an input: what each \<open>send\<close> answers, and for every turn of the
  receive loop the clock, what \<open>select\<close> says and what \<open>recv\<close> reads. A loop that has
  not ended when these answers are used up is still waiting, which is \<open>None\<close>.
\<close>

section \<open>Relative time\<close>

record os_reltime =
  sec :: int
  usec :: int

definition os_reltime_before :: "os_reltime \<Rightarrow> os_reltime \<Rightarrow> bool" where
  "os_reltime_before a b \<longleftrightarrow> sec a < sec b \<or> (sec a = sec b \<and> usec a < usec b)"

definition os_reltime_sub :: "os_reltime \<Rightarrow> os_reltime \<Rightarrow> os_reltime" where
  "os_reltime_sub a b =
     (let s = sec a - sec b; u = usec a - usec b
      in if u < 0 then \<lparr>sec = s - 1, usec = u + 1000000\<rparr> else \<lparr>sec = s, usec = u\<rparr>)"

definition os_reltime_expired :: "os_reltime \<Rightarrow> os_reltime \<Rightarrow> int \<Rightarrow> bool" where
  "os_reltime_expired now ts timeout_secs =
     (let age = os_reltime_sub now ts
      in sec age > timeout_secs \<or> (sec age = timeout_secs \<and> usec age > 0))"

section \<open>Requests\<close>

text \<open>
  The answer to a \<open>send\<close>: it succeeds, the socket is busy (\<open>EAGAIN\<close>, \<open>EBUSY\<close> or
  \<open>EWOULDBLOCK\<close>; with the time \<open>os_get_reltime\<close> reads then), or it fails otherwise.
\<close>

datatype send_answer = Sent | Busy os_reltime | SendFailed

text \<open>The loop at \<open>retry_send\<close>; a first time of 0 seconds means not set.\<close>

fun wpa_ctrl_send :: "os_reltime \<Rightarrow> send_answer list \<Rightarrow> int option" where
  "wpa_ctrl_send started_at [] = None"
| "wpa_ctrl_send started_at (Sent # as) = Some 0"
| "wpa_ctrl_send started_at (SendFailed # as) = Some (-1)"
| "wpa_ctrl_send started_at (Busy now # as) =
     (if sec started_at = 0 then wpa_ctrl_send now as
      else if os_reltime_expired now started_at 5 then Some (-1)
      else wpa_ctrl_send started_at as)"

text \<open>
  The answer to \<open>select\<close> and, when the socket is readable, to \<open>recv\<close>: a datagram is cut
  off at the length of the reply buffer.
\<close>

datatype poll_answer = Interrupted | SelectFailed | NoData | RecvFailed | Datagram "u8 list"

text \<open>Whether what was read is a message of wpa\_supplicant and not the reply.\<close>

definition unsolicited :: "u8 list \<Rightarrow> bool" where
  "unsolicited reply \<longleftrightarrow>
     (length reply > 0 \<and> reply ! 0 = byte (CHR ''<'')) \<or>
     (length reply > 6 \<and> take 7 reply = bytes ''IFNAME='')"

text \<open>What \<open>msg_cb\<close> is given: room for the terminating 0 is made in a full buffer.\<close>

definition msg_for_cb :: "nat \<Rightarrow> u8 list \<Rightarrow> u8 list" where
  "msg_for_cb reply_len reply =
     (if length reply = reply_len then take (reply_len - 1) reply else reply)"

text \<open>
  The receive loop: the return value with the reply, and the messages \<open>msg_cb\<close> was
  called with.
\<close>

fun wpa_ctrl_await ::
  "bool \<Rightarrow> nat \<Rightarrow> os_reltime \<Rightarrow> u8 list list \<Rightarrow> (os_reltime \<times> poll_answer) list \<Rightarrow>
   (u8 list outcome \<times> u8 list list) option" where
  "wpa_ctrl_await msg_cb reply_len ending_at msgs [] = None"
| "wpa_ctrl_await msg_cb reply_len ending_at msgs ((started_at, answer) # as) =
     (if os_reltime_before ending_at started_at then Some (Err (-2), msgs)
      else
        case answer of
          Interrupted \<Rightarrow> wpa_ctrl_await msg_cb reply_len ending_at msgs as
        | SelectFailed \<Rightarrow> Some (Err (-1), msgs)
        | NoData \<Rightarrow> Some (Err (-2), msgs)
        | RecvFailed \<Rightarrow> Some (Err (-1), msgs)
        | Datagram d \<Rightarrow>
            let reply = take reply_len d
            in if unsolicited reply
               then wpa_ctrl_await msg_cb reply_len ending_at
                      (if msg_cb then msgs @ [msg_for_cb reply_len reply] else msgs) as
               else Some (Ret reply, msgs))"

text \<open>
  What the socket answers to a command sent to it: to each attempt to send it, the time once it
  is sent, and what then arrives.
\<close>

type_synonym socket = "string \<Rightarrow> send_answer list \<times> os_reltime \<times> (os_reltime \<times> poll_answer) list"

definition wpa_ctrl_request ::
  "bool \<Rightarrow> nat \<Rightarrow> socket \<Rightarrow> string \<Rightarrow> (u8 list outcome \<times> u8 list list) option" where
  "wpa_ctrl_request msg_cb reply_len sock cmd =
     (let (sends, now, polls) = sock cmd
      in case wpa_ctrl_send \<lparr>sec = 0, usec = 0\<rparr> sends of
           None \<Rightarrow> None
         | Some r \<Rightarrow>
             if r < 0 then Some (Err r, [])
             else wpa_ctrl_await msg_cb reply_len (now\<lparr>sec := sec now + 10\<rparr>) [] polls)"

definition wpa_ctrl_attach_helper :: "socket \<Rightarrow> bool \<Rightarrow> int option" where
  "wpa_ctrl_attach_helper sock attach =
     (case wpa_ctrl_request False 10 sock (if attach then ''ATTACH'' else ''DETACH'') of
        None \<Rightarrow> None
      | Some (Ret buf, _) \<Rightarrow> Some (if length buf = 3 \<and> buf = bytes ''OK'' @ [10] then 0 else -1)
      | Some (Err ret, _) \<Rightarrow> Some ret
      | Some (OutOfBounds, _) \<Rightarrow> None)" \<comment> \<open>\<open>wpa_ctrl_request\<close> never leaves the buffer\<close>

definition wpa_ctrl_attach :: "socket \<Rightarrow> int option" where
  "wpa_ctrl_attach sock = wpa_ctrl_attach_helper sock True"

definition wpa_ctrl_detach :: "socket \<Rightarrow> int option" where
  "wpa_ctrl_detach sock = wpa_ctrl_attach_helper sock False"

section \<open>The receive loop\<close>

text \<open>A turn of the loop that goes on: a signal, or a message that is not the reply.\<close>

definition passed_over :: "nat \<Rightarrow> os_reltime \<Rightarrow> os_reltime \<times> poll_answer \<Rightarrow> bool" where
  "passed_over reply_len ending_at a \<longleftrightarrow> \<not> os_reltime_before ending_at (fst a) \<and>
     (case snd a of Interrupted \<Rightarrow> True | Datagram d \<Rightarrow> unsolicited (take reply_len d) | _ \<Rightarrow> False)"

definition messages :: "nat \<Rightarrow> (os_reltime \<times> poll_answer) list \<Rightarrow> u8 list list" where
  "messages reply_len as =
     concat (map (\<lambda>a. case snd a of Datagram d \<Rightarrow> [msg_for_cb reply_len (take reply_len d)] | _ \<Rightarrow> []) as)"

lemma await_passed_over:
  assumes "\<forall>a \<in> set pre. passed_over n ending_at a"
  shows "wpa_ctrl_await cb n ending_at msgs (pre @ as) =
    wpa_ctrl_await cb n ending_at (if cb then msgs @ messages n pre else msgs) as"
  using assms
proof (induction pre arbitrary: msgs)
  case (Cons a pre)
  then show ?case
    by (cases a; cases "snd a") (auto simp: passed_over_def messages_def)
qed (simp add: messages_def)

lemma await_total:
  assumes "a \<in> set as" "\<not> passed_over n ending_at a"
  shows "wpa_ctrl_await cb n ending_at msgs as \<noteq> None"
  using assms
proof (induction as arbitrary: msgs)
  case (Cons b as)
  then show ?case
    by (cases b; cases "snd b") (auto simp: passed_over_def Let_def)
qed simp

lemma await_reply:
  "wpa_ctrl_await cb n ending_at msgs as = Some (Ret r, ms) \<Longrightarrow>
   \<not> unsolicited r \<and> (\<exists>t d. (t, Datagram d) \<in> set as \<and> r = take n d \<and> \<not> os_reltime_before ending_at t)"
proof (induction as arbitrary: msgs)
  case (Cons a as)
  then show ?case
    by (cases a; cases "snd a"; auto simp: Let_def split: if_splits; blast)
qed simp

lemma await_no_overrun: "wpa_ctrl_await cb n ending_at msgs as \<noteq> Some (OutOfBounds, ms)"
proof (induction as arbitrary: msgs)
  case (Cons a as)
  then show ?case by (cases a; cases "snd a") (auto simp: Let_def)
qed simp

section \<open>Sending\<close>

text \<open>
  While the socket stays busy and every attempt is a second after the one before, the loop
  gives up by the eighth attempt.
\<close>

definition paced :: "os_reltime list \<Rightarrow> bool" where
  "paced ts \<longleftrightarrow> (\<forall>i < length ts. 0 < sec (ts ! i) \<and> 0 \<le> usec (ts ! i) \<and> usec (ts ! i) < 1000000) \<and>
     (\<forall>i. Suc i < length ts \<longrightarrow> sec (ts ! i) + 1 \<le> sec (ts ! Suc i))"

lemma send_gives_up:
  assumes "sec t0 \<noteq> 0" "0 \<le> usec t0" "usec t0 < 1000000" "t \<in> set ts" "sec t0 + 7 \<le> sec t"
    "0 \<le> usec t" "usec t < 1000000"
  shows "wpa_ctrl_send t0 (map Busy ts @ as) = Some (-1)"
  using assms(4)
proof (induction ts)
  case (Cons x ts)
  show ?case
  proof (cases "x = t")
    case True
    with assms show ?thesis by (simp add: os_reltime_expired_def os_reltime_sub_def Let_def)
  next
    case False
    with Cons assms(1) show ?thesis by auto
  qed
qed simp

lemma paced_sec: "paced ts \<Longrightarrow> i < length ts \<Longrightarrow> sec (ts ! 0) + int i \<le> sec (ts ! i)"
proof (induction i)
  case (Suc i)
  then have "sec (ts ! 0) + int i \<le> sec (ts ! i)" "sec (ts ! i) + 1 \<le> sec (ts ! Suc i)"
    by (auto simp: paced_def)
  then show ?case by simp
qed simp

lemma send_bounded:
  assumes "paced ts" "8 \<le> length ts"
  shows "wpa_ctrl_send \<lparr>sec = 0, usec = 0\<rparr> (map Busy ts @ as) = Some (-1)"
proof -
  from assms(2) obtain t0 ts' where ts: "ts = t0 # ts'" by (cases ts) auto
  have len: "7 < length ts" "0 < length ts" using assms(2) by linarith+
  have "t \<in> set ts'" if "t = ts ! 7" for t using that len by (simp add: ts)
  moreover have "sec t0 + 7 \<le> sec (ts ! 7)" using paced_sec [OF assms(1) len(1)] by (simp add: ts)
  moreover have "0 < sec t0 \<and> 0 \<le> usec t0 \<and> usec t0 < 1000000"
    "0 \<le> usec (ts ! 7) \<and> usec (ts ! 7) < 1000000"
    using assms(1) len by (auto simp: paced_def ts)
  ultimately show ?thesis using send_gives_up [of t0 "ts ! 7" ts' as] by (simp add: ts)
qed

section \<open>Properties\<close>

text \<open>
  C17. \<open>wpa_ctrl_request\<close> returns the reply and nothing else. Once the command is out,
  signals and unsolicited messages (those that begin with \<open><\<close> or \<open>IFNAME=\<close>) are passed
  over, in order, to \<open>msg_cb\<close> if there is one, and the first other datagram within ten
  seconds is returned, cut off at the buffer; whatever it returns as a reply is such a
  datagram. It never waits beyond the ten seconds, however many messages arrive, nor for a
  busy socket beyond the eighth attempt, when attempts are a second apart.
\<close>

theorem request_returns_reply:
  assumes "sock cmd = (sends, now, polls)"
    and "deadline = now\<lparr>sec := sec now + 10\<rparr>"
    and "wpa_ctrl_send \<lparr>sec = 0, usec = 0\<rparr> sends = Some 0"
  shows "(\<forall>pre t d post. polls = pre @ (t, Datagram d) # post \<longrightarrow>
        (\<forall>a \<in> set pre. passed_over n deadline a) \<longrightarrow> \<not> os_reltime_before deadline t \<longrightarrow>
        \<not> unsolicited (take n d) \<longrightarrow>
        wpa_ctrl_request cb n sock cmd = Some (Ret (take n d), if cb then messages n pre else [])) \<and>
    (\<forall>r ms. wpa_ctrl_request cb n sock cmd = Some (Ret r, ms) \<longrightarrow>
        \<not> unsolicited r \<and> (\<exists>t d. (t, Datagram d) \<in> set polls \<and> r = take n d \<and> \<not> os_reltime_before deadline t)) \<and>
    (\<forall>t p. (t, p) \<in> set polls \<longrightarrow> os_reltime_before deadline t \<longrightarrow> wpa_ctrl_request cb n sock cmd \<noteq> None) \<and>
    (\<forall>ts as. paced ts \<longrightarrow> 8 \<le> length ts \<longrightarrow> sock cmd' = (map Busy ts @ as, now, polls) \<longrightarrow>
        wpa_ctrl_request cb n sock cmd' = Some (Err (-1), []))"
proof -
  have req: "wpa_ctrl_request cb n sock cmd = wpa_ctrl_await cb n deadline [] polls"
    using assms by (simp add: wpa_ctrl_request_def)
  have "wpa_ctrl_request cb n sock cmd = Some (Ret (take n d), if cb then messages n pre else [])"
    if "polls = pre @ (t, Datagram d) # post" "\<forall>a \<in> set pre. passed_over n deadline a"
      "\<not> os_reltime_before deadline t" "\<not> unsolicited (take n d)" for pre t d post
    using that by (simp add: req await_passed_over)
  moreover have "wpa_ctrl_request cb n sock cmd \<noteq> None"
    if "(t, p) \<in> set polls" "os_reltime_before deadline t" for t p
    using await_total [OF that(1), of n deadline cb "[]"] that(2) by (simp add: req passed_over_def)
  moreover have "wpa_ctrl_request cb n sock cmd' = Some (Err (-1), [])"
    if "paced ts" "8 \<le> length ts" "sock cmd' = (map Busy ts @ as, now, polls)" for ts as
    using send_bounded [OF that(1,2)] that(3) by (simp add: wpa_ctrl_request_def)
  ultimately show ?thesis using await_reply [of cb n deadline "[]" polls] req by auto
qed

text \<open>A busy first attempt, then two events and the reply.\<close>

theorem request_returns_reply_witness:
  "wpa_ctrl_request False 4095
     (\<lambda>cmd. if cmd = ''SCAN'' then ([Busy \<lparr>sec = 7, usec = 0\<rparr>, Sent], \<lparr>sec = 8, usec = 0\<rparr>,
        [(\<lparr>sec = 8, usec = 10\<rparr>, Datagram (bytes ''<3>CTRL-EVENT-SCAN-STARTED'')), (\<lparr>sec = 8, usec = 20\<rparr>, Interrupted),
         (\<lparr>sec = 9, usec = 0\<rparr>, Datagram (bytes ''OK'' @ [10]))]) else ([], \<lparr>sec = 0, usec = 0\<rparr>, []))
     ''SCAN'' = Some (Ret (bytes ''OK'' @ [10]), [])"
  (is "wpa_ctrl_request False 4095 ?sock _ = _")
proof -
  define polls where "polls = [(\<lparr>sec = 8, usec = 10\<rparr>, Datagram (bytes ''<3>CTRL-EVENT-SCAN-STARTED'')),
    (\<lparr>sec = 8, usec = 20\<rparr>, Interrupted), (\<lparr>sec = 9, usec = 0\<rparr>, Datagram (bytes ''OK'' @ [10]))]"
  have sock: "?sock ''SCAN'' = ([Busy \<lparr>sec = 7, usec = 0\<rparr>, Sent], \<lparr>sec = 8, usec = 0\<rparr>, polls)"
    by (simp add: polls_def)
  have sent: "wpa_ctrl_send \<lparr>sec = 0, usec = 0\<rparr> [Busy \<lparr>sec = 7, usec = 0\<rparr>, Sent] = Some 0" by simp
  have deadline: "\<lparr>sec = 18, usec = 0\<rparr> = \<lparr>sec = 8, usec = 0\<rparr>\<lparr>sec := sec \<lparr>sec = 8, usec = 0\<rparr> + 10\<rparr>" by simp
  have reply: "\<not> unsolicited (take 4095 (bytes ''OK'' @ [10]))" by code_simp
  have pre: "\<forall>a \<in> set (take 2 polls). passed_over 4095 \<lparr>sec = 18, usec = 0\<rparr> a"
    unfolding polls_def by code_simp
  have polls: "polls = take 2 polls @ (\<lparr>sec = 9, usec = 0\<rparr>, Datagram (bytes ''OK'' @ [10])) # []"
    by (simp add: polls_def)
  have early: "\<not> os_reltime_before \<lparr>sec = 18, usec = 0\<rparr> \<lparr>sec = 9, usec = 0\<rparr>" by (simp add: os_reltime_before_def)
  note conj = request_returns_reply [of ?sock "''SCAN''", OF sock deadline sent, of 4095 False, THEN conjunct1]
  from conj [rule_format, OF polls _ early reply] pre
  have "wpa_ctrl_request False 4095 ?sock ''SCAN'' = Some (Ret (take 4095 (bytes ''OK'' @ [10])), [])"
    by simp
  then show ?thesis by simp
qed

end
