(* ===== verification/Wpa_Event.thy ===== *)
theory Wpa_Event
  imports Event_Queue Wpa_Ctrl
begin

text \<open>
  \<open>WpaEvent\<close> (\<open>src/src/wpa_event.cpp\<close>, \<open>wpa_event.h\<close>): the monitor socket of
  wpa\_supplicant fills a queue on libhv's thread, and \<open>drain\<close> runs the registered
  callbacks on the LVGL thread. What a callback does to the rest of the program, and whether it
  throws, is the argument \<open>run\<close>. libhv, the file system and the opening of sockets are
  arguments as well. A connection is the path of its socket.
\<close>

section \<open>State\<close>

record 'h wpa_event =
  wpa_conn :: "string option"
  wpa_callbacks :: "(string \<times> 'h) list"
  wpa_queue :: "u8 list list"
  wpa_dropped :: bool
  wpa_monitors :: "string list" \<comment> \<open>the monitor sockets libhv reads for this object\<close>

definition new_wpa_event :: "'h wpa_event" where
  "new_wpa_event = \<lparr>wpa_conn = None, wpa_callbacks = [], wpa_queue = [], wpa_dropped = False, wpa_monitors = []\<rparr>"

definition wpa_queue_max :: nat where
  "wpa_queue_max = 128"

definition register_callback :: "string \<Rightarrow> 'h \<Rightarrow> 'h wpa_event \<Rightarrow> 'h wpa_event" where
  "register_callback name cb we =
     (case map_of (wpa_callbacks we) name of
        None \<Rightarrow> we\<lparr>wpa_callbacks := smap_insert_new name cb (wpa_callbacks we)\<rparr>
      | Some _ \<Rightarrow> we)"

section \<open>Connecting\<close>

text \<open>
  The configured path, or when it is a directory the first socket in it whose path does not
  contain \<open>p2p\<close>; the entries come in the order of the iteration, with whether each is a
  socket.
\<close>

definition wpa_socket :: "string \<Rightarrow> bool \<Rightarrow> (string \<times> bool) list \<Rightarrow> string" where
  "wpa_socket configured is_directory entries =
     (if is_directory then
        (case find (\<lambda>e. snd e \<and> \<not> sublist ''p2p'' (fst e)) entries of
           None \<Rightarrow> configured
         | Some e \<Rightarrow> fst e)
      else configured)"

text \<open>
  \<open>opens\<close> tells whether the two \<open>wpa_ctrl_open\<close> succeed, \<open>attached\<close> is the result of
  \<open>wpa_ctrl_attach\<close>, which is only logged, and \<open>io\<close> whether \<open>hio_get\<close> gives an
  object. \<open>None\<close> is the use of a null pointer as that object.
\<close>

definition init_wpa ::
  "string \<Rightarrow> bool \<times> bool \<Rightarrow> int \<Rightarrow> bool \<Rightarrow> 'h wpa_event \<Rightarrow> 'h wpa_event option" where
  "init_wpa socket opens attached io we =
     (let we1 = (if wpa_conn we = None \<and> fst opens then we\<lparr>wpa_conn := Some socket\<rparr> else we)
      in if wpa_conn we1 = None then Some we1
         else if \<not> snd opens then Some we1
         else if \<not> io then None
         else Some (we1\<lparr>wpa_monitors := wpa_monitors we1 @ [socket]\<rparr>))"

section \<open>Events\<close>

definition handle_wpa_events :: "u8 list \<Rightarrow> 'h wpa_event \<Rightarrow> 'h wpa_event" where
  "handle_wpa_events event we =
     (let full = length (wpa_queue we) \<ge> wpa_queue_max
      in we\<lparr>wpa_queue := (if full then tl (wpa_queue we) else wpa_queue we) @ [event],
            wpa_dropped := (wpa_dropped we \<or> full)\<rparr>)"

text \<open>The locked part of \<open>drain\<close>.\<close>

definition wpa_batch :: "'h wpa_event \<Rightarrow> u8 list list \<times> 'h wpa_event" where
  "wpa_batch we = (wpa_queue we, we\<lparr>wpa_queue := [], wpa_dropped := False\<rparr>)"

text \<open>
  \<open>KGuard::event\<close>: the function changes the state until it returns or throws; a throw is
  an error in the log.
\<close>

definition guard_event :: "('s \<Rightarrow> 's \<times> bool) \<Rightarrow> 's \<times> nat \<Rightarrow> 's \<times> nat" where
  "guard_event fn sl =
     (let (s', threw) = fn (fst sl) in (s', if threw then snd sl + 1 else snd sl))"

definition wpa_drain ::
  "('h \<Rightarrow> u8 list \<Rightarrow> 's \<Rightarrow> 's \<times> bool) \<Rightarrow> 'h wpa_event \<Rightarrow> 's \<times> nat \<Rightarrow> 'h wpa_event \<times> 's \<times> nat" where
  "wpa_drain run we sl =
     (let (batch, we1) = wpa_batch we
      in (we1, fold (\<lambda>event. fold (\<lambda>entry. guard_event (run (snd entry) event)) (wpa_callbacks we1)) batch sl))"

text \<open>The reply to a command, empty when there is no connection or the request fails.\<close>

definition send_command :: "socket \<Rightarrow> string \<Rightarrow> 'h wpa_event \<Rightarrow> u8 list option" where
  "send_command sock cmd we =
     (let len = 4096 - 1
      in case wpa_conn we of
           None \<Rightarrow> Some []
         | Some _ \<Rightarrow>
             (case wpa_ctrl_request False len sock cmd of
                None \<Rightarrow> None
              | Some (Ret resp, _) \<Rightarrow> Some resp
              | Some _ \<Rightarrow> Some []))"

interpretation wpaq: bounded_queue "wpa_queue :: 'h wpa_event \<Rightarrow> u8 list list" handle_wpa_events wpa_batch wpa_queue_max
  by unfold_locales (simp_all add: handle_wpa_events_def wpa_batch_def wpa_queue_max_def Let_def)

section \<open>Interleavings of the two threads\<close>

text \<open>
  The queue is locked, so the threads interleave as a sequence of arrivals and drains: an event
  that arrives while the callbacks run is queued for the next drain.
\<close>

datatype wpa_step = Arrives "u8 list" | Drains

fun wpa_run ::
  "('h \<Rightarrow> u8 list \<Rightarrow> 's \<Rightarrow> 's \<times> bool) \<Rightarrow> wpa_step list \<Rightarrow> 'h wpa_event \<times> 's \<times> nat \<Rightarrow> 'h wpa_event \<times> 's \<times> nat" where
  "wpa_run run [] st = st"
| "wpa_run run (Arrives e # steps) (we, sl) = wpa_run run steps (handle_wpa_events e we, sl)"
| "wpa_run run (Drains # steps) (we, sl) = wpa_run run steps (wpa_drain run we sl)"

definition arrivals :: "wpa_step list \<Rightarrow> u8 list list" where
  "arrivals steps = concat (map (\<lambda>x. case x of Arrives e \<Rightarrow> [e] | Drains \<Rightarrow> []) steps)"

text \<open>No more than \<open>queue_max\<close> events wait at any time, \<open>k\<close> of them at the start.\<close>

fun keeps_up :: "nat \<Rightarrow> wpa_step list \<Rightarrow> bool" where
  "keeps_up k [] = True"
| "keeps_up k (Arrives e # steps) = (k < wpa_queue_max \<and> keeps_up (k + 1) steps)"
| "keeps_up k (Drains # steps) = keeps_up 0 steps"

lemma arrivals_simps [simp]:
  "arrivals [] = []" "arrivals (Arrives e # steps) = e # arrivals steps" "arrivals (Drains # steps) = arrivals steps"
  by (simp_all add: arrivals_def)

text \<open>What the callbacks do to the program, and the throws they log, for a list of events.\<close>

definition effects ::
  "('h \<Rightarrow> u8 list \<Rightarrow> 's \<Rightarrow> 's \<times> bool) \<Rightarrow> 'h list \<Rightarrow> u8 list list \<Rightarrow> 's \<Rightarrow> 's" where
  "effects run hs es s = fold (\<lambda>(e, h) s. fst (run h e s)) (List.product es hs) s"

lemma effects_simps [simp]:
  "effects run hs [] s = s"
  "effects run hs (es @ es') s = effects run hs es' (effects run hs es s)"
  "effects run hs (e # es) s = effects run hs es (fold (\<lambda>h s. fst (run h e s)) hs s)"
proof -
  have "List.product (es @ es') hs = List.product es hs @ List.product es' hs"
    by (induction es) auto
  then show "effects run hs (es @ es') s = effects run hs es' (effects run hs es s)"
    by (simp add: effects_def)
qed (simp_all add: effects_def fold_map comp_def)

lemma fst_guard_event [simp]: "fst (guard_event fn sl) = fst (fn (fst sl))"
  by (simp add: guard_event_def split: prod.split)

lemma fst_run_callbacks:
  "fst (fold (\<lambda>entry. guard_event (run (snd entry) e)) cbs sl) = fold (\<lambda>h s. fst (run h e s)) (map snd cbs) (fst sl)"
  by (induction cbs arbitrary: sl) auto

lemma fst_drain_effects:
  "fst (fold (\<lambda>e. fold (\<lambda>entry. guard_event (run (snd entry) e)) cbs) es sl) = effects run (map snd cbs) es (fst sl)"
  by (induction es arbitrary: sl) (auto simp: fst_run_callbacks)

lemma handle_keeps [simp]: "wpa_callbacks (handle_wpa_events e we) = wpa_callbacks we"
  by (simp add: handle_wpa_events_def Let_def)

lemma subseq_arrival: "subseq ((if full then tl q else q) @ e # es) (q @ e # es)"
  by (cases q) (auto intro: list_emb_append_mono)

lemma wpa_run_delivers:
  assumes "wpa_run run steps (we, sl) = (we', sl')" "length (wpa_queue we) \<le> wpa_queue_max"
  shows "\<exists>delivered. subseq (delivered @ wpa_queue we') (wpa_queue we @ arrivals steps) \<and>
    fst sl' = effects run (map snd (wpa_callbacks we)) delivered (fst sl) \<and>
    length (wpa_queue we') \<le> wpa_queue_max \<and> wpa_callbacks we' = wpa_callbacks we \<and>
    (keeps_up (length (wpa_queue we)) steps \<longrightarrow> delivered @ wpa_queue we' = wpa_queue we @ arrivals steps)"
  using assms
proof (induction run steps "(we, sl)" arbitrary: we sl rule: wpa_run.induct)
  case (1 run)
  then show ?case by (intro exI [of _ "[]"]) simp
next
  case (2 run e steps we sl)
  let ?we = "handle_wpa_events e we"
  have "length (wpa_queue ?we) \<le> wpa_queue_max" using "2.prems"(2) by (rule wpaq.length_push)
  then obtain delivered where IH: "subseq (delivered @ wpa_queue we') (wpa_queue ?we @ arrivals steps)"
    "fst sl' = effects run (map snd (wpa_callbacks we)) delivered (fst sl)"
    "length (wpa_queue we') \<le> wpa_queue_max" "wpa_callbacks we' = wpa_callbacks we"
    "keeps_up (length (wpa_queue ?we)) steps \<longrightarrow> delivered @ wpa_queue we' = wpa_queue ?we @ arrivals steps"
    using 2 by (metis handle_keeps wpa_run.simps(2))
  have "subseq (wpa_queue ?we @ arrivals steps) (wpa_queue we @ e # arrivals steps)"
    using subseq_arrival [of "wpa_queue_max \<le> length (wpa_queue we)" "wpa_queue we" e "arrivals steps"]
    by (simp add: wpaq.items_push split: if_splits)
  with IH show ?case
    by (intro exI [of _ delivered]) (auto simp: wpaq.items_push intro: subseq_order.trans)
next
  case (3 run steps we sl)
  obtain we1 sl1 where drain: "wpa_drain run we sl = (we1, sl1)" by (cases "wpa_drain run we sl")
  then have d: "wpa_queue we1 = []" "wpa_callbacks we1 = wpa_callbacks we"
    "fst sl1 = effects run (map snd (wpa_callbacks we)) (wpa_queue we) (fst sl)"
    by (auto simp: wpa_drain_def wpa_batch_def fst_drain_effects)
  then obtain delivered where IH: "subseq (delivered @ wpa_queue we') (arrivals steps)"
    "fst sl' = effects run (map snd (wpa_callbacks we)) delivered (fst sl1)"
    "length (wpa_queue we') \<le> wpa_queue_max" "wpa_callbacks we' = wpa_callbacks we"
    "keeps_up 0 steps \<longrightarrow> delivered @ wpa_queue we' = arrivals steps"
    using 3 drain by (metis append_Nil list.size(3) wpa_run.simps(3) zero_le)
  with d show ?case by (intro exI [of _ "wpa_queue we @ delivered"]) (auto intro: list_emb_append_mono)
qed

section \<open>Registration\<close>

lemma registered:
  "smap_ok (wpa_callbacks we) \<Longrightarrow>
   smap_ok (wpa_callbacks (fold (\<lambda>(n, h). register_callback n h) rs we)) \<and>
   map_of (wpa_callbacks (fold (\<lambda>(n, h). register_callback n h) rs we)) = map_of rs ++ map_of (wpa_callbacks we) \<and>
   wpa_queue (fold (\<lambda>(n, h). register_callback n h) rs we) = wpa_queue we"
proof (induction rs arbitrary: we)
  case (Cons r rs)
  obtain n h where r: "r = (n, h)" by (cases r)
  have "smap_ok (wpa_callbacks (register_callback n h we)) \<and> wpa_queue (register_callback n h we) = wpa_queue we \<and>
      map_of (wpa_callbacks (register_callback n h we)) = [n \<mapsto> h] ++ map_of (wpa_callbacks we)"
    using Cons.prems by (auto simp: register_callback_def smap_simps fun_eq_iff map_add_def split: option.split)
  moreover have "map_of rs ++ ([n \<mapsto> h] ++ map_of (wpa_callbacks we)) = map_of (r # rs) ++ map_of (wpa_callbacks we)"
    by (auto simp: r map_add_def fun_eq_iff split: option.split)
  ultimately show ?case using Cons.IH [of "register_callback n h we"]
    by (simp add: r fun_upd_def)
qed simp

section \<open>Connection and commands\<close>

lemma init_wpa_connects:
  "init_wpa socket (True, True) attached True new_wpa_event =
     Some (new_wpa_event\<lparr>wpa_conn := Some socket, wpa_monitors := [socket]\<rparr>)"
  by (simp add: init_wpa_def new_wpa_event_def)

text \<open>A second start keeps the command connection.\<close>

lemma init_wpa_keeps_conn:
  "wpa_conn we = Some c \<Longrightarrow> init_wpa socket opens attached io we = Some we' \<Longrightarrow> wpa_conn we' = Some c"
  by (auto simp: init_wpa_def Let_def split: if_splits)

lemma send_command_not_event: "send_command sock cmd we = Some r \<Longrightarrow> \<not> unsolicited r"
  by (auto simp: send_command_def wpa_ctrl_request_def Let_def unsolicited_def await_reply
      split: option.splits outcome.splits prod.splits if_splits dest!: await_reply)

section \<open>Properties\<close>

text \<open>
  C16. Events of wpa\_supplicant reach the callbacks in order and at most once, whatever the
  interleaving of the two threads. The first callback registered under a name stays; every
  event that is delivered is passed to all callbacks in the order of their names, a throw in
  one of them stopping neither the others nor the later events; what is delivered or still
  queued is a subsequence of what arrived, and all of it as long as no more than 128 events
  wait between two drains; the queue never holds more.
\<close>

theorem wpa_events_delivered:
  assumes "we = fold (\<lambda>(n, h). register_callback n h) rs new_wpa_event"
    and "wpa_run run steps (we, s, errs) = (we', s', errs')"
  shows "map_of (wpa_callbacks we) = map_of rs \<and> smap_ok (wpa_callbacks we) \<and>
    length (wpa_queue we') \<le> 128 \<and>
    (\<exists>delivered. subseq (delivered @ wpa_queue we') (arrivals steps) \<and>
       s' = effects run (map snd (wpa_callbacks we)) delivered s \<and>
       (keeps_up 0 steps \<longrightarrow> delivered @ wpa_queue we' = arrivals steps))"
proof -
  have new: "smap_ok (wpa_callbacks new_wpa_event)" "wpa_queue new_wpa_event = []"
    "wpa_callbacks new_wpa_event = []"
    by (simp_all add: new_wpa_event_def)
  have reg: "smap_ok (wpa_callbacks we)" "map_of (wpa_callbacks we) = map_of rs" "wpa_queue we = []"
    using registered [OF new(1), of rs] by (simp_all add: assms(1) new)
  then show ?thesis
    using wpa_run_delivers [OF assms(2)] by (auto simp: wpa_queue_max_def)
qed

theorem wpa_events_delivered_witness:
  "\<exists>delivered. delivered = [bytes ''a'', bytes ''b''] \<and>
     fst (snd (wpa_run (\<lambda>h e s. (s @ [(h, e)], h = (1::nat))) [Arrives (bytes ''a''), Arrives (bytes ''b''), Drains]
       (fold (\<lambda>(n, h). register_callback n h) [(''y'', 2), (''x'', 1)] new_wpa_event, [], 0))) =
     effects (\<lambda>h e s. (s @ [(h, e)], h = (1::nat))) [1, 2] delivered []"
proof -
  let ?run = "\<lambda>h e s. (s @ [(h, e)], h = (1::nat))"
  define we where "we = fold (\<lambda>(n, h). register_callback n h) [(''y'', 2::nat), (''x'', 1)] new_wpa_event"
  define steps where "steps = [Arrives (bytes ''a''), Arrives (bytes ''b''), Drains]"
  obtain we' s' errs' where run: "wpa_run ?run steps (we, [], 0) = (we', s', errs')"
    by (cases "wpa_run ?run steps (we, [], 0)") auto
  have cbs: "map snd (wpa_callbacks we) = [1, 2]" unfolding we_def by code_simp
  have q: "wpa_queue we' = []"
  proof -
    have "wpa_queue (fst (wpa_run ?run steps (we, [], 0))) = []" unfolding we_def steps_def by code_simp
    then show ?thesis by (simp only: run fst_conv)
  qed
  have keeps: "keeps_up 0 steps" unfolding steps_def by code_simp
  have arr: "arrivals steps = [bytes ''a'', bytes ''b'']" by (simp add: steps_def)
  from wpa_events_delivered [OF we_def run] keeps
  have "s' = effects ?run [1, 2] [bytes ''a'', bytes ''b''] []"
    unfolding cbs q arr append_Nil2 by blast
  with run show ?thesis by (simp add: we_def steps_def)
qed

end
