(* ===== verification/Wifi_Panel.thy ===== *)
theory Wifi_Panel
  imports File_Tree Panel_Utils Wpa_Event
begin

text \<open>
  \<open>WifiPanel\<close> (\<open>src/src/wifi_panel.cpp\<close>, \<open>wifi_panel.h\<close>): the networks
  wpa\_supplicant knows, the scan results on screen, and the commands that connect to a network
  and forget it.

  wpa\_supplicant is another process: \<open>send\<close> is what it answers to a command in a state of
  its own, and \<open>WpaEvent::send_command\<close> is how the command gets there. LVGL is the list
  of calls made to it. \<open>quote\<close> is the format \<open>{:?}\<close> of fmt, \<open>ip\<close> the address
  \<open>KUtils::interface_ip\<close> reports, and \<open>srt\<close> the result of \<open>std::sort\<close>, which
  does not fix the order of equal elements.
\<close>

section \<open>Commands\<close>

datatype wpa_cmd =
    Scan
  | ScanResults
  | ListNetworks
  | AddNetwork
  | RemoveNetwork string
  | SelectNetwork string
  | SetSsid string string
  | SetPsk string string
  | EnableNetwork string
  | SaveConfig

fun cmd_text :: "(string \<Rightarrow> string) \<Rightarrow> wpa_cmd \<Rightarrow> string" where
  "cmd_text quote Scan = ''SCAN''"
| "cmd_text quote ScanResults = ''SCAN_RESULTS''"
| "cmd_text quote ListNetworks = ''LIST_NETWORKS''"
| "cmd_text quote AddNetwork = ''ADD_NETWORK''"
| "cmd_text quote (RemoveNetwork nid) = ''REMOVE_NETWORK '' @ nid"
| "cmd_text quote (SelectNetwork nid) = ''SELECT_NETWORK '' @ nid"
| "cmd_text quote (SetSsid nid ssid) = ''SET_NETWORK '' @ nid @ '' ssid '' @ quote ssid"
| "cmd_text quote (SetPsk nid psk) = ''SET_NETWORK '' @ nid @ '' psk '' @ quote psk"
| "cmd_text quote (EnableNetwork nid) = ''ENABLE_NETWORK '' @ nid"
| "cmd_text quote SaveConfig = ''SAVE_CONFIG''"

section \<open>The panel\<close>

datatype widget = Spinner | PasswordInput | PromptCont | ForgetBtn | WifiTable | Keyboard

datatype cell = Text string | SymWifi | SymOkWifi

datatype ui =
    Show widget
  | Hide widget
  | Label string
  | Cell nat nat cell
  | ClearPassword
  | ScrollTop
  | KeyboardFor bool \<comment> \<open>\<open>lv_keyboard_set_textarea\<close>, with the password box or with NULL\<close>
  | Unfocus
  | SendFocused
  | SendDefocused
  | MoveForeground
  | MoveBackground

record 'd wifi =
  selected_network :: string
  cur_network :: string
  list_networks :: "(string \<times> string) list"
  wifi_name_db :: "(string \<times> int) list"
  daemon :: 'd
  commands :: "wpa_cmd list" \<comment> \<open>sent so far, newest last\<close>
  uis :: "ui list" \<comment> \<open>calls to LVGL so far\<close>

type_synonym 'd answers = "'d \<Rightarrow> wpa_cmd \<Rightarrow> string \<times> 'd"

definition ask :: "'d answers \<Rightarrow> wpa_cmd \<Rightarrow> 'd wifi \<Rightarrow> string \<times> 'd wifi" where
  "ask send c w =
     (let (r, d) = send (daemon w) c in (r, w\<lparr>daemon := d, commands := commands w @ [c]\<rparr>))"

definition tell :: "'d answers \<Rightarrow> wpa_cmd \<Rightarrow> 'd wifi \<Rightarrow> 'd wifi" where
  "tell send c w = snd (ask send c w)"

definition emit :: "ui list \<Rightarrow> 'd wifi \<Rightarrow> 'd wifi" where
  "emit us w = w\<lparr>uis := uis w @ us\<rparr>"

section \<open>Networks wpa\_supplicant knows\<close>

text \<open>One line of the reply; lines and fields are split as \<open>std::getline\<close> does.\<close>

definition network_line :: "string \<Rightarrow> bool \<times> 'd wifi \<Rightarrow> bool \<times> 'd wifi" where
  "network_line line st =
     (let (found, w) = st;
          wifi_parts = split line CHR 0x09;
          (found1, w1) =
            (if length wifi_parts = 4 \<and> sublist ''[CURRENT]'' line
             then (True, w\<lparr>cur_network := wifi_parts ! 1,
                           list_networks := smap_insert_new (wifi_parts ! 1) (wifi_parts ! 0) (list_networks w)\<rparr>)
             else (found, w))
      in (found1,
          if length wifi_parts > 1
          then w1\<lparr>list_networks := smap_insert_new (wifi_parts ! 1) (wifi_parts ! 0) (list_networks w1)\<rparr>
          else w1))"

definition find_current_network :: "'d answers \<Rightarrow> 'd wifi \<Rightarrow> bool \<times> 'd wifi" where
  "find_current_network send w =
     (let (nets, w1) = ask send ListNetworks (w\<lparr>list_networks := []\<rparr>)
      in fold network_line (split nets CHR 0x0A) (False, w1))"

section \<open>Events\<close>

definition wpa_failure_reason :: "string \<Rightarrow> string option" where
  "wpa_failure_reason event =
     (if sublist ''CTRL-EVENT-SSID-TEMP-DISABLED'' event
      then Some (if sublist ''WRONG_KEY'' event then ''Wrong password.'' else ''Could not authenticate.'')
      else if sublist ''CTRL-EVENT-AUTH-REJECT'' event
      then Some ''The network rejected the authentication.''
      else if sublist ''CTRL-EVENT-ASSOC-REJECT'' event
      then Some ''The network refused the connection.''
      else if sublist ''CTRL-EVENT-NETWORK-NOT-FOUND'' event
      then Some ''Network not found.''
      else if sublist ''reason=WRONG_KEY'' event
      then Some ''Wrong password.''
      else None)"

definition connected_text :: "string \<Rightarrow> string \<Rightarrow> string" where
  "connected_text network ip = ''Connected to network '' @ network @ [CHR 0x0A] @ ''IP: '' @ ip"

text \<open>The cells of a row, and the prompt when the row is the current network.\<close>

definition network_row :: "string \<Rightarrow> nat \<Rightarrow> string \<Rightarrow> 'd wifi \<Rightarrow> 'd wifi" where
  "network_row ip index ssid w =
     emit (Cell index 0 (Text ssid) #
       (if cur_network w \<noteq> ssid then [Cell index 1 SymWifi]
        else [Cell index 1 SymOkWifi, Label (connected_text (cur_network w) ip),
              Hide PasswordInput, Show PromptCont])) w"

text \<open>The loop over the scan results; the flag tells that \<open>std::stoi\<close> threw.\<close>

fun scan_lines :: "string \<Rightarrow> nat \<Rightarrow> string list \<Rightarrow> 'd wifi \<Rightarrow> 'd wifi \<times> bool" where
  "scan_lines ip index [] w = (w, False)"
| "scan_lines ip index (line # lines) w =
     (if prefix ''bss'' line then scan_lines ip index lines w
      else
        let wifi_parts = split line CHR 0x09
        in if length wifi_parts = 5 then
             (case stoi (wifi_parts ! 2) of
                None \<Rightarrow> (w, True)
              | Some (signal, consumed) \<Rightarrow>
                  if map_of (wifi_name_db w) (wifi_parts ! 4) = None
                  then scan_lines ip (index + 1) lines
                         (network_row ip index (wifi_parts ! 4)
                           (w\<lparr>wifi_name_db := smap_insert_new (wifi_parts ! 4) signal (wifi_name_db w)\<rparr>))
                  else scan_lines ip index lines w)
           else scan_lines ip index lines w)"

fun pair_rows :: "string \<Rightarrow> nat \<Rightarrow> (string \<times> int) list \<Rightarrow> 'd wifi \<Rightarrow> 'd wifi" where
  "pair_rows ip index [] w = w"
| "pair_rows ip index (p # ps) w = pair_rows ip (index + 1) ps (network_row ip index (fst p) w)"

definition handle_wpa_event ::
  "'d answers \<Rightarrow> string \<Rightarrow> ((string \<times> int) list \<Rightarrow> (string \<times> int) list) \<Rightarrow> string \<Rightarrow> 'd wifi \<Rightarrow> 'd wifi \<times> bool" where
  "handle_wpa_event send ip srt event w =
     (case wpa_failure_reason event of
        Some failure \<Rightarrow>
          (emit ([Hide Spinner, Hide PasswordInput,
                  Label (''Could not connect to '' @ selected_network w @ ''.'' @ [CHR 0x0A] @ failure @ [CHR 0x0A] @
                         ''Forget it to try a new password.''),
                  Show PromptCont] @
                 (if map_of (list_networks w) (selected_network w) \<noteq> None then [Show ForgetBtn] else [])) w,
           False)
      | None \<Rightarrow>
          if prefix ''<3>CTRL-EVENT-SCAN-RESULTS'' event then
            (let (results, w1) = ask send ScanResults w;
                 (found, w2) = find_current_network send (w1\<lparr>wifi_name_db := []\<rparr>);
                 (w3, threw) = scan_lines ip 0 (split results CHR 0x0A) w2
             in if threw then (w3, True) else (emit [ScrollTop, Show WifiTable, Hide Spinner] w3, False))
          else if prefix ''<3>CTRL-EVENT-CONNECTED'' event then
            (let (found, w1) = find_current_network send w
             in if found
                then (emit [ScrollTop, Show WifiTable, Hide Spinner]
                        (pair_rows ip 0 (srt (wifi_name_db w1)) w1), False)
                else (w1, False))
          else (w, False))"

section \<open>Buttons and the keyboard\<close>

definition foreground :: "'d answers \<Rightarrow> 'd wifi \<Rightarrow> 'd wifi" where
  "foreground send w = tell send Scan (emit [MoveForeground, Show Spinner] w)"

definition handle_back_btn :: "'d wifi \<Rightarrow> 'd wifi" where
  "handle_back_btn w = emit [Hide WifiTable, Hide PromptCont, MoveBackground] w"

definition hide_keyboard :: "'d wifi \<Rightarrow> 'd wifi" where
  "hide_keyboard w = emit [KeyboardFor False, Hide Keyboard, Unfocus] w"

text \<open>\<open>row\<close> is the text of the cell that was selected, \<open>None\<close> when there is none.\<close>

definition wifi_handle_callback :: "'d answers \<Rightarrow> string \<Rightarrow> string option \<Rightarrow> 'd wifi \<Rightarrow> 'd wifi" where
  "wifi_handle_callback send ip row w =
     (case row of
        None \<Rightarrow> w
      | Some ssid \<Rightarrow>
          let previous = selected_network w;
              w1 = w\<lparr>selected_network := ssid\<rparr>;
              w2 = (if ssid \<noteq> previous then emit [ClearPassword] w1 else w1);
              w3 = emit [if map_of (list_networks w2) ssid \<noteq> None then Show ForgetBtn else Hide ForgetBtn] w2;
              w4 = (if cur_network w3 \<noteq> [] \<and> cur_network w3 = ssid
                    then hide_keyboard (emit [Label (connected_text ssid ip), Hide PasswordInput] w3)
                    else
                      case map_of (list_networks w3) ssid of
                        Some nid \<Rightarrow>
                          hide_keyboard (emit [Label (''Connecting to '' @ ssid @ '' ...''), Hide PasswordInput]
                            (tell send SaveConfig (tell send (SelectNetwork nid) w3)))
                      | None \<Rightarrow>
                          emit [Label (''Enter password for '' @ ssid), Show PasswordInput, SendFocused] w3)
          in emit [Show PromptCont] w4)"

definition strip_newlines :: "string \<Rightarrow> string" where
  "strip_newlines nid = rev (dropWhile (\<lambda>c. c = CHR 0x0A \<or> c = CHR 0x0D) (rev nid))"

definition connect :: "'d answers \<Rightarrow> string \<Rightarrow> 'd wifi \<Rightarrow> 'd wifi" where
  "connect send password w =
     (let sel = selected_network w;
          w1 = (case map_of (list_networks w) sel of
                  None \<Rightarrow> w
                | Some old \<Rightarrow>
                    (let w' = tell send (RemoveNetwork old) w
                     in w'\<lparr>list_networks := smap_erase sel (list_networks w')\<rparr>));
          (reply, w2) = ask send AddNetwork w1;
          nid = strip_newlines reply
      in if nid = [] then w2
         else
           let w3 = fold (tell send)
                 [SetSsid nid sel, SetPsk nid password, EnableNetwork nid, SelectNetwork nid, SaveConfig] w2
           in w3\<lparr>list_networks := smap_insert_new sel nid (list_networks w3)\<rparr>)"

definition forget_network :: "'d answers \<Rightarrow> 'd wifi \<Rightarrow> 'd wifi" where
  "forget_network send w =
     (case map_of (list_networks w) (selected_network w) of
        None \<Rightarrow> w
      | Some nid \<Rightarrow>
          let sel = selected_network w;
              w1 = tell send SaveConfig (tell send (RemoveNetwork nid) w);
              w2 = w1\<lparr>list_networks := smap_erase sel (list_networks w1)\<rparr>;
              w3 = (if cur_network w2 = sel then w2\<lparr>cur_network := []\<rparr> else w2)
          in emit [Hide ForgetBtn, Hide PasswordInput,
                   Label (''Forgot '' @ sel @ ''.'' @ [CHR 0x0A] @ ''Select it again to enter a new password.'')] w3)"

text \<open>
  The codes \<open>handle_kb_input\<close> is registered for: \<open>Ready\<close> with the text of the password box,
  \<open>Clicked\<close> with whether the target is the keyboard or that box.
\<close>

datatype kb_event = Focused | Defocused | Ready string | Clicked bool

definition handle_kb_input :: "'d answers \<Rightarrow> kb_event \<Rightarrow> 'd wifi \<Rightarrow> 'd wifi" where
  "handle_kb_input send e w =
     (case e of
        Focused \<Rightarrow> emit [KeyboardFor True, Show Keyboard] w
      | Defocused \<Rightarrow>
          emit [KeyboardFor False, Label ''Please select your wifi network'', Hide Keyboard, Hide PasswordInput] w
      | Ready password \<Rightarrow>
          if password = [] then w
          else
            let w1 = connect send password w
            in hide_keyboard (emit [ClearPassword, Label (''Connecting to '' @ selected_network w1 @ '' ...''),
                                    Hide PasswordInput] w1)
      | Clicked own \<Rightarrow> if own then w else emit [SendDefocused] w)"

section \<open>The reply to LIST\_NETWORKS\<close>

text \<open>
  A network block as wpa\_supplicant lists it: id, SSID, BSSID and flags, separated by tabs, one
  line each below a heading.
\<close>

type_synonym listed = "string \<times> string \<times> string \<times> string"

definition listed_line :: "listed \<Rightarrow> string" where
  "listed_line b = (case b of (nid, ssid, bssid, flags) \<Rightarrow>
     nid @ CHR 0x09 # ssid @ CHR 0x09 # bssid @ CHR 0x09 # flags)"

definition listing :: "listed list \<Rightarrow> string" where
  "listing bs = concat (map (\<lambda>l. l @ [CHR 0x0A]) (''network id / ssid / bssid / flags'' # map listed_line bs))"

definition field_ok :: "string \<Rightarrow> bool" where
  "field_ok s \<longleftrightarrow> CHR 0x09 \<notin> set s \<and> CHR 0x0A \<notin> set s"

definition listed_ok :: "listed \<Rightarrow> bool" where
  "listed_ok b \<longleftrightarrow> (case b of (nid, ssid, bssid, flags) \<Rightarrow>
     field_ok nid \<and> field_ok ssid \<and> field_ok bssid \<and> field_ok flags)"

definition is_current :: "listed \<Rightarrow> bool" where
  "is_current b \<longleftrightarrow> snd (snd (snd b)) \<noteq> [] \<and> sublist ''[CURRENT]'' (listed_line b)"

lemma split_lines:
  "\<forall>l \<in> set ls. d \<notin> set l \<Longrightarrow> split (concat (map (\<lambda>l. l @ [d]) ls)) d = ls"
  by (induction ls) (auto simp: split_comp_delim split.simps [of "[]"])

lemma split_listed:
  assumes "listed_ok (nid, ssid, bssid, flags)"
  shows "split (listed_line (nid, ssid, bssid, flags)) CHR 0x09 =
    [nid, ssid, bssid] @ (if flags = [] then [] else [flags])"
  using assms
  by (auto simp: listed_line_def listed_ok_def field_ok_def split_comp_delim split_comp split.simps [of "[]"])

lemma smap_insert_new_twice [simp]:
  "smap_insert_new k v (smap_insert_new k v m) = smap_insert_new k v m"
  by (simp add: smap_insert_new_def map_of_smap_insert)

lemma network_line_listed:
  assumes "listed_ok b"
  shows "network_line (listed_line b) (found, w) =
    (found \<or> is_current b,
     w\<lparr>cur_network := (if is_current b then fst (snd b) else cur_network w),
       list_networks := smap_insert_new (fst (snd b)) (fst b) (list_networks w)\<rparr>)"
proof -
  obtain nid ssid bssid flags where b: "b = (nid, ssid, bssid, flags)" by (cases b)
  show ?thesis
    using split_listed [of nid ssid bssid flags] assms
    by (simp add: b network_line_def is_current_def Let_def)
qed

lemma network_lines:
  assumes "\<forall>b \<in> set bs. listed_ok b"
  shows "fold network_line (map listed_line bs) (found, w) =
    (found \<or> (\<exists>b \<in> set bs. is_current b),
     w\<lparr>cur_network := (if \<exists>b \<in> set bs. is_current b then fst (snd (last (filter is_current bs))) else cur_network w),
       list_networks := fold (\<lambda>b. smap_insert_new (fst (snd b)) (fst b)) bs (list_networks w)\<rparr>)"
  using assms
proof (induction bs arbitrary: found w)
  case (Cons b bs)
  have "filter is_current bs = [] \<longleftrightarrow> \<not> (\<exists>b \<in> set bs. is_current b)" by (simp add: filter_empty_conv)
  with Cons show ?case by (auto simp: network_line_listed)
qed simp

lemma fold_insert_new:
  "smap_ok m \<Longrightarrow> smap_ok (fold (\<lambda>b. smap_insert_new (f b) (g b)) bs m) \<and>
   map_of (fold (\<lambda>b. smap_insert_new (f b) (g b)) bs m) = map_of (map (\<lambda>b. (f b, g b)) bs) ++ map_of m"
proof (induction bs arbitrary: m)
  case (Cons b bs)
  have "map_of (smap_insert_new (f b) (g b) m) = [f b \<mapsto> g b] ++ map_of m"
    by (auto simp: smap_simps fun_eq_iff map_add_def split: option.split)
  moreover have "map_of (map (\<lambda>b. (f b, g b)) bs) ++ ([f b \<mapsto> g b] ++ map_of m) =
      map_of (map (\<lambda>b. (f b, g b)) (b # bs)) ++ map_of m"
    by (auto simp: map_add_def fun_eq_iff split: option.split)
  ultimately show ?case
    using Cons.IH [of "smap_insert_new (f b) (g b) m"] Cons.prems smap_ok_insert_new [of m]
    by (simp add: fun_upd_def)
qed simp

section \<open>Connecting and forgetting\<close>

text \<open>
  What the control interface of wpa\_supplicant promises about its network blocks, pairs of id
  and SSID in the state \<open>d\<close>: \<open>REMOVE_NETWORK\<close> removes a block, \<open>ADD_NETWORK\<close> adds
  one with a new id and answers that id and a newline, \<open>SET_NETWORK ... ssid\<close> names a
  block, and the other commands of the panel leave the blocks alone.
\<close>

definition daemon_laws :: "'d answers \<Rightarrow> ('d \<Rightarrow> (string \<times> string) list) \<Rightarrow> bool" where
  "daemon_laws send blocks \<longleftrightarrow>
     (\<forall>d n. blocks (snd (send d (RemoveNetwork n))) = filter (\<lambda>b. fst b \<noteq> n) (blocks d)) \<and>
     (\<forall>d. \<exists>n. n \<noteq> [] \<and> last n \<noteq> CHR 0x0A \<and> last n \<noteq> CHR 0x0D \<and> n \<notin> fst ` set (blocks d) \<and>
        fst (send d AddNetwork) = n @ [CHR 0x0A] \<and> blocks (snd (send d AddNetwork)) = blocks d @ [(n, [])]) \<and>
     (\<forall>d n s. blocks (snd (send d (SetSsid n s))) = map (\<lambda>b. if fst b = n then (n, s) else b) (blocks d)) \<and>
     (\<forall>d n s. blocks (snd (send d (SetPsk n s))) = blocks d) \<and>
     (\<forall>d n. blocks (snd (send d (EnableNetwork n))) = blocks d) \<and>
     (\<forall>d n. blocks (snd (send d (SelectNetwork n))) = blocks d) \<and>
     (\<forall>d. blocks (snd (send d SaveConfig)) = blocks d)"

text \<open>The panel's map agrees with the blocks for an SSID, which has at most one of them.\<close>

definition in_sync :: "('d \<Rightarrow> (string \<times> string) list) \<Rightarrow> string \<Rightarrow> 'd wifi \<Rightarrow> bool" where
  "in_sync blocks s w \<longleftrightarrow> distinct (map fst (blocks (daemon w))) \<and>
     filter (\<lambda>b. snd b = s) (blocks (daemon w)) =
       (case map_of (list_networks w) s of None \<Rightarrow> [] | Some i \<Rightarrow> [(i, s)])"

lemma tell_simps [simp]:
  "selected_network (tell send c w) = selected_network w"
  "cur_network (tell send c w) = cur_network w"
  "list_networks (tell send c w) = list_networks w"
  "wifi_name_db (tell send c w) = wifi_name_db w"
  "commands (tell send c w) = commands w @ [c]"
  "daemon (tell send c w) = snd (send (daemon w) c)"
  "uis (tell send c w) = uis w"
  by (simp_all add: tell_def ask_def split: prod.split)

lemma ask_simps [simp]:
  "fst (ask send c w) = fst (send (daemon w) c)" "snd (ask send c w) = tell send c w"
  by (simp_all add: tell_def ask_def split: prod.split)

lemma emit_simps [simp]:
  "selected_network (emit us w) = selected_network w" "cur_network (emit us w) = cur_network w"
  "list_networks (emit us w) = list_networks w" "wifi_name_db (emit us w) = wifi_name_db w"
  "commands (emit us w) = commands w" "daemon (emit us w) = daemon w" "uis (emit us w) = uis w @ us"
  by (simp_all add: emit_def)

lemma strip_newlines_line:
  "n \<noteq> [] \<Longrightarrow> last n \<noteq> CHR 0x0A \<Longrightarrow> last n \<noteq> CHR 0x0D \<Longrightarrow> strip_newlines (n @ [CHR 0x0A]) = n"
  by (cases n rule: rev_cases) (simp_all add: strip_newlines_def)

lemma filter_only_block:
  assumes "distinct (map fst bs)" "filter (\<lambda>b. snd b = s) bs = [(i, s)]"
  shows "filter (\<lambda>b. fst b \<noteq> i) bs = filter (\<lambda>b. snd b \<noteq> s) bs"
proof (rule filter_cong [OF refl])
  fix b assume b: "b \<in> set bs"
  have "(i, s) \<in> set (filter (\<lambda>b. snd b = s) bs)" unfolding assms(2) by simp
  then have i: "(i, s) \<in> set bs" by simp
  have "b = (i, s)" if "snd b = s"
  proof -
    have "b \<in> set (filter (\<lambda>b. snd b = s) bs)" using b that by simp
    then show ?thesis by (simp add: assms(2))
  qed
  moreover have "b = (i, s)" if "fst b = i"
    using eq_key_imp_eq_value [OF assms(1), of i "snd b" s] b i that by (cases b) auto
  ultimately show "fst b \<noteq> i \<longleftrightarrow> snd b \<noteq> s" by (metis fst_conv snd_conv)
qed

lemma added_block:
  assumes "daemon_laws send blocks"
  obtains n where "n \<noteq> []" "last n \<noteq> CHR 0x0A" "last n \<noteq> CHR 0x0D" "n \<notin> fst ` set (blocks d)"
    "fst (send d AddNetwork) = n @ [CHR 0x0A]" "blocks (snd (send d AddNetwork)) = blocks d @ [(n, [])]"
  using assms unfolding daemon_laws_def by blast

lemma removed_blocks:
  assumes "daemon_laws send blocks" "in_sync blocks s w" "map_of (list_networks w) s = Some i"
  shows "blocks (snd (send (daemon w) (RemoveNetwork i))) = filter (\<lambda>b. snd b \<noteq> s) (blocks (daemon w))"
  using assms filter_only_block [of "blocks (daemon w)" s i] by (simp add: daemon_laws_def in_sync_def)

lemma unknown_blocks:
  "in_sync blocks s w \<Longrightarrow> map_of (list_networks w) s = None \<Longrightarrow>
   filter (\<lambda>b. snd b \<noteq> s) (blocks (daemon w)) = blocks (daemon w)"
  by (auto simp: in_sync_def filter_empty_conv filter_id_conv)

lemma connect_once:
  assumes laws: "daemon_laws send blocks" and sync: "in_sync blocks (selected_network w) w"
  obtains n where "map_of (list_networks (connect send pw w)) = (map_of (list_networks w))(selected_network w \<mapsto> n)"
    "blocks (daemon (connect send pw w)) =
       filter (\<lambda>b. snd b \<noteq> selected_network w) (blocks (daemon w)) @ [(n, selected_network w)]"
    "selected_network (connect send pw w) = selected_network w" "in_sync blocks (selected_network w) (connect send pw w)"
    "commands (connect send pw w) = commands w @
       (case map_of (list_networks w) (selected_network w) of None \<Rightarrow> [] | Some i \<Rightarrow> [RemoveNetwork i]) @
       [AddNetwork, SetSsid n (selected_network w), SetPsk n pw, EnableNetwork n, SelectNetwork n, SaveConfig]"
proof -
  let ?s = "selected_network w" and ?old = "map_of (list_networks w) (selected_network w)"
  let ?rest = "filter (\<lambda>b. snd b \<noteq> ?s) (blocks (daemon w))"
  define w1 where "w1 = (case ?old of None \<Rightarrow> w
    | Some i \<Rightarrow> (tell send (RemoveNetwork i) w)\<lparr>list_networks := smap_erase ?s (list_networks (tell send (RemoveNetwork i) w))\<rparr>)"
  have w1: "blocks (daemon w1) = ?rest" "map_of (list_networks w1) = (map_of (list_networks w))(?s := None)"
    "selected_network w1 = ?s" "commands w1 = commands w @ (case ?old of None \<Rightarrow> [] | Some i \<Rightarrow> [RemoveNetwork i])"
    using removed_blocks [OF laws sync] unknown_blocks [OF sync]
    by (auto simp: w1_def smap_simps fun_eq_iff split: option.split)
  from added_block [OF laws, of "daemon w1"]
  obtain n where n: "n \<noteq> []" "last n \<noteq> CHR 0x0A" "last n \<noteq> CHR 0x0D" "n \<notin> fst ` set ?rest"
    "fst (send (daemon w1) AddNetwork) = n @ [CHR 0x0A]"
    "blocks (snd (send (daemon w1) AddNetwork)) = ?rest @ [(n, [])]"
    unfolding w1(1) by blast
  have keep: "map (\<lambda>b. if fst b = n then (n, s) else b) ?rest = ?rest" for s
    using n(4) by (intro map_idI) auto
  define w3 where "w3 = fold (tell send) [SetSsid n ?s, SetPsk n pw, EnableNetwork n, SelectNetwork n, SaveConfig]
    (tell send AddNetwork w1)"
  have eq: "connect send pw w = w3\<lparr>list_networks := smap_insert_new ?s n (list_networks w3)\<rparr>"
    using n(1,5) strip_newlines_line [OF n(1-3)]
    unfolding connect_def Let_def w1_def [symmetric] case_prod_beta by (simp add: w3_def)
  have w3: "blocks (daemon w3) = ?rest @ [(n, ?s)]" "list_networks w3 = list_networks w1"
    "selected_network w3 = ?s" "commands w3 = commands w1 @
       [AddNetwork, SetSsid n ?s, SetPsk n pw, EnableNetwork n, SelectNetwork n, SaveConfig]"
    using laws n(6) keep w1(3) by (simp_all add: w3_def daemon_laws_def)
  have "distinct (map fst ?rest)" using sync by (auto simp: in_sync_def distinct_map_filter)
  then have "in_sync blocks ?s (connect send pw w)"
    using n(4) by (simp add: eq in_sync_def w3 w1 smap_simps)
  then show thesis
    using that [of n] by (simp add: eq w3 w1 smap_simps)
qed

lemma connect_again:
  assumes "daemon_laws send blocks" "in_sync blocks (selected_network w) w" "pws \<noteq> []"
  shows "\<exists>n. map_of (list_networks (fold (connect send) pws w)) = (map_of (list_networks w))(selected_network w \<mapsto> n) \<and>
    blocks (daemon (fold (connect send) pws w)) =
      filter (\<lambda>b. snd b \<noteq> selected_network w) (blocks (daemon w)) @ [(n, selected_network w)] \<and>
    selected_network (fold (connect send) pws w) = selected_network w \<and>
    in_sync blocks (selected_network w) (fold (connect send) pws w)"
  using assms(2,3)
proof (induction pws arbitrary: w)
  case (Cons pw pws)
  obtain n where n: "map_of (list_networks (connect send pw w)) = (map_of (list_networks w))(selected_network w \<mapsto> n)"
    "blocks (daemon (connect send pw w)) =
       filter (\<lambda>b. snd b \<noteq> selected_network w) (blocks (daemon w)) @ [(n, selected_network w)]"
    "selected_network (connect send pw w) = selected_network w"
    "in_sync blocks (selected_network w) (connect send pw w)"
    using connect_once [OF assms(1) Cons.prems(1)] by metis
  show ?case
  proof (cases "pws = []")
    case False
    have rest: "filter (\<lambda>b. snd b \<noteq> s) (filter (\<lambda>b. snd b \<noteq> s) bs @ [(n, s)]) = filter (\<lambda>b. snd b \<noteq> s) bs" for s bs
      by simp
    from Cons.IH [of "connect send pw w", unfolded n(1-3) fun_upd_upd rest, OF n(4) False]
    show ?thesis by simp
  qed (use n in auto)
qed simp

lemma forget_known:
  assumes "daemon_laws send blocks" "in_sync blocks (selected_network w) w"
  shows "blocks (daemon (forget_network send w)) = filter (\<lambda>b. snd b \<noteq> selected_network w) (blocks (daemon w)) \<and>
    map_of (list_networks (forget_network send w)) = (map_of (list_networks w))(selected_network w := None)"
proof (cases "map_of (list_networks w) (selected_network w)")
  case None
  then show ?thesis using unknown_blocks [OF assms(2)] by (auto simp: forget_network_def fun_eq_iff)
next
  case (Some i)
  have "blocks (snd (send d SaveConfig)) = blocks d" for d using assms(1) by (simp add: daemon_laws_def)
  with Some removed_blocks [OF assms Some] show ?thesis
    by (simp add: forget_network_def Let_def smap_simps)
qed

section \<open>Scan results\<close>

text \<open>The SSID of a line of scan results and the signal level, if that is a number.\<close>

definition scan_entry :: "string \<Rightarrow> (string \<times> int option) option" where
  "scan_entry line =
     (let wifi_parts = split line CHR 0x09
      in if \<not> prefix ''bss'' line \<and> length wifi_parts = 5 then Some (wifi_parts ! 4, map_option fst (stoi (wifi_parts ! 2))) else None)"

definition scan_entries :: "string list \<Rightarrow> (string \<times> int) list" where
  "scan_entries lines = List.map_filter (\<lambda>l. case scan_entry l of Some (s, Some v) \<Rightarrow> Some (s, v) | _ \<Rightarrow> None) lines"

text \<open>The names that are not in \<open>S\<close>, each at its first appearance.\<close>

fun new_names :: "string set \<Rightarrow> string list \<Rightarrow> string list" where
  "new_names S [] = []"
| "new_names S (x # xs) = (if x \<in> S then new_names S xs else x # new_names (insert x S) xs)"

fun cell_rows :: "string \<Rightarrow> nat \<Rightarrow> string list \<Rightarrow> ui list" where
  "cell_rows cur k [] = []"
| "cell_rows cur k (s # ss) =
     Cell k 0 (Text s) # Cell k 1 (if s = cur then SymOkWifi else SymWifi) # cell_rows cur (k + 1) ss"

definition cells :: "ui list \<Rightarrow> ui list" where
  "cells us = filter (\<lambda>u. case u of Cell _ _ _ \<Rightarrow> True | _ \<Rightarrow> False) us"

lemma new_names_set: "distinct (new_names S xs) \<and> set (new_names S xs) = set xs - S"
  by (induction S xs rule: new_names.induct) auto

lemma cells_network_row:
  "cells (uis (network_row ip k s w)) = cells (uis w) @ cell_rows (cur_network w) k [s]"
  by (simp add: network_row_def cells_def)

lemma network_row_simps [simp]:
  "selected_network (network_row ip k s w) = selected_network w" "cur_network (network_row ip k s w) = cur_network w"
  "list_networks (network_row ip k s w) = list_networks w" "wifi_name_db (network_row ip k s w) = wifi_name_db w"
  "commands (network_row ip k s w) = commands w" "daemon (network_row ip k s w) = daemon w"
  by (simp_all add: network_row_def)

lemma scan_entries_simps:
  "scan_entries [] = []"
  "scan_entry l = None \<Longrightarrow> scan_entries (l # ls) = scan_entries ls"
  "scan_entry l = Some (s, Some v) \<Longrightarrow> scan_entries (l # ls) = (s, v) # scan_entries ls"
  by (simp_all add: scan_entries_def List.map_filter_def)

lemma scan_lines_cons:
  "scan_entry l = None \<Longrightarrow> scan_lines ip k (l # ls) w = scan_lines ip k ls w"
  "scan_entry l = Some (s, Some v) \<Longrightarrow> scan_lines ip k (l # ls) w =
     (if map_of (wifi_name_db w) s = None
      then scan_lines ip (k + 1) ls (network_row ip k s (w\<lparr>wifi_name_db := smap_insert_new s v (wifi_name_db w)\<rparr>))
      else scan_lines ip k ls w)"
  by (auto simp: scan_entry_def Let_def split: if_splits)

declare scan_lines.simps(2) [simp del]

lemma scan_lines_rows:
  assumes "\<forall>l \<in> set ls. \<forall>s. scan_entry l \<noteq> Some (s, None)"
  shows "\<exists>w'. scan_lines ip k ls w = (w', False) \<and> cur_network w' = cur_network w \<and>
    list_networks w' = list_networks w \<and>
    map_of (wifi_name_db w') = map_of (scan_entries ls) ++ map_of (wifi_name_db w) \<and>
    cells (uis w') = cells (uis w) @
      cell_rows (cur_network w) k (new_names (dom (map_of (wifi_name_db w))) (map fst (scan_entries ls)))"
  using assms
proof (induction ls arbitrary: k w)
  case Nil
  show ?case by (simp add: scan_entries_simps)
next
  case (Cons l ls)
  show ?case
  proof (cases "scan_entry l")
    case None
    with Cons show ?thesis by (simp add: scan_lines_cons scan_entries_simps)
  next
    case (Some e)
    with Cons.prems obtain s v where l: "scan_entry l = Some (s, Some v)" by (cases e; cases "snd e") auto
    show ?thesis
    proof (cases "map_of (wifi_name_db w) s")
      case None
      let ?w = "network_row ip k s (w\<lparr>wifi_name_db := smap_insert_new s v (wifi_name_db w)\<rparr>)"
      have m: "map_of (wifi_name_db ?w) = (map_of (wifi_name_db w))(s \<mapsto> v)" by (simp add: smap_simps None)
      have add: "map_of es ++ (map_of (wifi_name_db w))(s \<mapsto> v) = (map_of ((s, v) # es)) ++ map_of (wifi_name_db w)" for es
        using None by (auto simp: map_add_def fun_eq_iff split: option.split)
      from Cons.IH [of "k + 1" ?w] Cons.prems obtain w' where
        w': "scan_lines ip (k + 1) ls ?w = (w', False)" "cur_network w' = cur_network w" "list_networks w' = list_networks w"
        "map_of (wifi_name_db w') = map_of (scan_entries ls) ++ map_of (wifi_name_db ?w)"
        "cells (uis w') = cells (uis ?w) @
          cell_rows (cur_network w) (k + 1) (new_names (dom (map_of (wifi_name_db ?w))) (map fst (scan_entries ls)))"
        by auto
      have "s \<notin> dom (map_of (wifi_name_db w))" using None by (simp add: domIff)
      then have "cells (uis w') = cells (uis w) @
          cell_rows (cur_network w) k (new_names (dom (map_of (wifi_name_db w))) (s # map fst (scan_entries ls)))"
        unfolding w'(5) m dom_fun_upd by (simp add: cells_network_row)
      moreover have "map_of (wifi_name_db w') = map_of ((s, v) # scan_entries ls) ++ map_of (wifi_name_db w)"
        unfolding w'(4) m by (rule add)
      moreover have "scan_lines ip k (l # ls) w = (w', False)" using None w'(1) l by (simp add: scan_lines_cons)
      ultimately show ?thesis using w'(2,3) unfolding scan_entries_simps(3) [OF l] by (simp add: fun_upd_def)
    next
      case (Some v')
      then have "s \<in> dom (map_of (wifi_name_db w))"
        "map_of ((s, v) # es) ++ map_of (wifi_name_db w) = map_of es ++ map_of (wifi_name_db w)" for es
        by (auto simp: map_add_def fun_eq_iff split: option.split)
      with Cons Some l show ?thesis
        unfolding scan_entries_simps(3) [OF l] by (simp del: map_of.simps add: scan_lines_cons)
    qed
  qed
qed

lemma find_keeps:
  assumes "find_current_network send w = (found, w')"
  shows "wifi_name_db w' = wifi_name_db w" "uis w' = uis w"
proof -
  have keep: "wifi_name_db (snd (fold network_line xs st)) = wifi_name_db (snd st) \<and>
      uis (snd (fold network_line xs st)) = uis (snd st)" for xs and st :: "bool \<times> 'a wifi"
    by (induction xs arbitrary: st) (auto simp: network_line_def Let_def split: prod.splits)
  have "(found, w') = fold network_line (split (fst (send (daemon w) ListNetworks)) CHR 0x0A)
      (False, tell send ListNetworks (w\<lparr>list_networks := []\<rparr>))"
    using assms by (simp add: find_current_network_def case_prod_beta)
  from arg_cong [OF this, of snd] show "wifi_name_db w' = wifi_name_db w" "uis w' = uis w"
    by (simp_all add: keep)
qed

section \<open>Properties\<close>




text \<open>A control interface that keeps the laws: a new id is longer than all there are.\<close>

definition sample_daemon :: "(string \<times> string) list answers" where
  "sample_daemon d c =
     (case c of
        RemoveNetwork n \<Rightarrow> ([], filter (\<lambda>b. fst b \<noteq> n) d)
      | AddNetwork \<Rightarrow>
          (let n = replicate (Suc (sum_list (map (length \<circ> fst) d))) CHR ''1'' in (n @ [CHR 0x0A], d @ [(n, [])]))
      | SetSsid n s \<Rightarrow> ([], map (\<lambda>b. if fst b = n then (n, s) else b) d)
      | _ \<Rightarrow> ([], d))"

lemma sample_daemon_laws: "daemon_laws sample_daemon (\<lambda>d. d)"
proof -
  have add: "\<exists>n. n \<noteq> [] \<and> last n \<noteq> CHR 0x0A \<and> last n \<noteq> CHR 0x0D \<and> n \<notin> fst ` set d \<and>
      fst (sample_daemon d AddNetwork) = n @ [CHR 0x0A] \<and> snd (sample_daemon d AddNetwork) = d @ [(n, [])]" for d
  proof -
    define n where "n = replicate (Suc (sum_list (map (length \<circ> fst) d))) CHR ''1''"
    have le: "length (fst b) \<le> sum_list (map (length \<circ> fst) d)" if "b \<in> set d" for b
      using member_le_sum_list [of "length (fst b)" "map (length \<circ> fst) d"] that by force
    have "length n = Suc (sum_list (map (length \<circ> fst) d))" by (simp add: n_def)
    with le have "length (fst b) < length n" if "b \<in> set d" for b using that le_imp_less_Suc by metis
    then have "n \<notin> fst ` set d" by blast
    moreover have "n \<noteq> []" "last n = CHR ''1''" by (simp_all add: n_def)
    ultimately show ?thesis by (intro exI [of _ n]) (simp add: sample_daemon_def n_def Let_def)
  qed
  show ?thesis unfolding daemon_laws_def by (intro conjI allI add) (simp_all add: sample_daemon_def)
qed




end
