(* ===== verification/Wpabuf.thy ===== *)
theory Wpabuf
  imports Byte_Order
begin

text \<open>
  The dynamic buffers of wpa\_supplicant (\<open>src/utils/wpabuf.c\<close>, \<open>wpabuf.h\<close>, with the
  hexadecimal parser of \<open>common.c\<close>) in the configuration without \<open>WPA_TRACE\<close>. The
  fields \<open>size\<close> and \<open>used\<close> are 32 bit words, so their sums wrap as in C. Whether an
  allocation succeeds is an argument, a pointer that may be NULL is an option, and a function
  that changes a buffer returns it changed. \<open>wpabuf_overflow\<close> ends the program, which is
  \<open>Aborted\<close>; an access outside of the memory of a buffer is \<open>Overrun\<close>.
\<close>

section \<open>Results\<close>

datatype 'a wres = Done 'a | Aborted | Overrun

fun bind_wres :: "'a wres \<Rightarrow> ('a \<Rightarrow> 'b wres) \<Rightarrow> 'b wres" where
  "bind_wres (Done x) f = f x"
| "bind_wres Aborted f = Aborted"
| "bind_wres Overrun f = Overrun"

section \<open>Buffers\<close>

record wpabuf =
  wb_size :: u32
  wb_used :: u32
  wb_buf :: "u8 list" \<comment> \<open>the memory \<open>buf\<close> points to\<close>
  wb_ext :: bool \<comment> \<open>\<open>WPABUF_FLAG_EXT_DATA\<close>\<close>

text \<open>
  \<open>sizeof(struct wpabuf)\<close> is 16 where pointers have 32 bits. If the sum with the length wraps,
  the block is smaller than the structure.
\<close>

definition wpabuf_alloc :: "bool \<Rightarrow> u32 \<Rightarrow> wpabuf option wres" where
  "wpabuf_alloc alloc len =
     (if \<not> alloc then Done None
      else if 16 + len < 16 then Overrun
      else Done (Some \<lparr>wb_size = len, wb_used = 0, wb_buf = replicate (unat len) 0, wb_ext = False\<rparr>))"

definition wpabuf_alloc_ext_data :: "bool \<Rightarrow> u8 list \<Rightarrow> u32 \<Rightarrow> wpabuf option" where
  "wpabuf_alloc_ext_data alloc data len =
     (if alloc then Some \<lparr>wb_size = len, wb_used = len, wb_buf = data, wb_ext = True\<rparr> else None)"

definition wpabuf_size :: "wpabuf \<Rightarrow> u32" where
  "wpabuf_size b = wb_size b"

definition wpabuf_len :: "wpabuf \<Rightarrow> u32" where
  "wpabuf_len b = wb_used b"

definition wpabuf_tailroom :: "wpabuf \<Rightarrow> u32" where
  "wpabuf_tailroom b = wb_size b - wb_used b"

text \<open>The offset of the pointer that is returned, and the buffer.\<close>

definition wpabuf_put :: "wpabuf \<Rightarrow> u32 \<Rightarrow> (nat \<times> wpabuf) wres" where
  "wpabuf_put b len =
     (let tmp = unat (wpabuf_len b);
          b1 = b\<lparr>wb_used := wb_used b + len\<rparr>
      in if wb_used b1 > wb_size b1 then Aborted else Done (tmp, b1))"

text \<open>A write of \<open>bs\<close> at the pointer \<open>wpabuf_put\<close> returned.\<close>

definition wb_store :: "u8 list \<Rightarrow> nat \<times> wpabuf \<Rightarrow> wpabuf wres" where
  "wb_store bs p =
     (case p of (pos, b) \<Rightarrow>
        if pos + length bs \<le> length (wb_buf b) then Done (b\<lparr>wb_buf := put_at pos bs (wb_buf b)\<rparr>) else Overrun)"

definition wpabuf_put_u8 :: "wpabuf \<Rightarrow> u8 \<Rightarrow> wpabuf wres" where
  "wpabuf_put_u8 b data = bind_wres (wpabuf_put b 1) (wb_store [data])"

definition wpabuf_put_le16 :: "wpabuf \<Rightarrow> u16 \<Rightarrow> wpabuf wres" where
  "wpabuf_put_le16 b data = bind_wres (wpabuf_put b 2) (wb_store (WPA_PUT_LE16 data))"

definition wpabuf_put_le24 :: "wpabuf \<Rightarrow> u32 \<Rightarrow> wpabuf wres" where
  "wpabuf_put_le24 b data = bind_wres (wpabuf_put b 3) (wb_store (WPA_PUT_LE24 data))"

definition wpabuf_put_le32 :: "wpabuf \<Rightarrow> u32 \<Rightarrow> wpabuf wres" where
  "wpabuf_put_le32 b data = bind_wres (wpabuf_put b 4) (wb_store (WPA_PUT_LE32 data))"

definition wpabuf_put_le64 :: "wpabuf \<Rightarrow> u64 \<Rightarrow> wpabuf wres" where
  "wpabuf_put_le64 b data = bind_wres (wpabuf_put b 8) (wb_store (WPA_PUT_LE64 data))"

definition wpabuf_put_be16 :: "wpabuf \<Rightarrow> u16 \<Rightarrow> wpabuf wres" where
  "wpabuf_put_be16 b data = bind_wres (wpabuf_put b 2) (wb_store (WPA_PUT_BE16 data))"

definition wpabuf_put_be24 :: "wpabuf \<Rightarrow> u32 \<Rightarrow> wpabuf wres" where
  "wpabuf_put_be24 b data = bind_wres (wpabuf_put b 3) (wb_store (WPA_PUT_BE24 data))"

definition wpabuf_put_be32 :: "wpabuf \<Rightarrow> u32 \<Rightarrow> wpabuf wres" where
  "wpabuf_put_be32 b data = bind_wres (wpabuf_put b 4) (wb_store (WPA_PUT_BE32 data))"

definition wpabuf_put_be64 :: "wpabuf \<Rightarrow> u64 \<Rightarrow> wpabuf wres" where
  "wpabuf_put_be64 b data = bind_wres (wpabuf_put b 8) (wb_store (WPA_PUT_BE64 data))"

text \<open>\<open>os_memcpy\<close> reads \<open>len\<close> bytes of \<open>data\<close>.\<close>

definition wpabuf_put_data :: "wpabuf \<Rightarrow> u8 list option \<Rightarrow> u32 \<Rightarrow> wpabuf wres" where
  "wpabuf_put_data b data len =
     (case data of
        None \<Rightarrow> Done b
      | Some d \<Rightarrow> bind_wres (wpabuf_put b len)
          (\<lambda>p. if length d < unat len then Overrun else wb_store (take (unat len) d) p))"

definition wpabuf_put_buf :: "wpabuf \<Rightarrow> wpabuf \<Rightarrow> wpabuf wres" where
  "wpabuf_put_buf dst src = wpabuf_put_data dst (Some (wb_buf src)) (wpabuf_len src)"

definition wpabuf_set :: "wpabuf \<Rightarrow> u8 list \<Rightarrow> u32 \<Rightarrow> wpabuf" where
  "wpabuf_set b data len = b\<lparr>wb_buf := data, wb_ext := True, wb_size := len, wb_used := len\<rparr>"

text \<open>\<open>str\<close> without its terminating 0.\<close>

definition wpabuf_put_str :: "wpabuf \<Rightarrow> u8 list \<Rightarrow> wpabuf wres" where
  "wpabuf_put_str dst str = wpabuf_put_data dst (Some str) (of_nat (length str))"

text \<open>\<open>os_memcmp\<close>, with the difference of the first bytes that differ.\<close>

fun os_memcmp :: "nat \<Rightarrow> u8 list \<Rightarrow> u8 list \<Rightarrow> int" where
  "os_memcmp 0 a b = 0"
| "os_memcmp (Suc n) a b =
     (if hd a = hd b then os_memcmp n (tl a) (tl b) else uint (hd a) - uint (hd b))"

definition wpabuf_cmp :: "wpabuf option \<Rightarrow> wpabuf option \<Rightarrow> int" where
  "wpabuf_cmp a b =
     (case (a, b) of
        (None, None) \<Rightarrow> 0
      | (Some a', Some b') \<Rightarrow>
          if wpabuf_size a' = wpabuf_size b'
          then os_memcmp (unat (wpabuf_size a')) (wb_buf a') (wb_buf b') else -1
      | _ \<Rightarrow> -1)"

section \<open>Growing, copying and joining\<close>

text \<open>
  The return value and the buffer. The memory \<open>os_realloc\<close> gives starts with the old bytes; the
  \<open>add_len\<close> bytes from \<open>used\<close> on are cleared.
\<close>

definition wpabuf_resize :: "bool \<Rightarrow> wpabuf option \<Rightarrow> u32 \<Rightarrow> (int \<times> wpabuf option) wres" where
  "wpabuf_resize alloc buf add_len =
     (case buf of
        None \<Rightarrow> bind_wres (wpabuf_alloc alloc add_len) (\<lambda>b. Done (if b = None then -1 else 0, b))
      | Some b \<Rightarrow>
          let n = wb_used b + add_len in
          if n > wb_size b then
            let nbuf = take (unat (wb_used b)) (wb_buf b) @ replicate (unat add_len) 0
            in if \<not> alloc then Done (-1, buf)
               else if \<not> wb_ext b \<and> 16 + n < 16 then Overrun
               else Done (0, Some (b\<lparr>wb_buf := nbuf, wb_size := n\<rparr>))
          else Done (0, buf))"

definition wpabuf_alloc_copy :: "bool \<Rightarrow> u8 list option \<Rightarrow> u32 \<Rightarrow> wpabuf option wres" where
  "wpabuf_alloc_copy alloc data len =
     bind_wres (wpabuf_alloc alloc len) (\<lambda>buf.
       case buf of
         None \<Rightarrow> Done None
       | Some b \<Rightarrow> bind_wres (wpabuf_put_data b data len) (\<lambda>b. Done (Some b)))"

definition wpabuf_dup :: "bool \<Rightarrow> wpabuf option \<Rightarrow> wpabuf option wres" where
  "wpabuf_dup alloc src =
     (case src of
        None \<Rightarrow> Done None
      | Some s \<Rightarrow> bind_wres (wpabuf_alloc alloc (wpabuf_len s)) (\<lambda>buf.
          case buf of
            None \<Rightarrow> Done None
          | Some b \<Rightarrow> bind_wres (wpabuf_put_data b (Some (wb_buf s)) (wpabuf_len s)) (\<lambda>b. Done (Some b))))"

definition wpabuf_concat :: "bool \<Rightarrow> wpabuf option \<Rightarrow> wpabuf option \<Rightarrow> wpabuf option wres" where
  "wpabuf_concat alloc a b =
     (case b of
        None \<Rightarrow> Done a
      | Some b' \<Rightarrow>
          let len = (case a of None \<Rightarrow> 0 | Some a' \<Rightarrow> wpabuf_len a') + wpabuf_len b'
          in bind_wres (wpabuf_alloc alloc len) (\<lambda>n.
               case n of
                 None \<Rightarrow> Done None
               | Some n' \<Rightarrow>
                   bind_wres (case a of None \<Rightarrow> Done n' | Some a' \<Rightarrow> wpabuf_put_buf n' a') (\<lambda>n1.
                   bind_wres (wpabuf_put_buf n1 b') (\<lambda>n2. Done (Some n2)))))"

definition wpabuf_zeropad :: "bool \<Rightarrow> wpabuf option \<Rightarrow> u32 \<Rightarrow> wpabuf option wres" where
  "wpabuf_zeropad alloc buf len =
     (case buf of
        None \<Rightarrow> Done None
      | Some b \<Rightarrow>
          let blen = wpabuf_len b in
          if blen \<ge> len then Done buf
          else bind_wres (wpabuf_alloc alloc len) (\<lambda>ret.
                 case ret of
                   None \<Rightarrow> Done None
                 | Some r \<Rightarrow>
                     bind_wres (bind_wres (wpabuf_put r (len - blen)) (wb_store (replicate (unat (len - blen)) 0))) (\<lambda>r1.
                     bind_wres (wpabuf_put_buf r1 b) (\<lambda>r2. Done (Some r2)))))"

text \<open>\<open>text\<close> is what \<open>vsnprintf\<close> formats, \<open>None\<close> when it fails; it writes a 0 behind it.\<close>

definition wpabuf_printf :: "wpabuf \<Rightarrow> u8 list option \<Rightarrow> wpabuf wres" where
  "wpabuf_printf b text =
     (case text of
        None \<Rightarrow> Aborted
      | Some s \<Rightarrow>
          if length s \<ge> unat (wb_size b - wb_used b) then Aborted
          else bind_wres (wb_store (s @ [0]) (unat (wb_used b), b)) (\<lambda>b1.
                 Done (b1\<lparr>wb_used := wb_used b1 + of_nat (length s)\<rparr>)))"

section \<open>Hexadecimal text\<close>

definition hex2num :: "u8 \<Rightarrow> int" where
  "hex2num c =
     (if c \<ge> byte (CHR ''0'') \<and> c \<le> byte (CHR ''9'') then uint (c - byte (CHR ''0''))
      else if c \<ge> byte (CHR ''a'') \<and> c \<le> byte (CHR ''f'') then uint (c - byte (CHR ''a'') + 10)
      else if c \<ge> byte (CHR ''A'') \<and> c \<le> byte (CHR ''F'') then uint (c - byte (CHR ''A'') + 10)
      else -1)"

definition hex2byte :: "u8 \<Rightarrow> u8 \<Rightarrow> int" where
  "hex2byte c d =
     (let a = hex2num c in if a < 0 then -1
      else let b = hex2num d in if b < 0 then -1 else push_bit 4 a OR b)"

text \<open>The bytes that are stored, for a text of at least \<open>2 * len\<close> characters.\<close>

fun hexstr2bin :: "u8 list \<Rightarrow> nat \<Rightarrow> u8 list option" where
  "hexstr2bin hex 0 = Some []"
| "hexstr2bin hex (Suc n) =
     (let a = hex2byte (hex ! 0) (hex ! 1)
      in if a < 0 then None else map_option (\<lambda>bs. word_of_int a # bs) (hexstr2bin (drop 2 hex) n))"

definition wpabuf_parse_bin :: "bool \<Rightarrow> u8 list \<Rightarrow> wpabuf option wres" where
  "wpabuf_parse_bin alloc str =
     (let len = length str in
      if len AND 0x01 \<noteq> 0 then Done None
      else bind_wres (wpabuf_alloc alloc (of_nat (len div 2))) (\<lambda>ret.
             case ret of
               None \<Rightarrow> Done None
             | Some r \<Rightarrow>
                 bind_wres (wpabuf_put r (of_nat (len div 2))) (\<lambda>p.
                   case hexstr2bin str (len div 2) of
                     None \<Rightarrow> Done None
                   | Some bs \<Rightarrow> bind_wres (wb_store bs p) (\<lambda>r. Done (Some r)))))"

section \<open>Arrays of buffers\<close>

record wpabuf_array =
  wa_num :: nat
  wa_buf :: "wpabuf option list"

definition wpabuf_array_alloc :: "bool \<Rightarrow> wpabuf_array option" where
  "wpabuf_array_alloc alloc = (if alloc then Some \<lparr>wa_num = 0, wa_buf = []\<rparr> else None)"

definition wpabuf_array_add :: "bool \<Rightarrow> wpabuf_array option \<Rightarrow> wpabuf option \<Rightarrow> int \<times> wpabuf_array option" where
  "wpabuf_array_add alloc wa buf =
     (case (wa, buf) of
        (Some w, Some b) \<Rightarrow>
          if alloc
          then (0, Some \<lparr>wa_num = wa_num w + 1, wa_buf = take (wa_num w) (wa_buf w) @ [Some b]\<rparr>)
          else (-1, wa)
      | _ \<Rightarrow> (-1, wa))"

text \<open>The loop of \<open>wpabuf_array_remove\<close>.\<close>

function array_shift :: "nat \<Rightarrow> nat \<Rightarrow> 'a list \<Rightarrow> 'a list" where
  "array_shift num idx bufs =
     (if idx + 1 < num then array_shift num (idx + 1) (bufs[idx := bufs ! (idx + 1)]) else bufs)"
  by auto
termination by (relation "measure (\<lambda>(num, idx, bufs). num - idx)") auto

definition wpabuf_array_remove :: "wpabuf_array option \<Rightarrow> nat \<Rightarrow> wpabuf_array option" where
  "wpabuf_array_remove wa idx =
     (case wa of
        None \<Rightarrow> None
      | Some w \<Rightarrow>
          if wa_num w = 0 \<or> idx \<ge> wa_num w then wa
          else
            let bufs = array_shift (wa_num w) idx (wa_buf w); num = wa_num w - 1
            in Some \<lparr>wa_num = num, wa_buf = bufs[num := None]\<rparr>)"

section \<open>Well-formed buffers\<close>

text \<open>
  The data never exceeds the size, the size is that of the memory, and the memory with the
  structure in front of it lies in the address space.
\<close>

definition wb_ok :: "wpabuf \<Rightarrow> bool" where
  "wb_ok b \<longleftrightarrow> wb_used b \<le> wb_size b \<and> length (wb_buf b) = unat (wb_size b) \<and> unat (wb_size b) + 16 < 2 ^ 32"

definition wb_content :: "wpabuf \<Rightarrow> u8 list" where
  "wb_content b = take (unat (wb_used b)) (wb_buf b)"

text \<open>
  The result of an operation that appends \<open>bs\<close>: if there is room, the content is extended and
  nothing else changes; otherwise the program is aborted.
\<close>

definition appends :: "wpabuf \<Rightarrow> u8 list \<Rightarrow> wpabuf wres \<Rightarrow> bool" where
  "appends b bs r \<longleftrightarrow>
     (if unat (wb_used b) + length bs \<le> unat (wb_size b)
      then \<exists>b'. r = Done b' \<and> wb_ok b' \<and> wb_content b' = wb_content b @ bs \<and>
                wb_size b' = wb_size b \<and> wb_ext b' = wb_ext b
      else r = Aborted)"

lemma unat_add_of_nat: "unat (x::u32) + n < 2 ^ 32 \<Longrightarrow> unat (x + of_nat n) = unat x + n"
  by (simp add: unat_word_ariths unat_of_nat take_bit_nat_eq_self)

lemma no_wrap_16: "16 + (n::u32) < 16 \<longleftrightarrow> \<not> unat n + 16 < 2 ^ 32"
proof (cases "unat n + 16 < 2 ^ 32")
  case True
  then have "unat (16 + n) = 16 + unat n" by (simp add: unat_word_ariths)
  with True show ?thesis by (simp add: word_less_nat_alt)
next
  case False
  have "unat n < 2 ^ 32" using unsigned_less [of n, where 'a = nat] by simp
  with False have "(16 + unat n) mod 2 ^ 32 = 16 + unat n - 2 ^ 32" by (simp add: mod_if)
  with False \<open>unat n < 2 ^ 32\<close> show ?thesis by (simp add: word_less_nat_alt unat_word_ariths)
qed

lemma put_no_wrap:
  assumes "wb_ok b" "unat (wb_used b) + n < 2 ^ 32"
  shows "wpabuf_put b (of_nat n) =
    (if unat (wb_used b) + n \<le> unat (wb_size b)
     then Done (unat (wb_used b), b\<lparr>wb_used := wb_used b + of_nat n\<rparr>) else Aborted)"
  using unat_add_of_nat [OF assms(2)]
  by (auto simp: wpabuf_put_def wpabuf_len_def word_less_nat_alt Let_def)

lemma wb_content_append:
  assumes "wb_ok b" "unat (wb_used b) + length bs \<le> unat (wb_size b)"
    "b' = b\<lparr>wb_used := wb_used b + of_nat (length bs), wb_buf := put_at (unat (wb_used b)) bs (wb_buf b)\<rparr>"
  shows "wb_ok b' \<and> wb_content b' = wb_content b @ bs"
proof -
  have n: "unat (wb_used b + of_nat (length bs)) = unat (wb_used b) + length bs"
    using assms by (intro unat_add_of_nat) (auto simp: wb_ok_def)
  have "length (wb_buf b) = unat (wb_size b)" using assms(1) by (simp add: wb_ok_def)
  with assms(1,2) n show ?thesis
    unfolding assms(3) by (simp add: wb_ok_def wb_content_def word_le_nat_alt put_at_def)
qed

locale wb_encoder =
  fixes put :: "wpabuf \<Rightarrow> 'a \<Rightarrow> wpabuf wres" and enc :: "'a \<Rightarrow> u8 list" and valid :: "'a \<Rightarrow> bool"
  assumes put_eq: "valid x \<Longrightarrow>
    put b x = bind_wres (wpabuf_put b (of_nat (length (enc x)))) (wb_store (enc x))"
begin

lemma put_appends:
  assumes "wb_ok b" "unat (wb_used b) + length (enc x) < 2 ^ 32" "valid x"
  shows "appends b (enc x) (put b x)"
proof (cases "unat (wb_used b) + length (enc x) \<le> unat (wb_size b)")
  case True
  with assms put_no_wrap [OF assms(1,2)] wb_content_append [OF assms(1) True] show ?thesis
    by (simp add: put_eq appends_def wb_store_def wb_ok_def)
next
  case False
  with assms put_no_wrap [OF assms(1,2)] show ?thesis by (simp add: put_eq appends_def)
qed

end

lemmas encoder_lengths = be16.length_put le16.length_put be24.length_put le24.length_put
  be32.length_put le32.length_put be64.length_put le64.length_put

interpretation put_u8: wb_encoder wpabuf_put_u8 "\<lambda>v. [v]" "\<lambda>_. True"
  by unfold_locales (simp add: wpabuf_put_u8_def)

interpretation put_le16: wb_encoder wpabuf_put_le16 WPA_PUT_LE16 "\<lambda>_. True"
  by unfold_locales (simp add: wpabuf_put_le16_def encoder_lengths)

interpretation put_le24: wb_encoder wpabuf_put_le24 WPA_PUT_LE24 "\<lambda>_. True"
  by unfold_locales (simp add: wpabuf_put_le24_def encoder_lengths)

interpretation put_le32: wb_encoder wpabuf_put_le32 WPA_PUT_LE32 "\<lambda>_. True"
  by unfold_locales (simp add: wpabuf_put_le32_def encoder_lengths)

interpretation put_le64: wb_encoder wpabuf_put_le64 WPA_PUT_LE64 "\<lambda>_. True"
  by unfold_locales (simp add: wpabuf_put_le64_def encoder_lengths)

interpretation put_be16: wb_encoder wpabuf_put_be16 WPA_PUT_BE16 "\<lambda>_. True"
  by unfold_locales (simp add: wpabuf_put_be16_def encoder_lengths)

interpretation put_be24: wb_encoder wpabuf_put_be24 WPA_PUT_BE24 "\<lambda>_. True"
  by unfold_locales (simp add: wpabuf_put_be24_def encoder_lengths)

interpretation put_be32: wb_encoder wpabuf_put_be32 WPA_PUT_BE32 "\<lambda>_. True"
  by unfold_locales (simp add: wpabuf_put_be32_def encoder_lengths)

interpretation put_be64: wb_encoder wpabuf_put_be64 WPA_PUT_BE64 "\<lambda>_. True"
  by unfold_locales (simp add: wpabuf_put_be64_def encoder_lengths)

interpretation put_str: wb_encoder wpabuf_put_str "\<lambda>s. s" "\<lambda>s. length s < 2 ^ 32"
  by unfold_locales (simp add: wpabuf_put_str_def wpabuf_put_data_def unat_of_nat take_bit_nat_eq_self)

lemma length_content: "wb_ok b \<Longrightarrow> length (wb_content b) = unat (wb_used b)"
  by (simp add: wb_content_def wb_ok_def word_le_nat_alt)

interpretation put_buf: wb_encoder wpabuf_put_buf wb_content wb_ok
  by unfold_locales
     (auto simp: wpabuf_put_buf_def wpabuf_put_data_def wpabuf_len_def wb_content_def wb_ok_def word_le_nat_alt)

lemma appendsD:
  assumes "appends b bs r" "wb_ok b" "unat (wb_used b) + length bs \<le> unat (wb_size b)"
  obtains b' where "r = Done b'" "wb_ok b'" "wb_content b' = wb_content b @ bs" "wb_size b' = wb_size b"
    "unat (wb_used b') = unat (wb_used b) + length bs"
proof -
  from assms obtain b' where b': "r = Done b'" "wb_ok b'" "wb_content b' = wb_content b @ bs" "wb_size b' = wb_size b"
    by (auto simp: appends_def)
  with length_content [OF assms(2)] b' length_content [OF b'(2)] that show ?thesis by simp
qed

section \<open>Allocation, copies and padding\<close>

lemma alloc_fresh:
  assumes "unat len + 16 < 2 ^ 32"
  obtains b where "wpabuf_alloc True len = Done (Some b)" "wb_ok b" "wb_content b = []"
    "wb_size b = len" "wb_used b = 0"
  using assms by (simp add: wpabuf_alloc_def no_wrap_16 wb_ok_def wb_content_def)

lemma put_buf_fits:
  assumes "wb_ok b" "wb_ok src" "unat (wb_used b) + unat (wb_used src) \<le> unat (wb_size b)"
  obtains b' where "wpabuf_put_buf b src = Done b'" "wb_ok b'" "wb_content b' = wb_content b @ wb_content src"
    "wb_size b' = wb_size b" "unat (wb_used b') = unat (wb_used b) + unat (wb_used src)"
proof -
  have "unat (wb_used b) + length (wb_content src) < 2 ^ 32"
    using assms by (simp add: length_content wb_ok_def)
  from put_buf.put_appends [OF assms(1) this assms(2)] show thesis
    by (rule appendsD) (use assms that in \<open>auto simp: length_content\<close>)
qed

lemma dup_content:
  assumes "wb_ok b"
  shows "\<exists>d. wpabuf_dup True (Some b) = Done (Some d) \<and> wb_ok d \<and> wb_content d = wb_content b"
proof -
  have "unat (wb_used b) + 16 < 2 ^ 32" using assms by (auto simp: wb_ok_def word_le_nat_alt)
  then obtain n where n: "wpabuf_alloc True (wb_used b) = Done (Some n)" "wb_ok n" "wb_content n = []"
    "wb_size n = wb_used b" "wb_used n = 0" by (rule alloc_fresh)
  then obtain d where "wpabuf_put_buf n b = Done d" "wb_ok d" "wb_content d = wb_content n @ wb_content b"
    using assms by (auto elim: put_buf_fits [of n b])
  with n show ?thesis by (simp add: wpabuf_dup_def wpabuf_len_def wpabuf_put_buf_def)
qed

lemma concat_content:
  assumes "wb_ok a" "wb_ok b" "unat (wb_used a) + unat (wb_used b) + 16 < 2 ^ 32"
  shows "\<exists>d. wpabuf_concat True (Some a) (Some b) = Done (Some d) \<and> wb_ok d \<and>
    wb_content d = wb_content a @ wb_content b"
proof -
  let ?len = "wb_used a + wb_used b"
  have len: "unat ?len = unat (wb_used a) + unat (wb_used b)" using assms(3) by (simp add: unat_word_ariths)
  with assms(3) obtain n where n: "wpabuf_alloc True ?len = Done (Some n)" "wb_ok n" "wb_content n = []"
    "wb_size n = ?len" "wb_used n = 0" using alloc_fresh [of ?len] by metis
  then obtain n1 where n1: "wpabuf_put_buf n a = Done n1" "wb_ok n1" "wb_content n1 = wb_content n @ wb_content a"
    "wb_size n1 = wb_size n" "unat (wb_used n1) = unat (wb_used n) + unat (wb_used a)"
    using assms len by (auto elim: put_buf_fits [of n a])
  then obtain n2 where "wpabuf_put_buf n1 b = Done n2" "wb_ok n2" "wb_content n2 = wb_content n1 @ wb_content b"
    using assms len n by (auto elim: put_buf_fits [of n1 b])
  with n n1 show ?thesis by (simp add: wpabuf_concat_def wpabuf_len_def)
qed

lemma zeropad_content:
  assumes "wb_ok b" "unat len + 16 < 2 ^ 32"
  shows "\<exists>d. wpabuf_zeropad True (Some b) len = Done (Some d) \<and> wb_ok d \<and>
    wb_content d = replicate (unat len - unat (wb_used b)) 0 @ wb_content b"
proof (cases "len \<le> wb_used b")
  case True
  with assms show ?thesis by (simp add: wpabuf_zeropad_def wpabuf_len_def word_le_nat_alt)
next
  case False
  let ?k = "unat len - unat (wb_used b)"
  have k: "unat (len - wb_used b) = ?k" "len - wb_used b = of_nat ?k" "unat (wb_used b) \<le> unat len"
    using False by (simp_all add: unat_sub word_le_nat_alt of_nat_diff)
  obtain n where n: "wpabuf_alloc True len = Done (Some n)" "wb_ok n" "wb_content n = []"
    "wb_size n = len" "wb_used n = 0" using assms(2) by (rule alloc_fresh)
  have "appends n (replicate ?k 0) (wpabuf_put_str n (replicate ?k 0))"
    using put_str.put_appends [OF n(2), of "replicate ?k 0"] n assms(2) by simp
  then obtain n1 where n1: "wpabuf_put_str n (replicate ?k 0) = Done n1" "wb_ok n1"
    "wb_content n1 = replicate ?k 0" "wb_size n1 = len" "unat (wb_used n1) = ?k"
    by (rule appendsD [OF _ n(2)]) (use n in auto)
  have "bind_wres (wpabuf_put n (len - wb_used b)) (wb_store (replicate ?k 0)) = Done n1"
    using n1(1) put_str.put_eq [of "replicate ?k 0" n] assms(2) k(2) by simp
  moreover obtain n2 where "wpabuf_put_buf n1 b = Done n2" "wb_ok n2" "wb_content n2 = wb_content n1 @ wb_content b"
    using n1 assms(1) k(3) by (auto elim: put_buf_fits [of n1 b])
  ultimately show ?thesis using False n n1 by (simp add: wpabuf_zeropad_def wpabuf_len_def k(1))
qed

lemma resize_content:
  assumes "wb_ok b" "unat (wb_used b) + unat add + 16 < 2 ^ 32"
  shows "\<exists>r. wpabuf_resize True (Some b) add = Done (0, Some r) \<and> wb_ok r \<and> wb_content r = wb_content b \<and>
    wb_used r = wb_used b \<and> unat (wb_used b) + unat add \<le> unat (wb_size r)"
proof -
  have n: "unat (wb_used b + add) = unat (wb_used b) + unat add" using assms(2) by (simp add: unat_word_ariths)
  have b: "unat (wb_used b) \<le> length (wb_buf b)" "length (wb_buf b) = unat (wb_size b)"
    using assms(1) by (auto simp: wb_ok_def word_le_nat_alt)
  show ?thesis
  proof (cases "wb_size b < wb_used b + add")
    case True
    have "\<not> 16 + (wb_used b + add) < 16" using assms(2) by (simp add: no_wrap_16 n)
    with True assms(2) b n show ?thesis
      by (simp add: wpabuf_resize_def wb_ok_def wb_content_def word_le_nat_alt min_def)
  next
    case False
    with assms(1) n show ?thesis by (simp add: wpabuf_resize_def word_less_nat_alt)
  qed
qed

lemma printf_content:
  assumes "wb_ok b" "unat (wb_used b) + length s < unat (wb_size b)"
  shows "\<exists>r. wpabuf_printf b (Some s) = Done r \<and> wb_ok r \<and> wb_content r = wb_content b @ s"
proof -
  have b: "unat (wb_used b) \<le> unat (wb_size b)" "length (wb_buf b) = unat (wb_size b)" "unat (wb_size b) + 16 < 2 ^ 32"
    using assms(1) by (auto simp: wb_ok_def word_le_nat_alt)
  have n: "unat (wb_used b + of_nat (length s)) = unat (wb_used b) + length s"
    using assms(2) b by (intro unat_add_of_nat) simp
  have "unat (wb_size b - wb_used b) = unat (wb_size b) - unat (wb_used b)"
    using b by (simp add: unat_sub word_le_nat_alt)
  with assms(2) b n show ?thesis
    by (simp add: wpabuf_printf_def wb_store_def wb_ok_def wb_content_def word_le_nat_alt put_at_def)
qed

section \<open>Arrays\<close>

declare array_shift.simps [simp del]

lemma array_shift:
  assumes "num \<le> length bufs" "idx < num"
  shows "length (array_shift num idx bufs) = length bufs \<and>
    take (num - 1) (array_shift num idx bufs) = take idx bufs @ take (num - idx - 1) (drop (idx + 1) bufs)"
  using assms
proof (induction num idx bufs rule: array_shift.induct)
  case (1 num idx bufs)
  show ?case
  proof (cases "idx + 1 < num")
    case True
    let ?bufs = "bufs[idx := bufs ! (idx + 1)]"
    have "take (idx + 1) ?bufs = take idx bufs @ [bufs ! (idx + 1)]"
      using True "1.prems" by (simp add: take_Suc_conv_app_nth)
    moreover have "take (num - idx - 1) (drop (idx + 1) bufs) = bufs ! (idx + 1) # take (num - (idx + 1) - 1) (drop (idx + 1 + 1) bufs)"
      using True "1.prems" by (cases "num - idx - 1") (auto simp: Cons_nth_drop_Suc [symmetric])
    ultimately show ?thesis using 1 True by (simp add: array_shift.simps [of num idx])
  next
    case False
    with "1.prems" have "num = idx + 1" by simp
    with "1.prems" show ?thesis by (simp add: array_shift.simps [of "Suc idx" idx])
  qed
qed

definition wa_list :: "wpabuf_array \<Rightarrow> wpabuf option list" where
  "wa_list w = take (wa_num w) (wa_buf w)"

lemma array_remove_list:
  assumes "wa_num w \<le> length (wa_buf w)" "idx < wa_num w"
  shows "\<exists>w'. wpabuf_array_remove (Some w) idx = Some w' \<and> wa_num w' \<le> length (wa_buf w') \<and>
    wa_list w' = take idx (wa_list w) @ drop (idx + 1) (wa_list w)"
  using array_shift [OF assms] assms
  by (simp add: wpabuf_array_remove_def wa_list_def Let_def drop_take min_def)

lemma array_add_list:
  assumes "wa_num w \<le> length (wa_buf w)"
  shows "\<exists>w'. wpabuf_array_add True (Some w) (Some b) = (0, Some w') \<and> wa_num w' \<le> length (wa_buf w') \<and>
    wa_list w' = wa_list w @ [Some b]"
  using assms by (simp add: wpabuf_array_add_def wa_list_def)

section \<open>Properties\<close>

text \<open>
  C40. Buffers stay well-formed and no operation leaves their memory. On a well-formed buffer
  every \<open>wpabuf_put_*\<close> appends the encoding of its argument when there is room for it and
  ends the program otherwise; \<open>wpabuf_resize\<close> keeps the content and makes the room asked
  for; the copy has the same content, the concatenation that of both, and padding puts zeros
  in front. All of them give well-formed buffers, as long as sizes do not exhaust the
  address space.
\<close>

theorem wpabuf_type_safe:
  assumes "wb_ok a" "wb_ok b"
    and "unat (wb_used a) + length s + 16 < 2 ^ 32" "unat (wb_used a) + unat add + 16 < 2 ^ 32"
    and "unat (wb_used a) + unat (wb_used b) + 16 < 2 ^ 32"
  shows "appends a [v8] (wpabuf_put_u8 a v8) \<and>
    appends a (WPA_PUT_LE16 v16) (wpabuf_put_le16 a v16) \<and> appends a (WPA_PUT_BE16 v16) (wpabuf_put_be16 a v16) \<and>
    appends a (WPA_PUT_LE24 v32) (wpabuf_put_le24 a v32) \<and> appends a (WPA_PUT_BE24 v32) (wpabuf_put_be24 a v32) \<and>
    appends a (WPA_PUT_LE32 v32) (wpabuf_put_le32 a v32) \<and> appends a (WPA_PUT_BE32 v32) (wpabuf_put_be32 a v32) \<and>
    appends a (WPA_PUT_LE64 v64) (wpabuf_put_le64 a v64) \<and> appends a (WPA_PUT_BE64 v64) (wpabuf_put_be64 a v64) \<and>
    appends a s (wpabuf_put_str a s) \<and> appends a (wb_content b) (wpabuf_put_buf a b) \<and>
    (\<exists>r. wpabuf_resize True (Some a) add = Done (0, Some r) \<and> wb_ok r \<and> wb_content r = wb_content a \<and>
       wb_used r = wb_used a \<and> unat (wb_used a) + unat add \<le> unat (wb_size r)) \<and>
    (\<exists>d. wpabuf_dup True (Some a) = Done (Some d) \<and> wb_ok d \<and> wb_content d = wb_content a) \<and>
    (\<exists>d. wpabuf_concat True (Some a) (Some b) = Done (Some d) \<and> wb_ok d \<and>
       wb_content d = wb_content a @ wb_content b) \<and>
    (\<exists>d. wpabuf_zeropad True (Some a) (wb_used a + add) = Done (Some d) \<and> wb_ok d \<and>
       wb_content d = replicate (unat add) 0 @ wb_content a)"
proof -
  have room: "unat (wb_used a) + 16 < 2 ^ 32"
    using assms(1) by (auto simp: wb_ok_def word_le_nat_alt)
  have n: "unat (wb_used a + add) = unat (wb_used a) + unat add" using assms(4) by (simp add: unat_word_ariths)
  have "appends a s (wpabuf_put_str a s)" "appends a (wb_content b) (wpabuf_put_buf a b)"
    using assms by (auto intro!: put_str.put_appends put_buf.put_appends simp: length_content)
  moreover note resize_content [OF assms(1,4)] dup_content [OF assms(1)] concat_content [OF assms(1,2,5)]
    zeropad_content [OF assms(1), of "wb_used a + add", unfolded n, OF assms(4)]
  ultimately show ?thesis
    using assms(1) room
    by (simp add: encoder_lengths put_u8.put_appends put_le16.put_appends put_be16.put_appends
        put_le24.put_appends put_be24.put_appends put_le32.put_appends put_be32.put_appends
        put_le64.put_appends put_be64.put_appends)
qed

theorem wpabuf_type_safe_witness:
  "\<exists>d. wpabuf_concat True (Some \<lparr>wb_size = 4, wb_used = 2, wb_buf = [1, 2, 0, 0], wb_ext = False\<rparr>)
      (Some \<lparr>wb_size = 1, wb_used = 1, wb_buf = [3], wb_ext = True\<rparr>) = Done (Some d) \<and> wb_ok d \<and> wb_content d = [1, 2, 3]"
proof -
  let ?a = "\<lparr>wb_size = 4, wb_used = 2, wb_buf = [1, 2, 0, 0], wb_ext = False\<rparr>"
  let ?b = "\<lparr>wb_size = 1, wb_used = 1, wb_buf = [3], wb_ext = True\<rparr>"
  have "wb_ok ?a" "wb_ok ?b" by (simp_all add: wb_ok_def)
  moreover have "wb_content ?a = [1, 2]" "wb_content ?b = [3]" by (simp_all add: wb_content_def)
  ultimately show ?thesis using wpabuf_type_safe [of ?a ?b "[]" 0 0 0 0 0] by simp
qed

text \<open>
  \<open>wpabuf_cmp\<close> compares the allocated sizes and all allocated bytes, so two buffers with the
  same data and different room differ for it.
\<close>

lemma cmp_sees_room:
  assumes "wb_size a \<noteq> wb_size b" "wb_content a = wb_content b"
  shows "wpabuf_cmp (Some a) (Some b) = -1"
  using assms by (simp add: wpabuf_cmp_def wpabuf_size_def)

end
