(* ===== verification/Printer_State.thy ===== *)
theory Printer_State
  imports Prelude
begin

text \<open>
  \<open>State\<close> (\<open>src/src/state.cpp\<close>, \<open>state.h\<close>): the state of the printer, merged from
  what Moonraker reports, and the lists of heaters, fans and lights derived from it, with the
  helpers of \<open>utils.cpp\<close> that read it.

  JSON values are those of nlohmann::json, which is not part of the repository: they are the
  type \<open>'j\<close>, and the operations used on them are the fields of \<open>json_lib\<close>. What their
  documentation promises, and the code relies on, is \<open>json_laws\<close>. Exceptions are
  \<open>None\<close>.
\<close>

section \<open>JSON values\<close>

record 'j json_lib =
  null :: 'j
  is_null :: "'j \<Rightarrow> bool"
  is_object :: "'j \<Rightarrow> bool"
  is_empty :: "'j \<Rightarrow> bool" \<comment> \<open>\<open>empty()\<close>\<close>
  at_ptr :: "'j \<Rightarrow> string list \<Rightarrow> 'j option" \<comment> \<open>\<open>contains(ptr)\<close> and \<open>at(ptr)\<close>\<close>
  index_ptr :: "'j \<Rightarrow> string list \<Rightarrow> 'j" \<comment> \<open>the value after \<open>operator[](ptr)\<close>, which inserts a null\<close>
  merge_patch :: "'j \<Rightarrow> 'j \<Rightarrow> 'j"
  elements :: "'j \<Rightarrow> 'j list" \<comment> \<open>of a range-based for\<close>
  as_string :: "'j \<Rightarrow> string option" \<comment> \<open>\<open>get<std::string>()\<close>\<close>

text \<open>
  Pointers are followed key by key; a null has no members; a patch that is not an object replaces
  the value, and one that is an object changes the members it has, where null removes a member
  (RFC 7396).
\<close>

definition json_laws :: "'j json_lib \<Rightarrow> bool" where
  "json_laws lib \<longleftrightarrow>
     is_null lib (null lib) \<and> (\<forall>j. is_null lib j \<longrightarrow> \<not> is_object lib j) \<and>
     (\<forall>j. at_ptr lib j [] = Some j) \<and>
     (\<forall>j k ks. at_ptr lib j (k # ks) = (case at_ptr lib j [k] of None \<Rightarrow> None | Some u \<Rightarrow> at_ptr lib u ks)) \<and>
     (\<forall>j k. is_null lib j \<longrightarrow> at_ptr lib j [k] = None) \<and>
     (\<forall>t p. \<not> is_object lib p \<longrightarrow> merge_patch lib t p = p) \<and>
     (\<forall>t p. is_object lib p \<longrightarrow> is_object lib (merge_patch lib t p)) \<and>
     (\<forall>t p k. is_object lib p \<longrightarrow> at_ptr lib (merge_patch lib t p) [k] =
        (let old = (if is_object lib t then at_ptr lib t [k] else None)
         in case at_ptr lib p [k] of
              None \<Rightarrow> old
            | Some v \<Rightarrow> if is_null lib v then None
                         else Some (merge_patch lib (case old of None \<Rightarrow> null lib | Some u \<Rightarrow> u) v)))"

section \<open>The merged state\<close>

text \<open>
  The members of \<open>data\<close>, which nlohmann::json keeps in a \<open>std::map\<close>; before the first
  member \<open>data\<close> is null.
\<close>

type_synonym 'j state = "(string \<times> 'j) list"

definition member :: "'j json_lib \<Rightarrow> string \<Rightarrow> 'j state \<Rightarrow> 'j" where
  "member lib key data = (case map_of data key of None \<Rightarrow> null lib | Some v \<Rightarrow> v)"

definition reset :: "'j state \<Rightarrow> 'j state" where
  "reset data = []"

definition set_data :: "'j json_lib \<Rightarrow> string \<Rightarrow> 'j \<Rightarrow> string list \<Rightarrow> 'j state \<Rightarrow> 'j state" where
  "set_data lib key j json_path data =
     (case at_ptr lib j json_path of
        None \<Rightarrow> data
      | Some v \<Rightarrow> if is_null lib v then data
                   else smap_put key (merge_patch lib (member lib key data) v) data)"

text \<open>\<open>get_data\<close> for a pointer with at least one key.\<close>

definition get_data :: "'j json_lib \<Rightarrow> string \<Rightarrow> string list \<Rightarrow> 'j state \<Rightarrow> 'j" where
  "get_data lib key ptr data =
     (case map_of data key of
        None \<Rightarrow> null lib
      | Some v \<Rightarrow> (case at_ptr lib v ptr of None \<Rightarrow> null lib | Some u \<Rightarrow> u))"

definition consume :: "'j json_lib \<Rightarrow> 'j \<Rightarrow> 'j state \<Rightarrow> 'j state" where
  "consume lib j data =
     (case at_ptr lib j [''params''] of
        None \<Rightarrow> data
      | Some params \<Rightarrow> if is_empty lib params then data
                        else set_data lib ''printer_state'' j [''params'', ''0''] data)"

section \<open>Objects of the printer\<close>

text \<open>
  \<open>data["/printer_objs/objects"_json_pointer]\<close>: the value, and the state, in which a missing
  value has become a null.
\<close>

definition printer_objects :: "'j json_lib \<Rightarrow> 'j state \<Rightarrow> 'j \<times> 'j state" where
  "printer_objects lib data =
     (let v = index_ptr lib (member lib ''printer_objs'' data) [''objects''];
          data1 = smap_put ''printer_objs'' v data
      in (case at_ptr lib v [''objects''] of None \<Rightarrow> null lib | Some u \<Rightarrow> u, data1))"

text \<open>The loop the getters share: the names that satisfy \<open>P\<close>, in the order of the printer.\<close>

definition names_where :: "'j json_lib \<Rightarrow> (string \<Rightarrow> bool) \<Rightarrow> 'j state \<Rightarrow> string list option \<times> 'j state" where
  "names_where lib P data =
     (let (objects, data1) = printer_objects lib data
      in (if is_null lib objects then Some []
          else map_option (filter P) (those (map (as_string lib) (elements lib objects))), data1))"

definition is_extruder :: "string \<Rightarrow> bool" where
  "is_extruder n \<longleftrightarrow> prefix ''extruder'' n \<and> \<not> prefix ''extruder_stepper'' n"

definition is_heater :: "string \<Rightarrow> bool" where
  "is_heater n \<longleftrightarrow> n = ''heater_bed'' \<or> prefix ''heater_generic '' n"

definition is_sensor :: "string \<Rightarrow> bool" where
  "is_sensor n \<longleftrightarrow> prefix ''temperature_sensor '' n \<or> prefix ''temperature_fan '' n"

definition is_fan :: "string \<Rightarrow> bool" where
  "is_fan n \<longleftrightarrow> n = ''fan'' \<or> prefix ''heater_fan '' n \<or> prefix ''fan_generic '' n \<or> prefix ''controller_fan '' n"

definition is_led :: "string \<Rightarrow> bool" where
  "is_led n \<longleftrightarrow> prefix ''led '' n"

definition is_output_pin :: "string \<Rightarrow> bool" where
  "is_output_pin n \<longleftrightarrow> prefix ''output_pin '' n"

definition get_extruders :: "'j json_lib \<Rightarrow> 'j state \<Rightarrow> string list option \<times> 'j state" where
  "get_extruders lib data = names_where lib is_extruder data"

definition get_heaters :: "'j json_lib \<Rightarrow> 'j state \<Rightarrow> string list option \<times> 'j state" where
  "get_heaters lib data = names_where lib is_heater data"

definition get_sensors :: "'j json_lib \<Rightarrow> 'j state \<Rightarrow> string list option \<times> 'j state" where
  "get_sensors lib data = names_where lib is_sensor data"

definition get_fans :: "'j json_lib \<Rightarrow> 'j state \<Rightarrow> string list option \<times> 'j state" where
  "get_fans lib data = names_where lib is_fan data"

definition get_leds :: "'j json_lib \<Rightarrow> 'j state \<Rightarrow> string list option \<times> 'j state" where
  "get_leds lib data = names_where lib is_led data"

definition get_output_pins :: "'j json_lib \<Rightarrow> 'j state \<Rightarrow> string list option \<times> 'j state" where
  "get_output_pins lib data = names_where lib is_output_pin data"

section \<open>Names\<close>

definition to_upper :: "char \<Rightarrow> char" where
  "to_upper c = (if CHR ''a'' \<le> c \<and> c \<le> CHR ''z'' then char_of (of_char c - 32 :: nat) else c)"

definition to_lower :: "char \<Rightarrow> char" where
  "to_lower c = (if CHR ''A'' \<le> c \<and> c \<le> CHR ''Z'' then char_of (of_char c + 32 :: nat) else c)"

definition is_space :: "char \<Rightarrow> bool" where
  "is_space c \<longleftrightarrow> c \<in> set [CHR '' '', CHR 0x09, CHR 0x0A, CHR 0x0B, CHR 0x0C, CHR 0x0D]"

fun title_from :: "bool \<Rightarrow> string \<Rightarrow> string" where
  "title_from start [] = []"
| "title_from start (c # cs) =
     (let d = (if start then to_upper c else to_lower c);
          e = (if d = CHR ''_'' then CHR '' '' else d)
      in e # title_from (is_space e) cs)"

definition to_title :: "string \<Rightarrow> string" where
  "to_title s = title_from True s"

text \<open>The part behind the last space, or all of it.\<close>

definition get_obj_name :: "string \<Rightarrow> string" where
  "get_obj_name i = rev (takeWhile (\<lambda>c. c \<noteq> CHR '' '') (rev i))"

section \<open>What the screen shows\<close>

text \<open>An entry of the configuration, or a default one with its title.\<close>

datatype 'j shown =
    User 'j
  | Sensor string string bool nat \<comment> \<open>id, title, controllable, index of the colour\<close>
  | Plain string string \<comment> \<open>id and title\<close>

definition GUPPY_COLOR_SIZE :: nat where
  "GUPPY_COLOR_SIZE = 19"

text \<open>
  The configured entries by id; a later entry replaces an earlier one, and an id that is not a
  string throws. A missing id has no defined result in the source and is \<open>None\<close> here too.
\<close>

definition by_id :: "'j json_lib \<Rightarrow> 'j \<Rightarrow> (string \<times> 'j) list option" where
  "by_id lib user =
     (if is_null lib user then Some []
      else foldl (\<lambda>acc s. case acc of None \<Rightarrow> None
                         | Some m \<Rightarrow>
                             (case at_ptr lib s [''id''] of
                                None \<Rightarrow> None
                              | Some i \<Rightarrow> (case as_string lib i of None \<Rightarrow> None | Some n \<Rightarrow> Some (smap_put n s m))))
             (Some []) (elements lib user))"

definition configured :: "(string \<times> 'j) list \<Rightarrow> string list \<Rightarrow> (string \<times> 'j shown) list \<Rightarrow> (string \<times> 'j shown) list" where
  "configured users names shown =
     foldl (\<lambda>m e. case map_of users e of None \<Rightarrow> m | Some s \<Rightarrow> smap_put e (User s) m) shown names"

fun default_sensors ::
  "bool \<Rightarrow> nat \<Rightarrow> string list \<Rightarrow> (string \<times> 'j shown) list \<Rightarrow> (string \<times> 'j shown) list" where
  "default_sensors controllable color_idx [] shown = shown"
| "default_sensors controllable color_idx (e # es) shown =
     default_sensors controllable (color_idx + 1) es
       (smap_put e (Sensor e (to_title e) controllable (color_idx mod GUPPY_COLOR_SIZE)) shown)"

definition display_sensors ::
  "(string \<times> 'j) list \<Rightarrow> string list \<Rightarrow> string list \<Rightarrow> string list \<Rightarrow> (string \<times> 'j shown) list" where
  "display_sensors users extruders heaters sensors =
     (let shown = configured users sensors (configured users heaters (configured users extruders []))
      in if shown = []
         then default_sensors False (length extruders + length heaters) sensors
                (default_sensors True (length extruders) heaters (default_sensors True 0 extruders []))
         else shown)"

definition get_display_sensors ::
  "'j json_lib \<Rightarrow> 'j \<Rightarrow> 'j state \<Rightarrow> (string \<times> 'j shown) list option \<times> 'j state" where
  "get_display_sensors lib user data =
     (case by_id lib user of
        None \<Rightarrow> (None, data)
      | Some users \<Rightarrow>
          case get_extruders lib data of
            (None, data1) \<Rightarrow> (None, data1)
          | (Some extruders, data1) \<Rightarrow>
              case get_heaters lib data1 of
                (None, data2) \<Rightarrow> (None, data2)
              | (Some heaters, data2) \<Rightarrow>
                  case get_sensors lib data2 of
                    (None, data3) \<Rightarrow> (None, data3)
                  | (Some sensors, data3) \<Rightarrow> (Some (display_sensors users extruders heaters sensors), data3))"

definition default_title :: "string \<Rightarrow> string \<Rightarrow> string" where
  "default_title whole e = to_title (if CHR '' '' \<in> set e then get_obj_name e else whole)"

definition display_fans :: "(string \<times> 'j) list \<Rightarrow> string list \<Rightarrow> string list \<Rightarrow> (string \<times> 'j shown) list" where
  "display_fans users fans output_pins =
     (let shown = configured users output_pins (configured users fans [])
      in if shown = [] then foldl (\<lambda>m e. smap_put e (Plain e (default_title ''Part Fan'' e)) m) [] fans
         else shown)"

definition get_display_fans ::
  "'j json_lib \<Rightarrow> 'j \<Rightarrow> 'j state \<Rightarrow> (string \<times> 'j shown) list option \<times> 'j state" where
  "get_display_fans lib user data =
     (case by_id lib user of
        None \<Rightarrow> (None, data)
      | Some users \<Rightarrow>
          case get_fans lib data of
            (None, data1) \<Rightarrow> (None, data1)
          | (Some fans, data1) \<Rightarrow>
              case get_output_pins lib data1 of
                (None, data2) \<Rightarrow> (None, data2)
              | (Some pins, data2) \<Rightarrow> (Some (display_fans users fans pins), data2))"

definition display_leds :: "(string \<times> 'j) list \<Rightarrow> string list \<Rightarrow> string list \<Rightarrow> (string \<times> 'j shown) list" where
  "display_leds users leds output_pins =
     (let shown = configured users output_pins (configured users leds [])
      in if shown = []
         then foldl (\<lambda>m e. smap_put e (Plain e (default_title ''LED'' e)) m)
                (foldl (\<lambda>m e. if e = ''output_pin LED'' then smap_put e (Plain e ''LED'') m else m) [] output_pins)
                leds
         else shown)"

definition get_display_leds ::
  "'j json_lib \<Rightarrow> 'j \<Rightarrow> 'j state \<Rightarrow> (string \<times> 'j shown) list option \<times> 'j state" where
  "get_display_leds lib user data =
     (case by_id lib user of
        None \<Rightarrow> (None, data)
      | Some users \<Rightarrow>
          case get_leds lib data of
            (None, data1) \<Rightarrow> (None, data1)
          | (Some leds, data1) \<Rightarrow>
              case get_output_pins lib data1 of
                (None, data2) \<Rightarrow> (None, data2)
              | (Some pins, data2) \<Rightarrow> (Some (display_leds users leds pins), data2))"

section \<open>Queries of the state\<close>

definition is_homed :: "'j json_lib \<Rightarrow> 'j state \<Rightarrow> bool option" where
  "is_homed lib data =
     (let v = get_data lib ''printer_state'' [''toolhead'', ''homed_axes''] data
      in if is_null lib v then Some False
         else map_option (\<lambda>s. CHR ''x'' \<in> set s \<and> CHR ''y'' \<in> set s \<and> CHR ''z'' \<in> set s) (as_string lib v))"

text \<open>The loop stops at the first macro that matches, and throws at a value before it that is no string.\<close>

fun macro_in :: "'j json_lib \<Rightarrow> string \<Rightarrow> 'j list \<Rightarrow> bool option" where
  "macro_in lib want [] = Some False"
| "macro_in lib want (v # vs) =
     (case as_string lib v of
        None \<Rightarrow> None
      | Some obj_name \<Rightarrow>
          if length obj_name = length want \<and> map to_lower obj_name = map to_lower want then Some True
          else macro_in lib want vs)"

definition has_gcode_macro :: "'j json_lib \<Rightarrow> string \<Rightarrow> 'j state \<Rightarrow> bool option" where
  "has_gcode_macro lib n data =
     (let objects = get_data lib ''printer_objs'' [''objects''] data
      in if is_null lib objects then Some False
         else macro_in lib (''gcode_macro '' @ n) (elements lib objects))"

definition has_config_section :: "'j json_lib \<Rightarrow> string \<Rightarrow> 'j state \<Rightarrow> bool" where
  "has_config_section lib n data =
     (let settings = get_data lib ''printer_state'' [''configfile'', ''settings''] data
      in is_object lib settings \<and> at_ptr lib settings [map to_lower n] \<noteq> None)"

section \<open>What a pointer reads after a merge\<close>

text \<open>The value a pointer leads to through objects only.\<close>

fun obj_at :: "'j json_lib \<Rightarrow> 'j \<Rightarrow> string list \<Rightarrow> 'j option" where
  "obj_at lib j [] = Some j"
| "obj_at lib j (k # ks) =
     (if is_object lib j then (case at_ptr lib j [k] of None \<Rightarrow> None | Some u \<Rightarrow> obj_at lib u ks) else None)"

text \<open>A patch reports a value at a pointer, or does not mention the pointer.\<close>

definition reports :: "'j json_lib \<Rightarrow> 'j \<Rightarrow> string list \<Rightarrow> 'j \<Rightarrow> bool" where
  "reports lib p ks v \<longleftrightarrow> obj_at lib p ks = Some v \<and> \<not> is_object lib v \<and> \<not> is_null lib v"

fun silent :: "'j json_lib \<Rightarrow> 'j \<Rightarrow> string list \<Rightarrow> bool" where
  "silent lib p [] = False"
| "silent lib p (k # ks) =
     (is_object lib p \<and> (case at_ptr lib p [k] of None \<Rightarrow> True | Some u \<Rightarrow> silent lib u ks))"

lemma json_lawsD:
  assumes "json_laws lib"
  shows "is_null lib j \<Longrightarrow> \<not> is_object lib j" "\<not> is_object lib (null lib)" "at_ptr lib j [] = Some j"
    "at_ptr lib j (k # ks) = (case at_ptr lib j [k] of None \<Rightarrow> None | Some u \<Rightarrow> at_ptr lib u ks)"
    "\<not> is_object lib p \<Longrightarrow> merge_patch lib t p = p" "is_object lib p \<Longrightarrow> is_object lib (merge_patch lib t p)"
  using assms unfolding json_laws_def by blast+

lemma merged_member:
  assumes "json_laws lib" "is_object lib p"
  shows "at_ptr lib (merge_patch lib t p) [k] =
    (let old = (if is_object lib t then at_ptr lib t [k] else None)
     in case at_ptr lib p [k] of
          None \<Rightarrow> old
        | Some v \<Rightarrow> if is_null lib v then None
                     else Some (merge_patch lib (case old of None \<Rightarrow> null lib | Some u \<Rightarrow> u) v))"
  using assms unfolding json_laws_def by blast

lemma obj_at_ptr:
  assumes "json_laws lib"
  shows "obj_at lib j ks = Some v \<Longrightarrow> at_ptr lib j ks = Some v"
proof (induction ks arbitrary: j)
  case (Cons k ks)
  with json_lawsD(4) [OF assms, of j k ks] show ?case by (auto split: if_splits option.splits)
qed (simp add: json_lawsD(3) [OF assms])

lemma reported:
  assumes laws: "json_laws lib"
  shows "reports lib p ks v \<Longrightarrow> obj_at lib (merge_patch lib t p) ks = Some v"
proof (induction ks arbitrary: t p)
  case Nil
  with json_lawsD(5) [OF laws] show ?case by (simp add: reports_def)
next
  case (Cons k ks)
  then obtain u where p: "is_object lib p" "at_ptr lib p [k] = Some u" and u: "reports lib u ks v"
    by (auto simp: reports_def split: if_splits option.splits)
  have "\<not> is_null lib u"
    using u json_lawsD(1) [OF laws, of u] by (cases ks) (auto simp: reports_def)
  with Cons.IH [OF u] p show ?case
    by (simp add: json_lawsD(6) [OF laws] merged_member [OF laws p(1)] Let_def)
qed

lemma unreported:
  assumes laws: "json_laws lib"
  shows "silent lib p ks \<Longrightarrow> obj_at lib (merge_patch lib t p) ks = obj_at lib t ks"
proof (induction ks arbitrary: t p)
  case (Cons k ks)
  then have p: "is_object lib p" by simp
  let ?old = "if is_object lib t then at_ptr lib t [k] else None"
  show ?case
  proof (cases "at_ptr lib p [k]")
    case None
    with p show ?thesis by (simp add: json_lawsD(6) [OF laws] merged_member [OF laws p] Let_def)
  next
    case (Some u)
    with Cons.prems have u: "silent lib u ks" by simp
    then obtain k' ks' where ks: "ks = k' # ks'" "is_object lib u" by (cases ks) auto
    have "\<not> is_null lib u" using ks(2) json_lawsD(1) [OF laws] by blast
    moreover have "obj_at lib (null lib) ks = None" using json_lawsD(2) [OF laws] by (simp add: ks(1))
    ultimately show ?thesis
      using Some p Cons.IH [OF u, of "case ?old of None \<Rightarrow> null lib | Some x \<Rightarrow> x"]
      by (simp add: json_lawsD(6) [OF laws] merged_member [OF laws p] Let_def split: option.splits)
  qed
qed simp

section \<open>Notifications\<close>

text \<open>The patch a notification carries.\<close>

definition carried :: "'j json_lib \<Rightarrow> 'j \<Rightarrow> 'j option" where
  "carried lib j =
     (case at_ptr lib j [''params''] of
        None \<Rightarrow> None
      | Some params \<Rightarrow>
          if is_empty lib params then None
          else case at_ptr lib j [''params'', ''0''] of
                 None \<Rightarrow> None | Some p \<Rightarrow> if is_null lib p then None else Some p)"

lemma consume_carried:
  "consume lib j data =
     (case carried lib j of
        None \<Rightarrow> data
      | Some p \<Rightarrow> smap_put ''printer_state'' (merge_patch lib (member lib ''printer_state'' data) p) data)"
  by (simp add: consume_def carried_def set_data_def split: option.split)

lemma member_consume:
  "member lib ''printer_state'' (consume lib j data) =
     (case carried lib j of
        None \<Rightarrow> member lib ''printer_state'' data
      | Some p \<Rightarrow> merge_patch lib (member lib ''printer_state'' data) p)"
  "key \<noteq> ''printer_state'' \<Longrightarrow> map_of (consume lib j data) key = map_of data key"
  by (simp_all add: consume_carried member_def smap_simps split: option.split)

lemma consume_silent:
  assumes "json_laws lib" "\<forall>j \<in> set js. \<forall>p. carried lib j = Some p \<longrightarrow> silent lib p ks"
  shows "obj_at lib (member lib ''printer_state'' (fold (consume lib) js data)) ks =
    obj_at lib (member lib ''printer_state'' data) ks"
  using assms(2)
  by (induction js arbitrary: data) (auto simp: member_consume unreported [OF assms(1)] split: option.split)

lemma get_data_member:
  assumes "json_laws lib" "obj_at lib (member lib key data) ks = Some v" "\<not> is_null lib v"
  shows "get_data lib key ks data = v"
proof (cases "map_of data key")
  case None
  with assms json_lawsD(2) [OF assms(1)] have "obj_at lib (null lib) ks = Some v" "ks = [] \<Longrightarrow> v = null lib"
    by (auto simp: member_def)
  with json_lawsD(2) [OF assms(1)] assms(1,3) show ?thesis by (cases ks) (auto simp: json_laws_def)
next
  case (Some u)
  with assms(2) obj_at_ptr [OF assms(1)] show ?thesis by (simp add: get_data_def member_def)
qed

lemma fold_consume_other: "key \<noteq> ''printer_state'' \<Longrightarrow> map_of (fold (consume lib) js data) key = map_of data key"
  by (induction js arbitrary: data) (simp_all add: member_consume)

section \<open>Sensors on screen\<close>

lemma map_of_configured:
  "map_of (configured users ns m) k =
     (if k \<in> set ns \<and> map_of users k \<noteq> None then map_option User (map_of users k) else map_of m k)"
proof (induction ns arbitrary: m)
  case (Cons n ns)
  then show ?case
    by (cases "map_of users n") (auto simp: configured_def smap_simps)
qed (simp add: configured_def)

lemma smap_ok_configured: "smap_ok m \<Longrightarrow> smap_ok (configured users ns m)"
  by (induction ns arbitrary: m) (auto simp: configured_def split: option.split)

lemma default_sensors_other: "k \<notin> set ns \<Longrightarrow> map_of (default_sensors c i ns m) k = map_of m k"
  by (induction c i ns m rule: default_sensors.induct) (simp_all add: smap_simps)

lemma default_sensors_nth:
  "distinct ns \<Longrightarrow> j < length ns \<Longrightarrow>
   map_of (default_sensors c i ns m) (ns ! j) = Some (Sensor (ns ! j) (to_title (ns ! j)) c ((i + j) mod GUPPY_COLOR_SIZE))"
proof (induction ns arbitrary: i j m)
  case (Cons n ns)
  show ?case
  proof (cases j)
    case 0
    with Cons.prems show ?thesis by (simp add: default_sensors_other smap_simps)
  next
    case (Suc j')
    with Cons.IH [of j' "i + 1"] Cons.prems show ?thesis by simp
  qed
qed simp

lemma smap_ok_default_sensors: "smap_ok m \<Longrightarrow> smap_ok (default_sensors c i ns m)"
  by (induction c i ns m rule: default_sensors.induct) auto

lemma display_default:
  assumes "distinct (es @ hs @ ss)" "\<forall>n \<in> set (es @ hs @ ss). map_of users n = None"
  shows "display_sensors users es hs ss = default_sensors False (length es + length hs) ss
    (default_sensors True (length es) hs (default_sensors True 0 es []))"
proof -
  have "configured users ns m = m" if "set ns \<subseteq> set (es @ hs @ ss)" for ns m
    using that assms(2) by (induction ns arbitrary: m) (simp_all add: configured_def)
  then have "configured users es m = m" "configured users hs m = m" "configured users ss m = m" for m by auto
  then show ?thesis by (simp add: display_sensors_def)
qed

section \<open>Properties\<close>


text \<open>Values that keep the laws.\<close>

datatype 'a sample = SNull | SNum 'a | SObj "(string \<times> 'a sample) list"

fun sample_merge :: "'a sample \<Rightarrow> 'a sample \<Rightarrow> 'a sample"
  and sample_members :: "(string \<times> 'a sample) list \<Rightarrow> (string \<times> 'a sample) list \<Rightarrow> (string \<times> 'a sample) list" where
  "sample_merge t (SObj ps) = SObj (sample_members (case t of SObj ts \<Rightarrow> ts | _ \<Rightarrow> []) ps)"
| "sample_merge t SNull = SNull"
| "sample_merge t (SNum n) = SNum n"
| "sample_members ts [] = ts"
| "sample_members ts ((k, v) # ps) =
     (if v = SNull then AList.delete k (sample_members ts ps)
      else AList.update k (sample_merge (case map_of ts k of None \<Rightarrow> SNull | Some u \<Rightarrow> u) v) (sample_members ts ps))"

fun sample_at :: "'a sample \<Rightarrow> string list \<Rightarrow> 'a sample option" where
  "sample_at j [] = Some j"
| "sample_at (SObj ms) (k # ks) = (case map_of ms k of None \<Rightarrow> None | Some u \<Rightarrow> sample_at u ks)"
| "sample_at SNull (k # ks) = None"
| "sample_at (SNum n) (k # ks) = None"

definition sample_lib :: "'a sample json_lib" where
  "sample_lib = \<lparr>null = SNull, is_null = (\<lambda>j. j = SNull), is_object = (\<lambda>j. case j of SObj _ \<Rightarrow> True | _ \<Rightarrow> False),
     is_empty = (\<lambda>j. j = SNull \<or> j = SObj []), at_ptr = sample_at, index_ptr = (\<lambda>j ks. j),
     merge_patch = sample_merge, elements = (\<lambda>j. []), as_string = (\<lambda>j. None)\<rparr>"

lemma map_of_sample_members:
  "map_of (sample_members ts ps) k =
     (case map_of ps k of
        None \<Rightarrow> map_of ts k
      | Some v \<Rightarrow> if v = SNull then None
                   else Some (sample_merge (case map_of ts k of None \<Rightarrow> SNull | Some u \<Rightarrow> u) v))"
  by (induction ps) (auto simp: update_conv' delete_conv')

definition sample_object :: "'a sample \<Rightarrow> bool" where
  "sample_object j \<longleftrightarrow> (case j of SObj _ \<Rightarrow> True | _ \<Rightarrow> False)"

lemma sample_lib_simps:
  "null sample_lib = SNull" "is_null sample_lib j \<longleftrightarrow> j = SNull" "is_object sample_lib j \<longleftrightarrow> sample_object j"
  "at_ptr sample_lib = sample_at" "merge_patch sample_lib = sample_merge"
  by (simp_all add: sample_lib_def sample_object_def)

lemma sample_laws: "json_laws sample_lib"
proof -
  have chain: "sample_at j (k # ks) = (case sample_at j [k] of None \<Rightarrow> None | Some u \<Rightarrow> sample_at u ks)" for j k ks
    by (cases j) (auto split: option.split)
  have rep: "\<not> sample_object p \<Longrightarrow> sample_merge t p = p" for t p
    by (cases p) (simp_all add: sample_object_def)
  have obj: "sample_object p \<Longrightarrow> sample_object (sample_merge t p)" for t p
    by (cases p) (simp_all add: sample_object_def)
  have merge: "sample_object p \<Longrightarrow> sample_at (sample_merge t p) [k] =
      (let old = if sample_object t then sample_at t [k] else None
       in case sample_at p [k] of None \<Rightarrow> old
          | Some v \<Rightarrow> if v = SNull then None
                       else Some (sample_merge (case old of None \<Rightarrow> SNull | Some u \<Rightarrow> u) v))" for t p k
    by (cases p; cases t) (auto simp: sample_object_def map_of_sample_members split: option.split)
  show ?thesis
    unfolding json_laws_def sample_lib_simps
    by (intro conjI allI impI chain rep obj merge) (auto simp: sample_object_def)
qed


text \<open>
  C24. What the main screen shows. If the configuration has entries for some of the printer's
  extruders, heaters and sensors, exactly those are shown, as configured; otherwise all of them
  are shown with their titles and the first nineteen colours in turn, extruders and heaters as
  controllable and sensors not. The result is ordered by name.
\<close>

theorem display_sensors_shown:
  assumes "distinct (es @ hs @ ss)"
  shows "smap_ok (display_sensors users es hs ss) \<and>
    ((\<exists>n \<in> set (es @ hs @ ss). map_of users n \<noteq> None) \<longrightarrow>
      (\<forall>k. map_of (display_sensors users es hs ss) k =
         (if k \<in> set (es @ hs @ ss) then map_option User (map_of users k) else None))) \<and>
    ((\<forall>n \<in> set (es @ hs @ ss). map_of users n = None) \<longrightarrow>
      (\<forall>i < length (es @ hs @ ss). map_of (display_sensors users es hs ss) ((es @ hs @ ss) ! i) =
         Some (Sensor ((es @ hs @ ss) ! i) (to_title ((es @ hs @ ss) ! i)) (i < length (es @ hs)) (i mod 19))) \<and>
      (\<forall>k. k \<notin> set (es @ hs @ ss) \<longrightarrow> map_of (display_sensors users es hs ss) k = None))"
proof (intro conjI impI allI)
  let ?c = "configured users ss (configured users hs (configured users es []))"
  have c: "map_of ?c k = (if k \<in> set (es @ hs @ ss) then map_option User (map_of users k) else None)" for k
    by (auto simp: map_of_configured)
  show "smap_ok (display_sensors users es hs ss)"
    by (simp add: display_sensors_def Let_def smap_ok_configured smap_ok_default_sensors)
  {
    fix k assume "\<exists>n \<in> set (es @ hs @ ss). map_of users n \<noteq> None"
    then obtain n u where "n \<in> set (es @ hs @ ss)" "map_of users n = Some u" by blast
    then have "map_of ?c n = Some (User u)" using c [of n] by simp
    then have "?c \<noteq> []" by auto
    then show "map_of (display_sensors users es hs ss) k =
        (if k \<in> set (es @ hs @ ss) then map_option User (map_of users k) else None)"
      using c [of k] by (simp add: display_sensors_def)
  }
  fix i
  assume none: "\<forall>n \<in> set (es @ hs @ ss). map_of users n = None"
  note dd = display_default [OF assms none]
  {
    assume i: "i < length (es @ hs @ ss)"
    consider "i < length es" | "length es \<le> i" "i < length (es @ hs)" | "length (es @ hs) \<le> i" by linarith
    then show "map_of (display_sensors users es hs ss) ((es @ hs @ ss) ! i) =
        Some (Sensor ((es @ hs @ ss) ! i) (to_title ((es @ hs @ ss) ! i)) (i < length (es @ hs)) (i mod 19))"
    proof cases
      case 1
      then have "(es @ hs @ ss) ! i = es ! i" "es ! i \<notin> set hs" "es ! i \<notin> set ss"
        using assms nth_mem [OF 1] by (auto simp: nth_append simp del: nth_mem)
      with 1 assms default_sensors_nth [of es i True 0 "[]"] show ?thesis
        by (simp add: dd default_sensors_other GUPPY_COLOR_SIZE_def)
    next
      case 2
      then have h: "i - length es < length hs" by auto
      from 2 have "(es @ hs @ ss) ! i = hs ! (i - length es)" "hs ! (i - length es) \<notin> set ss" "i - length es < length hs"
        using assms nth_mem [OF h] by (auto simp: nth_append simp del: nth_mem)
      with 2 assms default_sensors_nth [of hs "i - length es" True "length es"] show ?thesis
        by (simp add: dd default_sensors_other GUPPY_COLOR_SIZE_def)
    next
      case 3
      then have "(es @ hs @ ss) ! i = ss ! (i - length (es @ hs))" "i - length (es @ hs) < length ss"
        using i by (auto simp: nth_append)
      with 3 assms default_sensors_nth [of ss "i - length (es @ hs)" False "length es + length hs"] show ?thesis
        by (simp add: dd GUPPY_COLOR_SIZE_def)
    qed
  }
  fix k assume "k \<notin> set (es @ hs @ ss)"
  then show "map_of (display_sensors users es hs ss) k = None" by (simp add: dd default_sensors_other)
qed

theorem display_sensors_shown_witness:
  "map_of (display_sensors [(''heater_bed'', ())] [''extruder''] [''heater_bed''] []) ''heater_bed'' = Some (User ()) \<and>
   map_of (display_sensors [(''other'', ())] [''extruder''] [''heater_bed''] []) ''heater_bed'' =
     Some (Sensor ''heater_bed'' (to_title ''heater_bed'') True 1)"
proof
  show "map_of (display_sensors [(''heater_bed'', ())] [''extruder''] [''heater_bed''] []) ''heater_bed'' = Some (User ())"
    using display_sensors_shown [of "[''extruder'']" "[''heater_bed'']" "[]" "[(''heater_bed'', ())]"] by simp
  have d: "distinct ([''extruder''] @ [''heater_bed''] @ [])" by simp
  have none: "\<forall>n \<in> set ([''extruder''] @ [''heater_bed''] @ []). map_of [(''other'', ())] n = None" by simp
  from display_sensors_shown [OF d, of "[(''other'', ())]", THEN conjunct2, THEN conjunct2, THEN mp, OF none,
    THEN conjunct1, rule_format, of 1]
  show "map_of (display_sensors [(''other'', ())] [''extruder''] [''heater_bed''] []) ''heater_bed'' =
     Some (Sensor ''heater_bed'' (to_title ''heater_bed'') True 1)" by simp
qed

end
