(* ===== verification/Config.thy ===== *)
theory Config
  imports Printer_State
begin

text \<open>
  \<open>Config\<close> (\<open>src/src/config.cpp\<close>, \<open>config.h\<close>): the configuration as it is after
  \<open>init\<close>, which reads the file if there is one and then fills in what is missing. The
  configuration of a printer build is modelled: neither \<open>SIMULATOR\<close> nor
  \<open>GUPPY_ROTATE\<close> nor \<open>EVDEV_CALIBRATE\<close> is defined.

  As for the printer state, JSON is nlohmann::json and an argument; here its literals, the
  parsing of a pointer and the assignment through one are used too, with the laws
  \<open>config_laws\<close>.
\<close>

section \<open>JSON literals and assignment\<close>

datatype lit = LBool bool | LInt int | LStr string | LList "lit list" | LObj "(string \<times> lit) list"

record 'j config_lib = "'j json_lib" +
  of_lit :: "lit \<Rightarrow> 'j"
  pointer :: "string \<Rightarrow> string list" \<comment> \<open>\<open>json_pointer(s)\<close>\<close>
  set_ptr :: "'j \<Rightarrow> string list \<Rightarrow> 'j \<Rightarrow> 'j" \<comment> \<open>\<open>data[ptr] = v\<close>\<close>

section \<open>Defaults\<close>

definition fans_conf :: lit where
  "fans_conf = LList
     [LObj [(''id'', LStr ''output_pin fan0''), (''display_name'', LStr ''Toolhead Fan'')],
      LObj [(''id'', LStr ''output_pin fan1''), (''display_name'', LStr ''Back Fan'')],
      LObj [(''id'', LStr ''output_pin fan2''), (''display_name'', LStr ''Side Fan'')]]"

definition sensors_conf :: lit where
  "sensors_conf = LList
     [LObj [(''id'', LStr ''extruder''), (''display_name'', LStr ''Extruder''),
            (''controllable'', LBool True), (''color'', LStr ''red'')],
      LObj [(''id'', LStr ''heater_bed''), (''display_name'', LStr ''Bed''),
            (''controllable'', LBool True), (''color'', LStr ''purple'')],
      LObj [(''id'', LStr ''temperature_sensor chamber_temp''), (''display_name'', LStr ''Chamber''),
            (''controllable'', LBool False), (''color'', LStr ''blue'')]]"

definition cooldown_conf :: lit where
  "cooldown_conf = LObj
     [(''cooldown'', LStr (''SET_HEATER_TEMPERATURE HEATER=extruder TARGET=0'' @ [CHR 0x0A] @
                           ''SET_HEATER_TEMPERATURE HEATER=heater_bed TARGET=0''))]"

definition default_macros_conf :: lit where
  "default_macros_conf = LObj
     [(''load_filament'', LStr ''_GUPPY_LOAD_MATERIAL''), (''unload_filament'', LStr ''_GUPPY_QUIT_MATERIAL'')]"

definition extrude_temps_conf :: lit where
  "extrude_temps_conf = LList (map LInt [170, 190, 200, 210, 220, 230, 240, 250, 260, 280, 300, 320])"

definition extrude_lengths_conf :: lit where
  "extrude_lengths_conf = LList (map LInt [5, 10, 15, 20, 25, 30, 40, 50, 75, 100, 150, 200])"

definition extrude_speeds_conf :: lit where
  "extrude_speeds_conf = LList (map LInt [1, 2, 3, 5, 8, 10, 15, 20, 25, 30, 40, 50])"

definition initial_conf :: "string \<Rightarrow> lit" where
  "initial_conf thumbdir = LObj
     [(''log_path'', LStr ''/usr/data/printer_data/logs/guppyscreen.log''),
      (''thumbnail_path'', LStr thumbdir),
      (''wpa_supplicant'', LStr ''/var/run/wpa_supplicant''),
      (''display_sleep_sec'', LInt 600),
      (''update_check_enabled'', LBool True),
      (''update_check_interval_hours'', LInt 24),
      (''default_printer'', LStr ''k1''),
      (''printers'', LObj [(''k1'', LObj
         [(''moonraker_api_key'', LBool False),
          (''moonraker_host'', LStr ''127.0.0.1''),
          (''moonraker_port'', LInt 7125),
          (''monitored_sensors'', sensors_conf),
          (''fans'', fans_conf),
          (''default_macros'', default_macros_conf),
          (''disable_spoolman'', LBool False)])])]"

section \<open>Initialisation\<close>

text \<open>
  \<open>data[ptr]\<close> as a place: \<open>f\<close> says what is assigned to it, given the value that is
  there, \<open>None\<close> for nothing.
\<close>

definition assign :: "'j config_lib \<Rightarrow> string \<Rightarrow> ('j option \<Rightarrow> 'j option) \<Rightarrow> 'j \<Rightarrow> 'j" where
  "assign lib ptr f data =
     (case f (at_ptr lib data (pointer lib ptr)) of
        None \<Rightarrow> data
      | Some v \<Rightarrow> set_ptr lib data (pointer lib ptr) v)"

text \<open>The default \<open>v\<close> where there is no value or a null.\<close>

definition if_absent :: "'j config_lib \<Rightarrow> lit \<Rightarrow> 'j option \<Rightarrow> 'j option" where
  "if_absent lib v old =
     (case old of
        None \<Rightarrow> Some (of_lit lib v)
      | Some j \<Rightarrow> if is_null lib j then Some (of_lit lib v) else None)"

text \<open>A read through the non-const \<open>operator[]\<close>, which inserts a null.\<close>

definition if_missing_null :: "'j config_lib \<Rightarrow> 'j option \<Rightarrow> 'j option" where
  "if_missing_null lib old = (case old of None \<Rightarrow> Some (null lib) | Some j \<Rightarrow> None)"

definition with_cooldown :: "'j config_lib \<Rightarrow> 'j option \<Rightarrow> 'j option" where
  "with_cooldown lib old =
     (let fresh = merge_patch lib (of_lit lib default_macros_conf) (of_lit lib cooldown_conf)
      in case old of
           None \<Rightarrow> Some fresh
         | Some macros \<Rightarrow>
             if is_null lib macros then Some fresh
             else if at_ptr lib macros [''cooldown''] = None
             then Some (merge_patch lib macros (of_lit lib cooldown_conf))
             else None)"

definition printer_steps :: "'j config_lib \<Rightarrow> string \<Rightarrow> (string \<times> ('j option \<Rightarrow> 'j option)) list" where
  "printer_steps lib df =
     [(df @ ''monitored_sensors'', if_absent lib sensors_conf),
      (df @ ''fans'', if_absent lib fans_conf),
      (df @ ''default_macros'', with_cooldown lib),
      (df @ ''extrude_temps'', if_absent lib extrude_temps_conf),
      (df @ ''extrude_lengths'', if_absent lib extrude_lengths_conf),
      (df @ ''extrude_speeds'', if_absent lib extrude_speeds_conf),
      (df @ ''disable_spoolman'', if_absent lib (LBool False)),
      (''/guppy_init_script'', if_absent lib (LStr ''/etc/init.d/S99guppyscreen'')),
      (df @ ''log_level'', if_absent lib (LStr ''debug''))]"

definition seed_steps :: "'j config_lib \<Rightarrow> string \<Rightarrow> (string \<times> ('j option \<Rightarrow> 'j option)) list" where
  "seed_steps lib config_path =
     [(''/update_check_enabled'', if_absent lib (LBool True)),
      (''/update_check_interval_hours'', if_absent lib (LInt 24)),
      (''/config_path'', \<lambda>old. Some (of_lit lib (LStr config_path))),
      (''/default_printer'', if_missing_null lib)]"

definition screen_steps :: "'j config_lib \<Rightarrow> (string \<times> ('j option \<Rightarrow> 'j option)) list" where
  "screen_steps lib =
     [(''/display_rotate'', if_absent lib (LInt 0)),
      (''/touch_calibrated'', if_absent lib (LBool False)),
      (''/prompt_emergency_stop'', if_absent lib (LBool True)),
      (''/display_sleep_sec'', if_absent lib (LInt 600))]"

definition assign_all :: "'j config_lib \<Rightarrow> (string \<times> ('j option \<Rightarrow> 'j option)) list \<Rightarrow> 'j \<Rightarrow> 'j" where
  "assign_all lib steps data = fold (\<lambda>(ptr, f). assign lib ptr f) steps data"

text \<open>
  \<open>file\<close> is the parsed file, \<open>None\<close> if it is not there. The result is the data, which is
  written back to the file, and \<open>default_printer\<close>; \<open>None\<close> when the name of the default
  printer is no string.
\<close>

definition config_init :: "'j config_lib \<Rightarrow> 'j option \<Rightarrow> string \<Rightarrow> string \<Rightarrow> ('j \<times> string) option" where
  "config_init lib file config_path thumbdir =
     (let data = (case file of Some j \<Rightarrow> j | None \<Rightarrow> of_lit lib (initial_conf thumbdir));
          data1 = assign_all lib (seed_steps lib config_path) data;
          df_name = (case at_ptr lib data1 (pointer lib ''/default_printer'') of None \<Rightarrow> null lib | Some j \<Rightarrow> j)
      in if is_null lib df_name then Some (assign_all lib (screen_steps lib) data1, [])
         else
           case as_string lib df_name of
             None \<Rightarrow> None
           | Some n \<Rightarrow>
               let df = ''/printers/'' @ n @ ''/''
               in Some (assign_all lib (screen_steps lib) (assign_all lib (printer_steps lib df) data1), df))"

text \<open>\<open>get_json\<close>, and \<open>get\<close> before the conversion; \<open>set\<close>.\<close>

definition get_json :: "'j config_lib \<Rightarrow> string \<Rightarrow> 'j \<Rightarrow> 'j" where
  "get_json lib json_path data =
     (case at_ptr lib data (pointer lib json_path) of None \<Rightarrow> null lib | Some j \<Rightarrow> j)"

definition config_set :: "'j config_lib \<Rightarrow> string \<Rightarrow> 'j \<Rightarrow> 'j \<Rightarrow> 'j" where
  "config_set lib json_ptr v data = set_ptr lib data (pointer lib json_ptr) v"

text \<open>\<open>moonraker_api_key\<close> and \<open>is_running_local\<close> of \<open>utils.cpp\<close>.\<close>

definition moonraker_api_key :: "'j config_lib \<Rightarrow> string \<Rightarrow> 'j \<Rightarrow> string" where
  "moonraker_api_key lib df data =
     (case as_string lib (get_json lib (df @ ''moonraker_api_key'') data) of None \<Rightarrow> [] | Some s \<Rightarrow> s)"

definition is_running_local :: "'j config_lib \<Rightarrow> string \<Rightarrow> 'j \<Rightarrow> bool option" where
  "is_running_local lib df data =
     map_option (\<lambda>host. host = ''localhost'' \<or> host = ''127.0.0.1'')
       (as_string lib (get_json lib (df @ ''moonraker_host'') data))"

section \<open>Laws\<close>

text \<open>
  A pointer can be assigned through when what it leads through is missing, null or an object. The
  assignment then sets that place, makes objects of what leads to it, and leaves all places
  alone that are neither on the way nor below. Pointers of plain keys are the keys joined by
  slashes. No literal is null, and those of objects have their members. An assignment through
  a number, string or array throws in the library; the statements below are about
  pointers that can be assigned through.
\<close>

definition settable :: "'j config_lib \<Rightarrow> 'j \<Rightarrow> string list \<Rightarrow> bool" where
  "settable lib d p \<longleftrightarrow> (\<forall>q x. strict_prefix q p \<longrightarrow> at_ptr lib d q = Some x \<longrightarrow> is_object lib x \<or> is_null lib x)"

definition plain :: "string \<Rightarrow> bool" where
  "plain k \<longleftrightarrow> CHR ''/'' \<notin> set k \<and> CHR ''~'' \<notin> set k"

definition config_laws :: "'j config_lib \<Rightarrow> bool" where
  "config_laws lib \<longleftrightarrow> json_laws (json_lib.truncate lib) \<and>
     (\<forall>d p v. settable lib d p \<longrightarrow> at_ptr lib (set_ptr lib d p v) p = Some v) \<and>
     (\<forall>d p v q. settable lib d p \<longrightarrow> parallel p q \<longrightarrow> at_ptr lib (set_ptr lib d p v) q = at_ptr lib d q) \<and>
     (\<forall>d p v q. settable lib d p \<longrightarrow> strict_prefix q p \<longrightarrow>
        (\<exists>x. at_ptr lib (set_ptr lib d p v) q = Some x \<and> is_object lib x)) \<and>
     (\<forall>ks. ks \<noteq> [] \<longrightarrow> list_all plain ks \<longrightarrow> pointer lib (concat (map (\<lambda>k. CHR ''/'' # k) ks)) = ks) \<and>
     (\<forall>v. \<not> is_null lib (of_lit lib v)) \<and>
     (\<forall>ms. is_object lib (of_lit lib (LObj ms))) \<and>
     (\<forall>ms k. at_ptr lib (of_lit lib (LObj ms)) [k] = map_option (of_lit lib) (map_of ms k))"

section \<open>A sequence of assignments\<close>

definition assigned :: "('j option \<Rightarrow> 'j option) \<Rightarrow> 'j option \<Rightarrow> 'j option" where
  "assigned f old = (case f old of None \<Rightarrow> old | Some v \<Rightarrow> Some v)"

lemma config_lawsD:
  assumes "config_laws lib"
  shows "settable lib d p \<Longrightarrow> at_ptr lib (set_ptr lib d p v) p = Some v"
    "settable lib d p \<Longrightarrow> parallel p q \<Longrightarrow> at_ptr lib (set_ptr lib d p v) q = at_ptr lib d q"
    "settable lib d p \<Longrightarrow> strict_prefix q p \<Longrightarrow> at_ptr lib (set_ptr lib d p v) q = Some x \<Longrightarrow> is_object lib x"
    "ks \<noteq> [] \<Longrightarrow> list_all plain ks \<Longrightarrow> pointer lib (concat (map (\<lambda>k. CHR ''/'' # k) ks)) = ks"
    "\<not> is_null lib (of_lit lib l)"
proof -
  show "settable lib d p \<Longrightarrow> at_ptr lib (set_ptr lib d p v) p = Some v"
    "settable lib d p \<Longrightarrow> parallel p q \<Longrightarrow> at_ptr lib (set_ptr lib d p v) q = at_ptr lib d q"
    "ks \<noteq> [] \<Longrightarrow> list_all plain ks \<Longrightarrow> pointer lib (concat (map (\<lambda>k. CHR ''/'' # k) ks)) = ks"
    "\<not> is_null lib (of_lit lib l)"
    using assms unfolding config_laws_def by blast+
  assume "settable lib d p" "strict_prefix q p" "at_ptr lib (set_ptr lib d p v) q = Some x"
  with assms show "is_object lib x" unfolding config_laws_def by (metis option.inject)
qed

lemma settable_set:
  assumes "config_laws lib" "settable lib d p" "settable lib d p'" "parallel p p'"
  shows "settable lib (set_ptr lib d p v) p'"
  unfolding settable_def
proof (intro allI impI)
  fix q x assume q: "strict_prefix q p'" "at_ptr lib (set_ptr lib d p v) q = Some x"
  have "\<not> prefix p q" using assms(4) q(1) by (meson parallelE prefix_order.less_imp_le prefix_order.trans)
  then consider "parallel p q" | "strict_prefix q p" by (auto simp: strict_prefix_def)
  then show "is_object lib x \<or> is_null lib x"
  proof cases
    case 1
    with config_lawsD(2) [OF assms(1,2)] q assms(3) show ?thesis by (auto simp: settable_def)
  next
    case 2
    with config_lawsD(3) [OF assms(1,2)] q(2) show ?thesis by blast
  qed
qed

lemma assign_at:
  assumes "config_laws lib" "settable lib d (pointer lib s)"
  shows "at_ptr lib (assign lib s f d) (pointer lib s) = assigned f (at_ptr lib d (pointer lib s))"
    "parallel (pointer lib s) q \<Longrightarrow> at_ptr lib (assign lib s f d) q = at_ptr lib d q"
    "parallel (pointer lib s) q \<Longrightarrow> settable lib d q \<Longrightarrow> settable lib (assign lib s f d) q"
  using config_lawsD(1,2) [OF assms] settable_set [OF assms]
  by (auto simp: assign_def assigned_def split: option.split)

lemma assign_all_at:
  assumes laws: "config_laws lib"
    and "\<forall>e \<in> set steps. settable lib d (pointer lib (fst e))"
    and "pairwise (\<lambda>p q. parallel p q) (set (map (pointer lib \<circ> fst) steps))" "distinct (map (pointer lib \<circ> fst) steps)"
  shows "(\<forall>(s, f) \<in> set steps. at_ptr lib (assign_all lib steps d) (pointer lib s) = assigned f (at_ptr lib d (pointer lib s))) \<and>
    (\<forall>q. (\<forall>e \<in> set steps. parallel (pointer lib (fst e)) q) \<longrightarrow>
       at_ptr lib (assign_all lib steps d) q = at_ptr lib d q \<and>
       (settable lib d q \<longrightarrow> settable lib (assign_all lib steps d) q))"
  using assms(2-4)
proof (induction steps arbitrary: d)
  case Nil
  show ?case by (simp add: assign_all_def)
next
  case (Cons e steps)
  obtain s f where e: "e = (s, f)" by (cases e)
  let ?d = "assign lib s f d" and ?p = "pointer lib s"
  have s: "settable lib d ?p" using Cons.prems(1) by (simp add: e)
  have par: "parallel ?p (pointer lib (fst e'))" if "e' \<in> set steps" for e'
    using Cons.prems(2,3) that by (auto simp: e pairwise_def)
  have par': "parallel (pointer lib (fst e')) ?p" if "e' \<in> set steps" for e'
    using par [OF that] by (auto simp: parallel_def)
  have "\<forall>e' \<in> set steps. settable lib ?d (pointer lib (fst e'))"
    using Cons.prems(1) par assign_at(3) [OF laws s] by simp
  moreover have "pairwise (\<lambda>p q. parallel p q) (set (map (pointer lib \<circ> fst) steps))"
    using Cons.prems(2) by (simp add: pairwise_insert)
  ultimately have IH: "\<forall>(s', f') \<in> set steps. at_ptr lib (assign_all lib steps ?d) (pointer lib s') =
        assigned f' (at_ptr lib ?d (pointer lib s'))"
    "\<forall>q. (\<forall>e \<in> set steps. parallel (pointer lib (fst e)) q) \<longrightarrow>
       at_ptr lib (assign_all lib steps ?d) q = at_ptr lib ?d q \<and>
       (settable lib ?d q \<longrightarrow> settable lib (assign_all lib steps ?d) q)"
    using Cons.IH Cons.prems(3) by auto
  have eq: "assign_all lib (e # steps) d = assign_all lib steps ?d" by (simp add: assign_all_def e)
  have here: "at_ptr lib (assign_all lib steps ?d) ?p = assigned f (at_ptr lib d ?p)"
    using IH(2) par' assign_at(1) [OF laws s] by simp
  have there: "at_ptr lib (assign_all lib steps ?d) (pointer lib s') = assigned f' (at_ptr lib d (pointer lib s'))"
    if "(s', f') \<in> set steps" for s' f'
    using IH(1) that par [OF that] assign_at(2) [OF laws s] by auto
  show ?case
    unfolding eq using here there IH(2) assign_at(2,3) [OF laws s] by (auto simp: e)
qed

section \<open>The places init assigns to\<close>

definition config_pointers :: "string \<Rightarrow> string list list" where
  "config_pointers n =
     [[''update_check_enabled''], [''update_check_interval_hours''], [''config_path''], [''default_printer''],
      [''printers'', n, ''monitored_sensors''], [''printers'', n, ''fans''], [''printers'', n, ''default_macros''],
      [''printers'', n, ''extrude_temps''], [''printers'', n, ''extrude_lengths''], [''printers'', n, ''extrude_speeds''],
      [''printers'', n, ''disable_spoolman''], [''guppy_init_script''], [''printers'', n, ''log_level''],
      [''display_rotate''], [''touch_calibrated''], [''prompt_emergency_stop''], [''display_sleep_sec'']]"

definition config_steps :: "'j config_lib \<Rightarrow> string \<Rightarrow> string \<Rightarrow> (string \<times> ('j option \<Rightarrow> 'j option)) list" where
  "config_steps lib n config_path =
     seed_steps lib config_path @ printer_steps lib (''/printers/'' @ n @ ''/'') @ screen_steps lib"

lemma pointer_top:
  assumes "config_laws lib" "plain k"
  shows "pointer lib (CHR ''/'' # k) = [k]"
  using config_lawsD(4) [OF assms(1), of "[k]"] assms(2) by simp

lemma pointer_printer:
  assumes "config_laws lib" "plain n" "plain k"
  shows "pointer lib ((''/printers/'' @ n @ ''/'') @ k) = [''printers'', n, k]"
proof -
  have "plain ''printers''" by (simp add: plain_def)
  then show ?thesis using config_lawsD(4) [OF assms(1), of "[''printers'', n, k]"] assms(2,3) by simp
qed

lemma config_steps_pointers:
  assumes "config_laws lib" "plain n"
  shows "map (pointer lib \<circ> fst) (config_steps lib n cp) = config_pointers n"
proof -
  have p: "pointer lib ((''/printers/'' @ n @ ''/'') @ k) = [''printers'', n, k]"
    if "k \<in> {''monitored_sensors'', ''fans'', ''default_macros'', ''extrude_temps'', ''extrude_lengths'', ''extrude_speeds'',
      ''disable_spoolman'', ''log_level''}" for k
    using that by (intro pointer_printer [OF assms]) (auto simp: plain_def)
  have q: "pointer lib (CHR ''/'' # k) = [k]"
    if "k \<in> {''update_check_enabled'', ''update_check_interval_hours'', ''config_path'', ''default_printer'',
      ''guppy_init_script'', ''display_rotate'', ''touch_calibrated'', ''prompt_emergency_stop'', ''display_sleep_sec''}" for k
    using that by (intro pointer_top [OF assms(1)]) (auto simp: plain_def)
  show ?thesis
    unfolding config_steps_def seed_steps_def printer_steps_def screen_steps_def config_pointers_def
    by (simp del: append_assoc append_Cons add: p q)
qed

lemma config_pointers_parallel:
  "pairwise (\<lambda>p q. parallel p q) (set (config_pointers n))" "distinct (config_pointers n)"
proof -
  have "sorted_wrt (\<lambda>p q. parallel p q) (config_pointers n)"
    unfolding config_pointers_def by (simp add: parallel_def)
  then show "pairwise (\<lambda>p q. parallel p q) (set (config_pointers n))"
    by (auto simp: pairwise_def sorted_wrt_iff_nth_less in_set_conv_nth parallel_def) (metis nat_neq_iff)+
  show "distinct (config_pointers n)" unfolding config_pointers_def by simp
qed

lemma assign_all_append: "assign_all lib (xs @ ys) d = assign_all lib ys (assign_all lib xs d)"
  by (simp add: assign_all_def)

lemma config_init_steps:
  assumes laws: "config_laws lib" and "plain n" "at_ptr lib j [''default_printer''] = Some dn" "\<not> is_null lib dn"
    and "as_string lib dn = Some n" "\<forall>p \<in> set (config_pointers n). settable lib j p"
  shows "config_init lib (Some j) cp td = Some (assign_all lib (config_steps lib n cp) j, ''/printers/'' @ n @ ''/'')"
proof -
  have "plain ''default_printer''" by (simp add: plain_def)
  then have ptr: "pointer lib ''/default_printer'' = [''default_printer'']" by (rule pointer_top [OF laws])
  have maps: "map (pointer lib \<circ> fst) (seed_steps lib cp) = take 4 (config_pointers n)"
    using arg_cong [OF config_steps_pointers [OF laws assms(2), of cp], of "take 4"]
    by (simp add: config_steps_def seed_steps_def)
  have sub: "set (map (pointer lib \<circ> fst) (seed_steps lib cp)) \<subseteq> set (config_pointers n)"
    unfolding maps by (rule set_take_subset)
  have "\<forall>e \<in> set (seed_steps lib cp). settable lib j (pointer lib (fst e))"
    using sub assms(6) by auto
  moreover have "pairwise (\<lambda>p q. parallel p q) (set (map (pointer lib \<circ> fst) (seed_steps lib cp)))"
    using config_pointers_parallel(1) sub by (rule pairwise_subset)
  moreover have "distinct (map (pointer lib \<circ> fst) (seed_steps lib cp))"
    unfolding maps using config_pointers_parallel(2) by (rule distinct_take)
  ultimately have "\<forall>(s, f) \<in> set (seed_steps lib cp). at_ptr lib (assign_all lib (seed_steps lib cp) j) (pointer lib s) =
      assigned f (at_ptr lib j (pointer lib s))"
    using assign_all_at [OF laws] by blast
  moreover have "(''/default_printer'', if_missing_null lib) \<in> set (seed_steps lib cp)" by (simp add: seed_steps_def)
  ultimately have "at_ptr lib (assign_all lib (seed_steps lib cp) j) (pointer lib ''/default_printer'') = Some dn"
    using assms(3) by (auto simp: ptr assigned_def if_missing_null_def)
  then show ?thesis
    using assms(4,5) by (simp add: config_init_def config_steps_def assign_all_append Let_def)
qed

lemma truncate_simps [simp]:
  "at_ptr (json_lib.truncate lib) = at_ptr lib" "is_null (json_lib.truncate lib) = is_null lib"
  "is_object (json_lib.truncate lib) = is_object lib" "merge_patch (json_lib.truncate lib) = merge_patch lib"
  "null (json_lib.truncate lib) = null lib"
  by (simp_all add: json_lib.truncate_def)

lemma at_append:
  assumes "config_laws lib"
  shows "at_ptr lib j (p @ q) = (case at_ptr lib j p of None \<Rightarrow> None | Some u \<Rightarrow> at_ptr lib u q)"
proof -
  have laws: "json_laws (json_lib.truncate lib)" using assms by (simp add: config_laws_def)
  show ?thesis
  proof (induction p arbitrary: j)
    case Nil
    show ?case using json_lawsD(3) [OF laws] by simp
  next
    case (Cons k p)
    then show ?case
      using json_lawsD(4) [OF laws, of j k "p @ q"] json_lawsD(4) [OF laws, of j k p] by (simp split: option.split)
  qed
qed

lemma with_cooldown_result:
  assumes "config_laws lib"
  shows "\<exists>m. assigned (with_cooldown lib) old = Some m \<and> \<not> is_null lib m \<and>
    (\<forall>u. old = Some u \<longrightarrow> is_object lib u \<longrightarrow>
      at_ptr lib m [''cooldown''] \<noteq> None \<and> (\<forall>k. k \<noteq> ''cooldown'' \<longrightarrow> at_ptr lib m [k] = at_ptr lib u [k]))"
proof -
  have laws: "json_laws (json_lib.truncate lib)" using assms by (simp add: config_laws_def)
  let ?c = "of_lit lib cooldown_conf"
  have c: "is_object lib ?c" "\<And>k. k \<noteq> ''cooldown'' \<Longrightarrow> at_ptr lib ?c [k] = None"
    "\<exists>x. at_ptr lib ?c [''cooldown''] = Some x \<and> \<not> is_null lib x"
    using assms by (simp_all add: config_laws_def cooldown_conf_def)
  note m = merged_member [OF laws, unfolded truncate_simps, OF c(1)]
  have merged: "is_object lib (merge_patch lib t ?c)"
    "is_object lib t \<Longrightarrow> k \<noteq> ''cooldown'' \<Longrightarrow> at_ptr lib (merge_patch lib t ?c) [k] = at_ptr lib t [k]"
    "at_ptr lib (merge_patch lib t ?c) [''cooldown''] \<noteq> None" for t k
    using json_lawsD(6) [OF laws, unfolded truncate_simps, OF c(1)] c(2,3) by (auto simp: m Let_def)
  have nonnull: "\<not> is_null lib (merge_patch lib t (of_lit lib cooldown_conf))" for t
    using merged(1) json_lawsD(1) [OF laws] by auto
  have "is_object lib u \<Longrightarrow> \<not> is_null lib u" for u using json_lawsD(1) [OF laws] by auto
  with merged nonnull show ?thesis
    by (auto simp: with_cooldown_def assigned_def Let_def split: option.split)
qed

lemma step_kinds:
  assumes "(s, f) \<in> set (config_steps lib n cp)"
  shows "f \<in> range (if_absent lib) \<or> (f = with_cooldown lib \<and> s = (''/printers/'' @ n @ ''/'') @ ''default_macros'') \<or>
    (s = ''/config_path'' \<and> f = (\<lambda>old. Some (of_lit lib (LStr cp)))) \<or> (s = ''/default_printer'' \<and> f = if_missing_null lib)"
proof -
  have "list_all (\<lambda>(s, f). f \<in> range (if_absent lib) \<or>
      (f = with_cooldown lib \<and> s = (''/printers/'' @ n @ ''/'') @ ''default_macros'') \<or>
      (s = ''/config_path'' \<and> f = (\<lambda>old. Some (of_lit lib (LStr cp)))) \<or> (s = ''/default_printer'' \<and> f = if_missing_null lib))
    (config_steps lib n cp)"
    unfolding config_steps_def seed_steps_def printer_steps_def screen_steps_def by (simp add: rangeI)
  with assms show ?thesis by (auto simp only: list_all_iff)
qed

lemma step_value:
  assumes laws: "config_laws lib" and "(s, f) \<in> set (config_steps lib n cp)"
    and "s = ''/default_printer'' \<Longrightarrow> \<exists>v. old = Some v \<and> \<not> is_null lib v"
  shows "\<exists>v. assigned f old = Some v \<and> \<not> is_null lib v"
    "old = Some v \<Longrightarrow> \<not> is_null lib v \<Longrightarrow> s \<noteq> ''/config_path'' \<Longrightarrow>
      s \<noteq> (''/printers/'' @ n @ ''/'') @ ''default_macros'' \<Longrightarrow> assigned f old = Some v"
proof -
  note lit = config_lawsD(5) [OF laws]
  from step_kinds [OF assms(2)] show "\<exists>v. assigned f old = Some v \<and> \<not> is_null lib v"
  proof (elim disjE rangeE conjE)
    fix v assume "f = if_absent lib v"
    then show ?thesis using lit by (auto simp: assigned_def if_absent_def split: option.split)
  next
    assume "f = with_cooldown lib"
    then show ?thesis using with_cooldown_result [OF laws, of old] by blast
  qed (use lit assms(3) in \<open>auto simp: assigned_def if_missing_null_def\<close>)
  assume "old = Some v" "\<not> is_null lib v" "s \<noteq> ''/config_path''" "s \<noteq> (''/printers/'' @ n @ ''/'') @ ''default_macros''"
  with step_kinds [OF assms(2)] have "f \<in> range (if_absent lib) \<or> f = if_missing_null lib" by blast
  with \<open>old = Some v\<close> \<open>\<not> is_null lib v\<close> show "assigned f old = Some v"
    by (auto simp: assigned_def if_absent_def if_missing_null_def)
qed

section \<open>Properties\<close>


text \<open>Values, assignment and pointers that keep the laws.\<close>

fun sample_set :: "'a sample \<Rightarrow> string list \<Rightarrow> 'a sample \<Rightarrow> 'a sample" where
  "sample_set d [] v = v"
| "sample_set (SObj ms) (k # ks) v =
     SObj (AList.update k (sample_set (case map_of ms k of None \<Rightarrow> SNull | Some u \<Rightarrow> u) ks v) ms)"
| "sample_set SNull (k # ks) v = SObj [(k, sample_set SNull ks v)]"
| "sample_set (SNum n) (k # ks) v = SObj [(k, sample_set SNull ks v)]"

primrec sample_lit :: "lit \<Rightarrow> lit sample" where
  "sample_lit (LBool b) = SNum (LBool b)"
| "sample_lit (LInt i) = SNum (LInt i)"
| "sample_lit (LStr s) = SNum (LStr s)"
| "sample_lit (LList ls) = SNum (LList ls)"
| "sample_lit (LObj ms) = SObj (map (map_prod id sample_lit) ms)"

fun sample_keys :: "string \<Rightarrow> string list" where
  "sample_keys [] = [[]]"
| "sample_keys (c # cs) =
     (if c = CHR ''/'' then [] # sample_keys cs
      else case sample_keys cs of [] \<Rightarrow> [[c]] | k # ks \<Rightarrow> (c # k) # ks)"

definition sample_string :: "lit sample \<Rightarrow> string option" where
  "sample_string j = (case j of SNum (LStr s) \<Rightarrow> Some s | _ \<Rightarrow> None)"

definition sample_config :: "lit sample config_lib" where
  "sample_config = \<lparr>null = SNull, is_null = (\<lambda>j. j = SNull), is_object = sample_object,
     is_empty = (\<lambda>j. j = SNull \<or> j = SObj []), at_ptr = sample_at, index_ptr = (\<lambda>j ks. j),
     merge_patch = sample_merge, elements = (\<lambda>j. []), as_string = sample_string,
     of_lit = sample_lit, pointer = (\<lambda>s. tl (sample_keys s)), set_ptr = sample_set\<rparr>"

lemma sample_config_simps [simp]:
  "null sample_config = SNull" "is_null sample_config = (\<lambda>j. j = SNull)" "is_object sample_config = sample_object"
  "at_ptr sample_config = sample_at" "merge_patch sample_config = sample_merge" "as_string sample_config = sample_string"
  "of_lit sample_config = sample_lit" "pointer sample_config = (\<lambda>s. tl (sample_keys s))" "set_ptr sample_config = sample_set"
  by (simp_all add: sample_config_def)

lemma sample_set_here: "sample_at (sample_set d p v) p = Some v"
  by (induction d p v rule: sample_set.induct) (auto simp: update_conv')

lemma sample_set_above: "strict_prefix q p \<Longrightarrow> \<exists>x. sample_at (sample_set d p v) q = Some x \<and> sample_object x"
proof (induction d p v arbitrary: q rule: sample_set.induct)
  case (2 ms k ks v)
  then show ?case by (cases q) (auto simp: sample_object_def update_conv')
next
  case (3 k ks v)
  then show ?case by (cases q) (auto simp: sample_object_def)
next
  case (4 n k ks v)
  then show ?case by (cases q) (auto simp: sample_object_def)
qed simp

lemma settable_take:
  "settable lib d p \<longleftrightarrow>
     list_all (\<lambda>i. case at_ptr lib d (take i p) of None \<Rightarrow> True | Some x \<Rightarrow> is_object lib x \<or> is_null lib x) [0..<length p]"
proof -
  have "\<exists>i < length p. q = take i p" if "strict_prefix q p" for q
    using that by (intro exI [of _ "length q"]) (auto simp: strict_prefix_def prefix_def)
  moreover have "strict_prefix (take i p) p" if "i < length p" for i
    using that take_is_prefix [of i p] by (auto simp: strict_prefix_def dest: arg_cong [where f = length])
  ultimately show ?thesis by (fastforce simp: settable_def list_all_iff split: option.splits)
qed

lemma sample_set_beside:
  "settable sample_config d p \<Longrightarrow> parallel p q \<Longrightarrow> sample_at (sample_set d p v) q = sample_at d q"
proof (induction p arbitrary: d q)
  case (Cons k ks)
  then obtain k' qs where q: "q = k' # qs" by (cases q) auto
  have d: "sample_object d \<or> d = SNull"
    using Cons.prems(1) [unfolded settable_def, rule_format, of "[]" d] by simp
  let ?u = "case d of SObj ms \<Rightarrow> (case map_of ms k of None \<Rightarrow> SNull | Some u \<Rightarrow> u) | _ \<Rightarrow> SNull"
  have "settable sample_config ?u ks"
    unfolding settable_take sample_config_simps list_all_iff
  proof
    fix i assume "i \<in> set [0..<length ks]"
    then have "Suc i \<in> set [0..<length (k # ks)]" by auto
    from bspec [OF Cons.prems(1) [unfolded settable_take sample_config_simps list_all_iff] this, unfolded take_Suc_Cons]
    have "case sample_at d (k # take i ks) of None \<Rightarrow> True | Some x \<Rightarrow> sample_object x \<or> x = SNull" .
    then show "case sample_at ?u (take i ks) of None \<Rightarrow> True | Some x \<Rightarrow> sample_object x \<or> x = SNull"
      by (cases d; cases "take i ks") (auto split: option.splits)
  qed
  then have IH: "sample_at (sample_set ?u ks v) qs = sample_at ?u qs" if "k' = k"
    using Cons.IH Cons.prems(2) that by (auto simp: q parallel_def)
  have "qs \<noteq> []" if "k' = k" using Cons.prems(2) that by (cases qs) (auto simp: q parallel_def)
  then have nil: "sample_at SNull qs = None" if "k' = k" using that by (cases qs) auto
  show ?case
    using d IH nil by (cases d) (auto simp: q update_conv' sample_object_def split: option.splits)
qed (simp add: parallel_def)

lemma sample_keys_concat:
  "list_all plain ks \<Longrightarrow> sample_keys (concat (map (\<lambda>k. CHR ''/'' # k) ks)) = [] # ks"
proof (induction ks)
  case (Cons k ks)
  have "sample_keys (k @ s) = (k @ hd (sample_keys s)) # tl (sample_keys s)" if "plain k" for k s
    using that by (induction k) (auto simp: plain_def split: list.split, (cases s; auto split: list.splits)+)
  with Cons show ?case by simp
qed simp

lemma json_laws_as_string: "json_laws (lib\<lparr>as_string := f\<rparr>) = json_laws lib"
  by (simp add: json_laws_def Let_def cong: option.case_cong if_cong)

lemma sample_config_laws: "config_laws sample_config"
proof -
  have trunc: "json_lib.truncate sample_config = sample_lib\<lparr>as_string := sample_string\<rparr>"
    by (simp add: json_lib.truncate_def sample_config_def sample_lib_def sample_object_def fun_eq_iff)
  have json: "json_laws (json_lib.truncate sample_config)"
    unfolding trunc json_laws_as_string by (rule sample_laws)
  have nonnull: "sample_lit v \<noteq> SNull" for v by (cases v) simp_all
  have members: "map_of (map (map_prod id sample_lit) ms) k = map_option sample_lit (map_of ms k)" for ms k
    by (induction ms) auto
  show ?thesis
    unfolding config_laws_def
    using json sample_set_here sample_set_beside sample_set_above sample_keys_concat nonnull
    by (auto simp: sample_object_def members split: option.split)
qed


end
