(* ===== verification/Prompt_Panel.thy ===== *)
theory Prompt_Panel
  imports Printer_State WebSocket_Client
begin

text \<open>
  \<open>PromptPanel\<close> (\<open>src/src/prompt_panel.cpp\<close>): a macro of the printer asks the user something by
  a sequence of gcode responses, which build the prompt piece by piece.

  LVGL is the list of calls made to it, reduced to those that decide what there is to see: objects
  made, emptied and labelled, and the panel moved to the front and to the back; sizes and
  alignment are left out. Objects made at run time are numbered in the order of their creation.
\<close>

section \<open>Objects and calls\<close>

datatype lv_obj = Header | Flex | Footer | Made nat

datatype btn_style = Grey | Orange | Red | Blue | DarkGrey

datatype lv_call =
    Clean lv_obj \<comment> \<open>\<open>lv_obj_clean\<close>\<close>
  | NewLabel lv_obj nat \<comment> \<open>\<open>lv_label_create(parent)\<close>, and the object made\<close>
  | NewGroup lv_obj nat \<comment> \<open>\<open>lv_obj_create(parent)\<close>\<close>
  | NewBtn lv_obj nat \<comment> \<open>\<open>lv_btn_create(parent)\<close>\<close>
  | SetText lv_obj string \<comment> \<open>\<open>lv_label_set_text\<close>\<close>
  | AddStyle lv_obj btn_style
  | MoveForeground
  | MoveBackground

text \<open>
  \<open>button_group_cont\<close>: the constructor does not set it, so its first value is
  \<open>Indeterminate\<close>.
\<close>

datatype group_ptr = Indeterminate | NULL | Group nat

record prompt =
  button_group_cont :: group_ptr
  next_obj :: nat

datatype reaction =
    Reacted prompt "lv_call list"
  | Threw \<comment> \<open>before any change\<close>
  | Undefined \<comment> \<open>the indeterminate pointer is used\<close>

section \<open>Strings\<close>

fun find_str :: "string \<Rightarrow> string \<Rightarrow> nat option" where
  "find_str pat [] = (if pat = [] then Some 0 else None)"
| "find_str pat (c # cs) = (if prefix pat (c # cs) then Some 0 else map_option Suc (find_str pat cs))"

text \<open>\<open>s.find(pat, pos)\<close> as an \<open>int\<close>, where \<open>npos\<close> becomes -1.\<close>

definition find_int :: "string \<Rightarrow> string \<Rightarrow> int \<Rightarrow> int" where
  "find_int pat s pos =
     (case find_str pat (drop (nat pos) s) of None \<Rightarrow> -1 | Some i \<Rightarrow> pos + int i)"

text \<open>
  \<open>s.substr(pos, n)\<close>, which throws when \<open>pos\<close> is behind the end. A negative argument becomes
  a huge \<open>size_t\<close>.
\<close>

definition substr :: "string \<Rightarrow> int \<Rightarrow> int \<Rightarrow> string option" where
  "substr s pos n =
     (if pos < 0 \<or> int (length s) < pos then None
      else if n < 0 then Some (drop (nat pos) s) else Some (take (nat n) (drop (nat pos) s)))"

definition c_str :: "string \<Rightarrow> string" where
  "c_str s = takeWhile (\<lambda>c. c \<noteq> CHR 0x00) s"

section \<open>Buttons\<close>

text \<open>Label, command and type of a button.\<close>

definition button_fields :: "string \<Rightarrow> (string \<times> string \<times> string) option" where
  "button_fields command =
     (let index_label = find_int ''button'' command 0 + 6;
          index_first = find_int ''|'' command index_label;
          index_second = find_int ''|'' command (index_first + 1)
      in case substr command index_label (index_first - index_label) of
           None \<Rightarrow> None
         | Some label \<Rightarrow>
             if index_second > 0 then
               (case (substr command (index_first + 1) (index_second - index_first - 1),
                      substr command (index_second + 1) (int (length command) - index_second - 1)) of
                  (Some cmd, Some ty) \<Rightarrow> Some (label, cmd, ty)
                | _ \<Rightarrow> None)
             else (case substr command (index_first + 1) (-1) of
                     None \<Rightarrow> None
                   | Some cmd \<Rightarrow> Some (label, cmd, ''none'')))"

definition button_style :: "string \<Rightarrow> btn_style" where
  "button_style ty =
     (if ty = ''secondary'' then Grey
      else if ty = ''warning'' then Orange
      else if ty = ''error'' then Red
      else if ty = ''info'' then Blue
      else if ty = ''primary'' then Blue
      else DarkGrey)"

text \<open>The button with its label and a hidden label that holds the command.\<close>

definition new_button :: "lv_obj \<Rightarrow> string \<times> string \<times> string \<Rightarrow> nat \<Rightarrow> lv_call list" where
  "new_button parent b n =
     (case b of (label, cmd, ty) \<Rightarrow>
        [NewBtn parent n, NewLabel (Made n) (n + 1), NewLabel (Made n) (n + 2),
         SetText (Made (n + 1)) (c_str label), SetText (Made (n + 2)) (c_str cmd),
         AddStyle (Made n) (button_style ty)])"

definition add_button :: "string \<Rightarrow> prompt \<Rightarrow> reaction" where
  "add_button command p =
     (case button_fields command of
        None \<Rightarrow> Threw
      | Some b \<Rightarrow>
          let made = (\<lambda>parent. Reacted (p\<lparr>next_obj := next_obj p + 3\<rparr>) (new_button parent b (next_obj p)))
          in if prefix ''prompt_footer_button'' command then made Footer
             else case button_group_cont p of
                    NULL \<Rightarrow> made Flex
                  | Group g \<Rightarrow> made (Made g)
                  | Indeterminate \<Rightarrow> Undefined)"

section \<open>Responses\<close>

definition action :: "string \<Rightarrow> prompt \<Rightarrow> reaction" where
  "action command p =
     (if prefix ''prompt_begin'' command then
        (case substr command 13 (-1) of
           None \<Rightarrow> Threw
         | Some prompt_header \<Rightarrow>
             Reacted p [Clean Footer, Clean Flex, SetText Header (c_str prompt_header)])
      else if prefix ''prompt_text'' command then
        (case substr command 12 (-1) of
           None \<Rightarrow> Threw
         | Some prompt_text \<Rightarrow>
             Reacted (p\<lparr>next_obj := next_obj p + 1\<rparr>)
               [NewLabel Flex (next_obj p), SetText (Made (next_obj p)) (c_str prompt_text)])
      else if prefix ''prompt_button_group_start'' command then
        Reacted (p\<lparr>next_obj := next_obj p + 1, button_group_cont := Group (next_obj p)\<rparr>)
          [NewGroup Flex (next_obj p)]
      else if prefix ''prompt_button_group_end'' command then
        Reacted (p\<lparr>button_group_cont := NULL\<rparr>) []
      else if prefix ''prompt_footer_button'' command \<or> prefix ''prompt_button'' command then
        add_button command p
      else if prefix ''prompt_show'' command then Reacted p [MoveForeground]
      else if prefix ''prompt_end'' command then Reacted p [MoveBackground, Clean Footer, Clean Flex]
      else Reacted p [])"

definition response :: "string \<Rightarrow> prompt \<Rightarrow> reaction" where
  "response resp p = (if prefix ''// action:'' resp then action (drop 10 resp) p else Reacted p [])"

definition prompt_response :: "'j json_lib \<Rightarrow> 'j \<Rightarrow> prompt \<Rightarrow> reaction" where
  "prompt_response lib j p =
     (case at_ptr lib j [''params'', ''0''] of
        None \<Rightarrow> Reacted p []
      | Some v \<Rightarrow>
          if is_null lib v then Reacted p []
          else case as_string lib v of None \<Rightarrow> Threw | Some resp \<Rightarrow> response resp p)"

text \<open>A press sends the text of the second label, if there is one.\<close>

definition press :: "string option \<Rightarrow> ('h, 'c, 'j) client \<Rightarrow> ('h, 'c, 'j) client" where
  "press command_label cl = (case command_label of None \<Rightarrow> cl | Some cmd \<Rightarrow> gcode_script cmd cl)"

text \<open>A sequence of responses. One that throws is contained by the guard around the handlers.\<close>

fun responses :: "string list \<Rightarrow> prompt \<Rightarrow> (prompt \<times> lv_call list) option" where
  "responses [] p = Some (p, [])"
| "responses (r # rs) p =
     (case response r p of
        Undefined \<Rightarrow> None
      | Threw \<Rightarrow> responses rs p
      | Reacted p1 cs \<Rightarrow> map_option (\<lambda>(p2, ds). (p2, cs @ ds)) (responses rs p1))"

section \<open>Prompts\<close>

text \<open>
  A prompt as the macro means it: its texts, its buttons and groups of buttons, and the buttons of
  the footer. A button has a label, and may have a command and a type.
\<close>

datatype button = Label string | Command string string | Typed string string string

datatype item = Text string | Single button | Buttons "button list"

fun button_text :: "button \<Rightarrow> string" where
  "button_text (Label l) = '' '' @ l"
| "button_text (Command l c) = '' '' @ l @ ''|'' @ c"
| "button_text (Typed l c ty) = '' '' @ l @ ''|'' @ c @ ''|'' @ ty"

fun item_script :: "item \<Rightarrow> string list" where
  "item_script (Text s) = [''// action:prompt_text '' @ s]"
| "item_script (Single b) = [''// action:prompt_button'' @ button_text b]"
| "item_script (Buttons bs) =
     [''// action:prompt_button_group_start''] @ map (\<lambda>b. ''// action:prompt_button'' @ button_text b) bs @
     [''// action:prompt_button_group_end'']"

definition script :: "string \<Rightarrow> item list \<Rightarrow> button list \<Rightarrow> string list" where
  "script title items footer =
     [''// action:prompt_begin '' @ title] @ concat (map item_script items) @
     map (\<lambda>b. ''// action:prompt_footer_button'' @ button_text b) footer @ [''// action:prompt_show'']"

text \<open>A separator ends the label and the command; the type is the rest.\<close>

fun button_ok :: "button \<Rightarrow> bool" where
  "button_ok (Label l) \<longleftrightarrow> CHR ''|'' \<notin> set l"
| "button_ok (Command l c) \<longleftrightarrow> CHR ''|'' \<notin> set l \<and> CHR ''|'' \<notin> set c"
| "button_ok (Typed l c ty) \<longleftrightarrow> CHR ''|'' \<notin> set l \<and> CHR ''|'' \<notin> set c"

fun item_ok :: "item \<Rightarrow> bool" where
  "item_ok (Text s) \<longleftrightarrow> True"
| "item_ok (Single b) \<longleftrightarrow> button_ok b"
| "item_ok (Buttons bs) \<longleftrightarrow> list_all button_ok bs"

text \<open>
  What the button shows and sends. The label keeps the space in front of it. Without a separator
  the command is the whole text of the action.
\<close>

fun button_meaning :: "string \<Rightarrow> button \<Rightarrow> string \<times> string \<times> string" where
  "button_meaning kind (Label l) = ('' '' @ l, kind @ '' '' @ l, ''none'')"
| "button_meaning kind (Command l c) = ('' '' @ l, c, ''none'')"
| "button_meaning kind (Typed l c ty) = ('' '' @ l, c, ty)"

fun buttons_calls :: "string \<Rightarrow> lv_obj \<Rightarrow> button list \<Rightarrow> nat \<Rightarrow> lv_call list" where
  "buttons_calls kind parent [] n = []"
| "buttons_calls kind parent (b # bs) n =
     new_button parent (button_meaning kind b) n @ buttons_calls kind parent bs (n + 3)"

fun item_calls :: "item \<Rightarrow> nat \<Rightarrow> lv_call list" where
  "item_calls (Text s) n = [NewLabel Flex n, SetText (Made n) (c_str s)]"
| "item_calls (Single b) n = buttons_calls ''prompt_button'' Flex [b] n"
| "item_calls (Buttons bs) n = NewGroup Flex n # buttons_calls ''prompt_button'' (Made n) bs (n + 1)"

fun item_objs :: "item \<Rightarrow> nat" where
  "item_objs (Text s) = 1"
| "item_objs (Single b) = 3"
| "item_objs (Buttons bs) = 1 + 3 * length bs"

fun items_calls :: "item list \<Rightarrow> nat \<Rightarrow> lv_call list" where
  "items_calls [] n = []"
| "items_calls (i # is) n = item_calls i n @ items_calls is (n + item_objs i)"

section \<open>The fields of a button\<close>

lemma find_bar: "CHR ''|'' \<notin> set l \<Longrightarrow> find_str ''|'' (l @ CHR ''|'' # r) = Some (length l)"
  by (induction l) auto

lemma find_bar_none: "CHR ''|'' \<notin> set l \<Longrightarrow> find_str ''|'' l = None"
  by (induction l) auto

lemma find_str_length: "find_str pat s = Some i \<Longrightarrow> i + length pat \<le> length s"
  by (induction s arbitrary: i) (auto split: if_splits dest: prefix_length_le)

lemma find_int_in:
  "find_int pat (kind @ s) (int (length kind + k)) =
     (case find_str pat (drop k s) of None \<Rightarrow> -1 | Some i \<Rightarrow> int (length kind + k + i))"
  by (simp add: find_int_def nat_int_add split: option.split)

lemma substr_in:
  "k \<le> length s \<Longrightarrow> substr (kind @ s) (int (length kind + k)) n =
     Some (if n < 0 then drop k s else take (nat n) (drop k s))"
  by (simp add: substr_def nat_int_add)

text \<open>The cases of \<open>button_fields\<close> on the part \<open>s\<close> behind the word \<open>button\<close>.\<close>

lemma button_fields_cases:
  assumes kind: "find_int ''button'' (kind @ s) 0 + 6 = int (length kind)" "CHR ''|'' \<notin> set kind"
  shows "CHR ''|'' \<notin> set s \<Longrightarrow> button_fields (kind @ s) = Some (s, kind @ s, ''none'')"
    "find_str ''|'' s = Some i \<Longrightarrow> find_str ''|'' (drop (i + 1) s) = None \<Longrightarrow>
       button_fields (kind @ s) = Some (take i s, drop (i + 1) s, ''none'')"
    "find_str ''|'' s = Some i \<Longrightarrow> find_str ''|'' (drop (i + 1) s) = Some k \<Longrightarrow>
       button_fields (kind @ s) = Some (take i s, take k (drop (i + 1) s), drop (i + k + 2) s)"
proof -
  assume "CHR ''|'' \<notin> set s"
  then have "find_int ''|'' (kind @ s) (int (length kind)) = -1" "find_int ''|'' (kind @ s) 0 = -1"
    using kind(2) find_int_in [of "''|''" kind s 0] by (simp_all add: find_int_def find_bar_none)
  then show "button_fields (kind @ s) = Some (s, kind @ s, ''none'')"
    using kind(1) substr_in [of 0 s kind] by (simp add: button_fields_def substr_def)
next
  assume i: "find_str ''|'' s = Some i"
  then have le: "i + 1 \<le> length s" using find_str_length by fastforce
  have first: "find_int ''|'' (kind @ s) (int (length kind)) = int (length kind + i)"
    using find_int_in [of "''|''" kind s 0] i by simp
  have label: "substr (kind @ s) (int (length kind)) (int (length kind + i) - int (length kind)) = Some (take i s)"
    using substr_in [of 0 s kind] by simp
  have pos: "int (length kind + i) + 1 = int (length kind + (i + 1))" by simp
  {
    assume none: "find_str ''|'' (drop (i + 1) s) = None"
    have "find_int ''|'' (kind @ s) (int (length kind + (i + 1))) = -1"
      unfolding find_int_in none by simp
    with first label kind(1) substr_in [OF le, of kind "-1"]
    show "button_fields (kind @ s) = Some (take i s, drop (i + 1) s, ''none'')"
      unfolding button_fields_def Let_def by (simp only: pos) simp
  next
    assume k: "find_str ''|'' (drop (i + 1) s) = Some k"
    have second: "find_int ''|'' (kind @ s) (int (length kind + (i + 1))) = int (length kind + (i + 1) + k)"
      unfolding find_int_in k by simp
    have le2: "i + k + 2 \<le> length s" using find_str_length [OF k] le by simp
    have cmd: "substr (kind @ s) (int (length kind + (i + 1))) (int (length kind + (i + 1) + k) - int (length kind + i) - 1) =
        Some (take k (drop (i + 1) s))"
      unfolding substr_in [OF le] by simp
    have pos2: "int (length kind + (i + 1) + k) + 1 = int (length kind + (i + k + 2))" by simp
    have ty: "substr (kind @ s) (int (length kind + (i + k + 2))) (int (length (kind @ s)) - int (length kind + (i + 1) + k) - 1) =
        Some (drop (i + k + 2) s)"
      unfolding substr_in [OF le2] using le2 by simp
    show "button_fields (kind @ s) = Some (take i s, take k (drop (i + 1) s), drop (i + k + 2) s)"
      unfolding button_fields_def Let_def kind(1) first pos second pos2 label cmd ty by simp
  }
qed

lemma button_fields_meaning:
  assumes "kind = ''prompt_button'' \<or> kind = ''prompt_footer_button''" "button_ok b"
  shows "button_fields (kind @ button_text b) = Some (button_meaning kind b)"
proof -
  have "find_int ''button'' (kind @ button_text b) 0 + 6 = int (length kind)" "CHR ''|'' \<notin> set kind"
    using assms(1) by (auto simp: find_int_def)
  note fields = button_fields_cases [OF this]
  show ?thesis
  proof (cases b)
    case (Label l)
    with fields(1) assms(2) show ?thesis by simp
  next
    case (Command l c)
    with fields(2) [of "length l + 1"] assms(2) find_bar [of "'' '' @ l" c] show ?thesis
      by (simp add: find_bar_none)
  next
    case (Typed l c ty)
    with fields(3) [of "length l + 1" "length c"] assms(2) find_bar [of "'' '' @ l" "c @ ''|'' @ ty"] find_bar [of c ty]
    show ?thesis by simp
  qed
qed

section \<open>What the script builds\<close>

fun group_parent :: "group_ptr \<Rightarrow> lv_obj option" where
  "group_parent Indeterminate = None"
| "group_parent NULL = Some Flex"
| "group_parent (Group g) = Some (Made g)"

lemma response_action: "response (''// action:'' @ command) p = action command p"
  by (simp add: response_def)

lemma action_button:
  assumes "kind = ''prompt_button'' \<or> kind = ''prompt_footer_button''"
  shows "action (kind @ button_text b) p = add_button (kind @ button_text b) p"
proof -
  have "\<not> prefix ''prompt_begin'' (kind @ button_text b)" "\<not> prefix ''prompt_text'' (kind @ button_text b)"
    "\<not> prefix ''prompt_button_group_start'' (kind @ button_text b)"
    "\<not> prefix ''prompt_button_group_end'' (kind @ button_text b)"
    "prefix ''prompt_footer_button'' (kind @ button_text b) \<or> prefix ''prompt_button'' (kind @ button_text b)"
    using assms by (cases b; force)+
  then show ?thesis unfolding action_def by (simp only: if_True if_False simp_thms)
qed

lemma response_button:
  assumes "button_ok b" "group_parent (button_group_cont p) = Some parent"
  shows "response (''// action:prompt_button'' @ button_text b) p =
    Reacted (p\<lparr>next_obj := next_obj p + 3\<rparr>) (new_button parent (button_meaning ''prompt_button'' b) (next_obj p))"
proof -
  let ?c = "''prompt_button'' @ button_text b"
  have "button_fields ?c = Some (button_meaning ''prompt_button'' b)" "action ?c p = add_button ?c p"
    "\<not> prefix ''prompt_footer_button'' ?c"
    using button_fields_meaning [of "''prompt_button''"] action_button [of "''prompt_button''"] assms(1) by simp_all
  moreover have "response (''// action:prompt_button'' @ button_text b) p = action ?c p"
    using response_action [of ?c] by simp
  ultimately show ?thesis
    using assms(2) by (cases "button_group_cont p") (simp_all only: add_button_def Let_def option.case group_ptr.case if_False group_parent.simps option.inject simp_thms option.distinct)
qed

lemma response_footer:
  assumes "button_ok b"
  shows "response (''// action:prompt_footer_button'' @ button_text b) p =
    Reacted (p\<lparr>next_obj := next_obj p + 3\<rparr>) (new_button Footer (button_meaning ''prompt_footer_button'' b) (next_obj p))"
proof -
  let ?c = "''prompt_footer_button'' @ button_text b"
  have "button_fields ?c = Some (button_meaning ''prompt_footer_button'' b)" "action ?c p = add_button ?c p"
    "prefix ''prompt_footer_button'' ?c"
    using button_fields_meaning [of "''prompt_footer_button''"] action_button [of "''prompt_footer_button''"] assms(1) by simp_all
  moreover have "response (''// action:prompt_footer_button'' @ button_text b) p = action ?c p"
    using response_action [of ?c] by simp
  ultimately show ?thesis by (simp only: add_button_def Let_def option.case if_True)
qed

lemma responses_append:
  "responses (rs @ rs') p =
     (case responses rs p of
        None \<Rightarrow> None
      | Some (q, cs) \<Rightarrow> map_option (\<lambda>(r, ds). (r, cs @ ds)) (responses rs' q))"
  by (induction rs arbitrary: p)
    (auto split: reaction.split option.split simp: map_option_case)

lemma responses_buttons:
  assumes "list_all button_ok bs" "group_parent (button_group_cont p) = Some parent"
  shows "responses (map (\<lambda>b. ''// action:prompt_button'' @ button_text b) bs) p =
    Some (p\<lparr>next_obj := next_obj p + 3 * length bs\<rparr>, buttons_calls ''prompt_button'' parent bs (next_obj p))"
  using assms
proof (induction bs arbitrary: p)
  case (Cons b bs)
  have "responses (map (\<lambda>b. ''// action:prompt_button'' @ button_text b) bs) (p\<lparr>next_obj := next_obj p + 3\<rparr>) =
    Some (p\<lparr>next_obj := next_obj p + 3 + 3 * length bs\<rparr>, buttons_calls ''prompt_button'' parent bs (next_obj p + 3))"
    using Cons.IH [of "p\<lparr>next_obj := next_obj p + 3\<rparr>"] Cons.prems by simp
  moreover have "button_ok b" using Cons.prems by simp
  ultimately show ?case
    unfolding list.map responses.simps response_button [OF \<open>button_ok b\<close> Cons.prems(2)] by simp
qed simp

lemma responses_footer:
  assumes "list_all button_ok bs"
  shows "responses (map (\<lambda>b. ''// action:prompt_footer_button'' @ button_text b) bs) p =
    Some (p\<lparr>next_obj := next_obj p + 3 * length bs\<rparr>, buttons_calls ''prompt_footer_button'' Footer bs (next_obj p))"
  using assms
proof (induction bs arbitrary: p)
  case (Cons b bs)
  have "responses (map (\<lambda>b. ''// action:prompt_footer_button'' @ button_text b) bs) (p\<lparr>next_obj := next_obj p + 3\<rparr>) =
    Some (p\<lparr>next_obj := next_obj p + 3 + 3 * length bs\<rparr>, buttons_calls ''prompt_footer_button'' Footer bs (next_obj p + 3))"
    using Cons.IH [of "p\<lparr>next_obj := next_obj p + 3\<rparr>"] Cons.prems by simp
  moreover have "button_ok b" using Cons.prems by simp
  ultimately show ?case
    unfolding list.map responses.simps response_footer [OF \<open>button_ok b\<close>] by simp
qed simp

lemma response_marks:
  "response (''// action:prompt_begin '' @ s) p = Reacted p [Clean Footer, Clean Flex, SetText Header (c_str s)]"
  "response (''// action:prompt_text '' @ s) p =
     Reacted (p\<lparr>next_obj := next_obj p + 1\<rparr>) [NewLabel Flex (next_obj p), SetText (Made (next_obj p)) (c_str s)]"
  "response ''// action:prompt_button_group_start'' p =
     Reacted (p\<lparr>next_obj := next_obj p + 1, button_group_cont := Group (next_obj p)\<rparr>) [NewGroup Flex (next_obj p)]"
  "response ''// action:prompt_button_group_end'' p = Reacted (p\<lparr>button_group_cont := NULL\<rparr>) []"
  "response ''// action:prompt_show'' p = Reacted p [MoveForeground]"
  by (simp_all add: response_def action_def substr_def)

lemma responses_item:
  assumes "item_ok i" "button_group_cont p = NULL"
  shows "responses (item_script i) p = Some (p\<lparr>next_obj := next_obj p + item_objs i\<rparr>, item_calls i (next_obj p))"
proof (cases i)
  case (Text s)
  show ?thesis unfolding Text item_script.simps responses.simps response_marks by simp
next
  case (Single b)
  have "list_all button_ok [b]" "group_parent (button_group_cont p) = Some Flex" using assms Single by simp_all
  from responses_buttons [OF this] show ?thesis by (simp add: Single)
next
  case (Buttons bs)
  let ?p = "p\<lparr>next_obj := next_obj p + 1, button_group_cont := Group (next_obj p)\<rparr>"
  have bs: "list_all button_ok bs" "group_parent (button_group_cont ?p) = Some (Made (next_obj p))"
    using assms Buttons by simp_all
  have "p\<lparr>next_obj := k, button_group_cont := NULL\<rparr> = p\<lparr>next_obj := k\<rparr>" for k
    using assms(2) by (cases p) simp
  with responses_buttons [OF bs] show ?thesis
    unfolding Buttons item_script.simps append_Cons append_Nil responses.simps response_marks responses_append
    by simp
qed

lemma responses_items:
  assumes "list_all item_ok is" "button_group_cont p = NULL"
  shows "responses (concat (map item_script is)) p =
    Some (p\<lparr>next_obj := next_obj p + sum_list (map item_objs is)\<rparr>, items_calls is (next_obj p))"
  using assms
proof (induction "is" arbitrary: p)
  case (Cons i "is")
  have "responses (item_script i) p = Some (p\<lparr>next_obj := next_obj p + item_objs i\<rparr>, item_calls i (next_obj p))"
    using responses_item [of i p] Cons.prems by simp
  with Cons.IH [of "p\<lparr>next_obj := next_obj p + item_objs i\<rparr>"] Cons.prems show ?case
    by (simp add: responses_append add.assoc)
qed simp



section \<open>Objects that are gone\<close>

text \<open>
  The objects that exist, each with the objects above it: \<open>lv_obj_clean\<close> deletes everything
  below an object. A call is in order when the objects it names exist.
\<close>

type_synonym lv_tree = "nat \<rightharpoonup> lv_obj list"

fun above :: "lv_tree \<Rightarrow> lv_obj \<Rightarrow> lv_obj list" where
  "above m (Made k) = (case m k of None \<Rightarrow> [] | Some as \<Rightarrow> as)"
| "above m x = []"

fun alive :: "lv_tree \<Rightarrow> lv_obj \<Rightarrow> bool" where
  "alive m (Made k) \<longleftrightarrow> m k \<noteq> None"
| "alive m x \<longleftrightarrow> True"

fun lv_step :: "lv_call \<Rightarrow> lv_tree \<Rightarrow> lv_tree" where
  "lv_step (Clean x) m = (\<lambda>k. case m k of None \<Rightarrow> None | Some as \<Rightarrow> if x \<in> set as then None else Some as)"
| "lv_step (NewLabel x k) m = m(k \<mapsto> x # above m x)"
| "lv_step (NewGroup x k) m = m(k \<mapsto> x # above m x)"
| "lv_step (NewBtn x k) m = m(k \<mapsto> x # above m x)"
| "lv_step c m = m"

fun call_ok :: "lv_tree \<Rightarrow> lv_call \<Rightarrow> bool" where
  "call_ok m (Clean x) \<longleftrightarrow> alive m x"
| "call_ok m (NewLabel x k) \<longleftrightarrow> alive m x"
| "call_ok m (NewGroup x k) \<longleftrightarrow> alive m x"
| "call_ok m (NewBtn x k) \<longleftrightarrow> alive m x"
| "call_ok m (SetText x s) \<longleftrightarrow> alive m x"
| "call_ok m (AddStyle x s) \<longleftrightarrow> alive m x"
| "call_ok m c \<longleftrightarrow> True"

fun calls_ok :: "lv_tree \<Rightarrow> lv_call list \<Rightarrow> bool" where
  "calls_ok m [] \<longleftrightarrow> True"
| "calls_ok m (c # cs) \<longleftrightarrow> call_ok m c \<and> calls_ok (lv_step c m) cs"

lemma calls_ok_append: "calls_ok m (cs @ ds) \<longleftrightarrow> calls_ok m cs \<and> calls_ok (fold lv_step cs m) ds"
  by (induction cs arbitrary: m) auto

text \<open>
  What the panel expects of the responses: a button outside of the footer comes after a mark that
  starts or ends a group (\<open>None\<close> before the first one), and a prompt begins and ends outside of
  a group.
\<close>

fun bracketed :: "bool option \<Rightarrow> string list \<Rightarrow> bool" where
  "bracketed grp [] \<longleftrightarrow> True"
| "bracketed grp (r # rs) \<longleftrightarrow>
     (if \<not> prefix ''// action:'' r then bracketed grp rs
      else let c = drop 10 r in
        if prefix ''prompt_begin'' c \<or> prefix ''prompt_end'' c then grp \<noteq> Some True \<and> bracketed grp rs
        else if prefix ''prompt_button_group_start'' c then bracketed (Some True) rs
        else if prefix ''prompt_button_group_end'' c then bracketed (Some False) rs
        else if prefix ''prompt_button'' c then grp \<noteq> None \<and> bracketed grp rs
        else bracketed grp rs)"

text \<open>An open group exists, directly on the panel.\<close>

fun group_ok :: "lv_tree \<Rightarrow> nat \<Rightarrow> bool option \<Rightarrow> group_ptr \<Rightarrow> bool" where
  "group_ok m n grp Indeterminate \<longleftrightarrow> grp = None"
| "group_ok m n grp NULL \<longleftrightarrow> grp = Some False"
| "group_ok m n grp (Group g) \<longleftrightarrow> grp = Some True \<and> g < n \<and> m g = Some [Flex]"

abbreviation panel_ok :: "lv_tree \<Rightarrow> bool option \<Rightarrow> prompt \<Rightarrow> bool" where
  "panel_ok m grp p \<equiv> group_ok m (next_obj p) grp (button_group_cont p)"

lemma group_ok_more:
  assumes "group_ok m n grp g" "\<And>k. k < n \<Longrightarrow> m' k = m k" "n \<le> n'"
  shows "group_ok m' n' grp g"
  using assms by (cases g) auto

lemma new_button_ok:
  assumes "alive m parent"
  shows "calls_ok m (new_button parent b n)"
    "k < n \<Longrightarrow> fold lv_step (new_button parent b n) m k = m k"
  using assms by (auto simp: new_button_def split: prod.split)

abbreviation reaction_ok :: "lv_tree \<Rightarrow> bool option \<Rightarrow> string list \<Rightarrow> reaction \<Rightarrow> bool" where
  "reaction_ok m grp rs r \<equiv>
     (case r of
        Undefined \<Rightarrow> False
      | Threw \<Rightarrow> bracketed grp rs
      | Reacted p' cs \<Rightarrow> calls_ok m cs \<and> (\<exists>grp'. panel_ok (fold lv_step cs m) grp' p' \<and> bracketed grp' rs))"

lemma add_button_ok:
  assumes "panel_ok m grp p" "bracketed grp rs" "prefix ''prompt_footer_button'' c \<or> grp \<noteq> None"
  shows "reaction_ok m grp rs (add_button c p)"
proof (cases "button_fields c")
  case (Some b)
  have made: "reaction_ok m grp rs (Reacted (p\<lparr>next_obj := next_obj p + 3\<rparr>) (new_button parent b (next_obj p)))"
    if "alive m parent" for parent
  proof -
    have "group_ok (fold lv_step (new_button parent b (next_obj p)) m) (next_obj p + 3) grp (button_group_cont p)"
      by (rule group_ok_more [OF assms(1)]) (simp_all add: new_button_ok(2) [OF that])
    with new_button_ok(1) [OF that] assms(2) show ?thesis by auto
  qed
  show ?thesis
  proof (cases "prefix ''prompt_footer_button'' c")
    case True
    with Some made [of Footer] show ?thesis by (simp add: add_button_def)
  next
    case False
    with assms(3) have "grp \<noteq> None" by simp
    with False Some assms(1) made [of Flex] made [of "Made _"] show ?thesis
      by (cases "button_group_cont p") (auto simp: add_button_def)
  qed
qed (simp add: add_button_def assms(2))

lemma action_cases:
  obtains (begins) s where "c = ''prompt_begin'' @ s" | (label) s where "c = ''prompt_text'' @ s"
  | (opened) s where "c = ''prompt_button_group_start'' @ s" | (closed) s where "c = ''prompt_button_group_end'' @ s"
  | (footer) s where "c = ''prompt_footer_button'' @ s"
  | (button) s where "c = ''prompt_button'' @ s" "\<not> prefix ''prompt_button_group_start'' c" "\<not> prefix ''prompt_button_group_end'' c"
  | (shown) s where "c = ''prompt_show'' @ s" | (ended) s where "c = ''prompt_end'' @ s"
  | (other) "\<forall>k \<in> set [''prompt_begin'', ''prompt_text'', ''prompt_button_group_start'', ''prompt_button_group_end'',
      ''prompt_footer_button'', ''prompt_button'', ''prompt_show'', ''prompt_end'']. \<not> prefix k c"
proof -
  let ?ks = "[''prompt_begin'', ''prompt_text'', ''prompt_button_group_start'', ''prompt_button_group_end'',
      ''prompt_footer_button'', ''prompt_button'', ''prompt_show'', ''prompt_end'']"
  show thesis
  proof (cases "\<exists>k \<in> set ?ks. prefix k c")
    case True
    then show thesis
      using that(1-8) by (simp only: list.set ball_simps bex_simps prefix_def) blast
  next
    case False
    then show thesis using that(9) by blast
  qed
qed

lemma action_ok:
  assumes "panel_ok m grp p" "bracketed grp ((''// action:'' @ c) # rs)"
  shows "reaction_ok m grp rs (action c p)"
proof (cases rule: action_cases [of c])
  case (begins s)
  then have "bracketed grp rs" "grp \<noteq> Some True" using assms(2) by simp_all
  with assms(1) have "group_ok m' (next_obj p) grp (button_group_cont p)" for m'
    by (cases "button_group_cont p") simp_all
  with begins \<open>bracketed grp rs\<close> show ?thesis by (auto simp: action_def split: option.split)
next
  case (label s)
  then have "bracketed grp rs" using assms(2) by simp
  moreover have "group_ok (m(next_obj p \<mapsto> [Flex])) (next_obj p + 1) grp (button_group_cont p)"
    by (rule group_ok_more [OF assms(1)]) simp_all
  ultimately show ?thesis using label by (auto simp: action_def split: option.split)
next
  case (opened s)
  then show ?thesis using assms(2) by (auto simp: action_def intro!: exI [of _ "Some True"])
next
  case (closed s)
  then show ?thesis using assms(2) by (auto simp: action_def intro!: exI [of _ "Some False"])
next
  case (footer s)
  then have f: "bracketed grp rs" "action c p = add_button c p" "prefix ''prompt_footer_button'' c"
    using assms(2) by (simp_all add: action_def)
  show ?thesis unfolding f(2) by (rule add_button_ok [OF assms(1) f(1) disjI1 [OF f(3)]])
next
  case (button s)
  then have b: "bracketed grp rs" "grp \<noteq> None" using assms(2) by (simp_all split: if_splits)
  have eq: "action c p = add_button c p"
  proof -
    have "\<not> prefix ''prompt_begin'' c" "\<not> prefix ''prompt_text'' c" "prefix ''prompt_button'' c" using button(1) by simp_all
    with button(2,3) show ?thesis unfolding action_def by (simp only: if_True if_False simp_thms)
  qed
  show ?thesis unfolding eq by (rule add_button_ok [OF assms(1) b(1) disjI2 [OF b(2)]])
next
  case (shown s)
  then show ?thesis using assms by (auto simp: action_def)
next
  case (ended s)
  then have "bracketed grp rs" "grp \<noteq> Some True" using assms(2) by simp_all
  with assms(1) have "group_ok m' (next_obj p) grp (button_group_cont p)" for m'
    by (cases "button_group_cont p") simp_all
  with ended \<open>bracketed grp rs\<close> show ?thesis by (auto simp: action_def)
next
  case other
  then have "bracketed grp rs" "action c p = Reacted p []" using assms(2) by (simp_all add: action_def)
  with assms(1) show ?thesis by auto
qed

lemma responses_ok:
  assumes "panel_ok m grp p" "bracketed grp rs"
  shows "\<exists>p' cs. responses rs p = Some (p', cs) \<and> calls_ok m cs"
  using assms
proof (induction rs arbitrary: m grp p)
  case (Cons r rs)
  have "reaction_ok m grp rs (response r p)"
  proof (cases "prefix ''// action:'' r")
    case True
    then obtain c where r: "r = ''// action:'' @ c" by (blast elim: prefixE)
    show ?thesis unfolding r response_action by (rule action_ok [OF Cons.prems(1) Cons.prems(2) [unfolded r]])
  next
    case False
    with Cons.prems show ?thesis by (auto simp: response_def)
  qed
  then show ?case
  proof (cases "response r p")
    case (Reacted p1 cs)
    with \<open>reaction_ok m grp rs (response r p)\<close> obtain grp' where
      "calls_ok m cs" "panel_ok (fold lv_step cs m) grp' p1" "bracketed grp' rs" by auto
    moreover from Cons.IH [OF this(2,3)] obtain p' ds where
      "responses rs p1 = Some (p', ds)" "calls_ok (fold lv_step cs m) ds" by blast
    ultimately show ?thesis using Reacted by (simp add: calls_ok_append)
  next
    case Threw
    with \<open>reaction_ok m grp rs (response r p)\<close> Cons.IH [OF Cons.prems(1)] show ?thesis by simp
  next
    case Undefined
    with \<open>reaction_ok m grp rs (response r p)\<close> show ?thesis by simp
  qed
qed simp

text \<open>
  C28. No object is used that is gone. From the construction of the panel on, if prompts begin
  and end outside of groups of buttons, and buttons come after the first mark of a group, the
  panel handles every response, and every call to LVGL names objects that exist. The
  responses may be in any order otherwise, and any other text may come between them.
\<close>

theorem prompt_safe:
  assumes "bracketed None rs"
  shows "\<exists>p' cs. responses rs \<lparr>button_group_cont = Indeterminate, next_obj = n\<rparr> = Some (p', cs) \<and> calls_ok Map.empty cs"
  by (rule responses_ok [OF _ assms]) simp

theorem prompt_safe_witness:
  "\<exists>p' cs. responses [''// action:prompt_begin A'', ''// action:prompt_button_group_start'', ''// action:prompt_button a|A'',
      ''// action:prompt_button_group_end'', ''ok'', ''// action:prompt_button b|B'', ''// action:prompt_end'',
      ''// action:prompt_begin'', ''// action:prompt_button c'']
    \<lparr>button_group_cont = Indeterminate, next_obj = 0\<rparr> = Some (p', cs) \<and> calls_ok Map.empty cs"
  by (rule prompt_safe) code_simp

end
