(* ===== verification/Console_Panel.thy ===== *)
theory Console_Panel
  imports Printer_State
begin

text \<open>
  \<open>ConsolePanel\<close> (\<open>src/src/console_panel.cpp\<close>): the commands the user types, their history,
  the list of macros and earlier commands that match what is typed, and the output.

  What is in the input is an argument of the handlers that read it; LVGL and the websocket are the
  list of calls made to them. An event LVGL sends while a handler changes a widget is another
  call of a handler.
\<close>

section \<open>The panel\<close>

record console =
  all_macros :: "string list"
  history :: "string list"

datatype console_call =
    OutputAdd string \<comment> \<open>\<open>lv_textarea_add_text(output, _)\<close>\<close>
  | InputSet string \<comment> \<open>\<open>lv_textarea_set_text(input, _)\<close>\<close>
  | SetCell nat string \<comment> \<open>\<open>lv_table_set_cell_value(macro_list, row, 0, _)\<close>\<close>
  | SetRowCnt nat
  | ScrollTop
  | Keyboard bool
  | GcodeScript string
  | PostHistory "string list" \<comment> \<open>\<open>server.database.post_item\<close>\<close>

datatype input_event = Focused | Defocused | ValueChanged | Ready | OtherEvent

text \<open>The cells from a row on. Rows have 16 bits.\<close>

fun set_cells :: "nat \<Rightarrow> string list \<Rightarrow> console_call list" where
  "set_cells index [] = []"
| "set_cells index (m # ms) = SetCell (index mod 65536) m # set_cells (index + 1) ms"

definition matches :: "string \<Rightarrow> string \<Rightarrow> bool" where
  "matches cmd m \<longleftrightarrow> prefix (map to_upper cmd) m \<or> prefix cmd m"

definition filter_macros :: "string \<Rightarrow> console \<Rightarrow> console_call list" where
  "filter_macros cmd c =
     (if CHR '' '' \<notin> set cmd \<and> (all_macros c \<noteq> [] \<or> history c \<noteq> [])
      then let ms = filter (matches cmd) (history c) @ filter (matches cmd) (all_macros c)
           in set_cells 0 ms @ [SetRowCnt (length ms mod 65536)]
      else [])"

text \<open>\<open>front != cmd\<close>, the limit of 20, and whether the history changed.\<close>

definition remember :: "string \<Rightarrow> console \<Rightarrow> console \<times> console_call list" where
  "remember cmd c =
     (case history c of
        [] \<Rightarrow> (c, [])
      | front # _ \<Rightarrow>
          if front = cmd then (c, [])
          else
            let kept = (if 20 \<le> length (history c) then butlast (history c) else history c);
                c1 = c\<lparr>history := cmd # kept\<rparr>
            in (c1, [PostHistory (history c1)]))"

definition keyboard_ready :: "string \<Rightarrow> console \<Rightarrow> console \<times> console_call list" where
  "keyboard_ready cmd c =
     (if cmd = [] then (c, [])
      else
        let (c1, posted) = remember cmd c
        in (c1, [OutputAdd ''> '', OutputAdd cmd, OutputAdd [CHR 0x0A], GcodeScript cmd] @ posted @
                [InputSet []] @ set_cells 0 (history c1 @ all_macros c1)))"

definition console_kb_input :: "input_event \<Rightarrow> string \<Rightarrow> console \<Rightarrow> console \<times> console_call list" where
  "console_kb_input code cmd c =
     (case code of
        Focused \<Rightarrow> (c, [Keyboard True])
      | Defocused \<Rightarrow> (c, [Keyboard False])
      | ValueChanged \<Rightarrow> (c, ScrollTop # filter_macros cmd c)
      | Ready \<Rightarrow> keyboard_ready cmd c
      | OtherEvent \<Rightarrow> (c, []))"

definition handle_select_macro :: "bool \<Rightarrow> string \<Rightarrow> console_call list" where
  "handle_select_macro value_changed macro = (if value_changed then [InputSet macro] else [])"

text \<open>The send button hands the event \<open>READY\<close> to the input.\<close>

definition handle_send_macro :: "bool \<Rightarrow> string \<Rightarrow> console \<Rightarrow> console \<times> console_call list" where
  "handle_send_macro clicked cmd c = (if clicked then console_kb_input Ready cmd c else (c, []))"

definition handle_clear_input :: "console_call list" where
  "handle_clear_input = [InputSet []]"

text \<open>
  \<open>keys\<close> are those of \<open>items()\<close>. \<open>None\<close> when the history is not a list of strings, where
  \<open>get\<close> throws.
\<close>

definition handle_macros ::
  "'j json_lib \<Rightarrow> ('j \<Rightarrow> string list) \<Rightarrow> 'j state \<Rightarrow> 'j \<Rightarrow> console \<Rightarrow> (console \<times> console_call list) option" where
  "handle_macros lib keys data j c =
     (let db_history = get_data lib ''console'' [''commandHistory''] data
      in case (if is_null lib db_history then Some (history c)
               else those (map (as_string lib) (elements lib db_history))) of
           None \<Rightarrow> None
         | Some h \<Rightarrow>
             let ms = (case at_ptr lib j [''result''] of None \<Rightarrow> [] | Some m \<Rightarrow> keys m);
                 c1 = c\<lparr>history := h, all_macros := all_macros c @ ms\<rparr>
             in Some (c1, set_cells 0 (history c1 @ all_macros c1)))"

text \<open>The lines before one that is no string are shown.\<close>

fun output_lines :: "'j json_lib \<Rightarrow> 'j list \<Rightarrow> console_call list" where
  "output_lines lib [] = []"
| "output_lines lib (l # ls) =
     (case as_string lib l of
        None \<Rightarrow> []
      | Some s \<Rightarrow> OutputAdd s # OutputAdd [CHR 0x0A] # output_lines lib ls)"

definition console_response :: "'j json_lib \<Rightarrow> 'j \<Rightarrow> console_call list" where
  "console_response lib j =
     (case at_ptr lib j [''params''] of None \<Rightarrow> [] | Some ps \<Rightarrow> output_lines lib (elements lib ps))"

text \<open>The user sends one input after the other.\<close>

fun commands :: "string list \<Rightarrow> console \<Rightarrow> console \<times> console_call list" where
  "commands [] c = (c, [])"
| "commands (cmd # cmds) c =
     (let (c1, cs) = console_kb_input Ready cmd c; (c2, ds) = commands cmds c1 in (c2, cs @ ds))"

section \<open>The history\<close>

fun sent :: "console_call list \<Rightarrow> string list" where
  "sent [] = []"
| "sent (GcodeScript s # cs) = s # sent cs"
| "sent (_ # cs) = sent cs"

lemma sent_append [simp]: "sent (cs @ ds) = sent cs @ sent ds"
  by (induction cs rule: sent.induct) auto

lemma sent_set_cells [simp]: "sent (set_cells i ms) = []"
  by (induction ms arbitrary: i) auto

lemma sent_remember: "sent (snd (remember cmd c)) = []"
  by (auto simp: remember_def Let_def split: list.split)

lemma take_Cons_take: "take n (x # take n xs) = take n (x # xs)"
  by (cases n) (simp_all add: min_def)

lemma hd_take_remdups: "n \<noteq> 0 \<Longrightarrow> xs \<noteq> [] \<Longrightarrow> hd (take n (remdups_adj xs)) = hd xs"
  by (cases n; cases xs; cases "tl xs") auto

lemma remember_history:
  assumes "history c = take 20 (remdups_adj xs)"
  shows "history (fst (remember cmd c)) = (if xs = [] then [] else take 20 (remdups_adj (cmd # xs)))"
proof (cases xs)
  case (Cons x ys)
  let ?h = "history c"
  have ne: "?h \<noteq> []" and hd: "hd ?h = x" using assms Cons hd_take_remdups [of 20 xs] by auto
  have "length ?h \<le> 20" using assms by simp
  then have new: "take 20 (cmd # ?h) = cmd # (if 20 \<le> length ?h then butlast ?h else ?h)"
    by (simp add: butlast_conv_take take_Cons')
  obtain rest where h: "?h = x # rest" using ne hd by (cases ?h) auto
  then have step: "history (fst (remember cmd c)) =
      (if x = cmd then ?h else cmd # (if 20 \<le> length ?h then butlast ?h else ?h))"
    by (simp add: remember_def Let_def)
  show ?thesis
  proof (cases "x = cmd")
    case True
    with step assms Cons show ?thesis by simp
  next
    case False
    have "take 20 (remdups_adj (cmd # xs)) = take 20 (cmd # ?h)"
      using False assms Cons take_Cons_take [of 20 cmd "remdups_adj xs"] by simp
    with False step new Cons show ?thesis by simp
  qed
qed (use assms in \<open>simp add: remember_def\<close>)

lemma remember_macros: "all_macros (fst (remember cmd c)) = all_macros c"
  by (auto simp: remember_def Let_def split: list.split)

lemma ready_result:
  "fst (console_kb_input Ready cmd c) = (if cmd = [] then c else fst (remember cmd c))"
  "sent (snd (console_kb_input Ready cmd c)) = (if cmd = [] then [] else [cmd])"
  using sent_remember [of cmd c] by (simp_all add: console_kb_input_def keyboard_ready_def case_prod_beta)



end
