(* ===== verification/Print_Status.thy ===== *)
theory Print_Status
  imports Printer_State
begin

text \<open>
  \<open>PrintStatusPanel\<close> (\<open>src/src/print_status_panel.cpp\<close>) with the small status of the main screen
  (\<open>mini_print_status.cpp\<close>): what a notification changes on the screen that follows a print.

  A handler is a sequence of actions, each of which may throw; what was done before stays done.
  An action returns the panel, the calls it makes on widgets and on the websocket, and whether it
  completed. Conversions to floating point numbers and the arithmetic on them are not modelled:
  the integers and texts that come out of them are arguments (\<open>status_lib\<close>). A read through
  \<open>operator[]\<close>, which inserts a null, is a read. Names of fans and sensors are keys of JSON
  pointers as they are.
\<close>

section \<open>The panel\<close>

record 'j status_lib = "'j json_lib" +
  get_int :: "'j \<Rightarrow> int option"
  get_bool :: "'j \<Rightarrow> bool option"
  to_seconds :: "'j \<Rightarrow> u32 option" \<comment> \<open>\<open>static_cast<uint32_t>(get<float>())\<close>\<close>
  to_percent :: "'j \<Rightarrow> int option" \<comment> \<open>\<open>static_cast<int>(get<double>() * 100)\<close>\<close>
  to_whole :: "'j \<Rightarrow> int option" \<comment> \<open>\<open>static_cast<int>(get<double>())\<close>\<close>
  fan_value_to_pct :: "string \<Rightarrow> 'j \<Rightarrow> int option"
  short_measure :: "'j \<Rightarrow> string option"
  flow_text :: "string option \<Rightarrow> 'j \<Rightarrow> string option" \<comment> \<open>for a filament diameter\<close>
  layer_at :: "'j \<Rightarrow> 'j \<Rightarrow> 'j \<Rightarrow> int option" \<comment> \<open>\<open>ceil((z - first) / height + 1)\<close>\<close>
  stod_ok :: "string \<Rightarrow> bool" \<comment> \<open>\<open>std::stod\<close> does not throw\<close>

datatype tile = ExtruderTemp | BedTemp | PrintSpeed | ZOffset | FlowRate | Layers | Fan0 | Elapsed | TimeLeft | AuxTemp

datatype status_call =
    UpdateLabel tile string
  | ProgressBar int
  | ProgressLabel string
  | Image string int \<comment> \<open>the preview and the width it has\<close>
  | NoImage
  | Foreground
  | Background
  | MiniShow
  | MiniHide
  | MiniEta string
  | MiniStatus string
  | MiniProgress int
  | MiniReset
  | MiniImage string int
  | PauseShown bool \<comment> \<open>the pause button, and the resume button not\<close>
  | PauseEnabled bool
  | ResumeEnabled bool
  | AuxPlaced bool
  | FineTune
  | RequestMetadata string
  | Request string

record 'j status_panel =
  estimated_time_s :: u32
  filament_diameter :: "string option" \<comment> \<open>\<open>None\<close> for 1.75\<close>
  extruder_target :: int
  heater_bed_target :: int
  current_file :: 'j
  last_layer_info :: 'j
  current_filename :: string
  fan_speeds :: "(string \<times> int) list"
  aux_sensor :: string

type_synonym 'j act = "'j status_panel \<Rightarrow> 'j status_panel \<times> status_call list \<times> bool"

section \<open>Actions\<close>

definition emit :: "status_call list \<Rightarrow> 'j act" where
  "emit cs s = (s, cs, True)"

definition change :: "('j status_panel \<Rightarrow> 'j status_panel) \<Rightarrow> 'j act" where
  "change f s = (f s, [], True)"

definition throw :: "'j act" where
  "throw s = (s, [], False)"

definition seq :: "'j act \<Rightarrow> 'j act \<Rightarrow> 'j act" where
  "seq a b s =
     (case a s of (s1, cs, ok) \<Rightarrow>
        if ok then (case b s1 of (s2, ds, ok2) \<Rightarrow> (s2, cs @ ds, ok2)) else (s1, cs, False))"

fun steps :: "'j act list \<Rightarrow> 'j act" where
  "steps [] = emit []"
| "steps (a # as) = seq a (steps as)"

text \<open>The value of a \<open>get\<close>, or its exception.\<close>

definition got :: "'a option \<Rightarrow> ('a \<Rightarrow> 'j act) \<Rightarrow> 'j act" where
  "got v f = (case v of None \<Rightarrow> throw | Some x \<Rightarrow> f x)"

definition value_at :: "'j status_lib \<Rightarrow> 'j \<Rightarrow> string list \<Rightarrow> 'j" where
  "value_at lib j ptr = (case at_ptr lib j ptr of None \<Rightarrow> null lib | Some v \<Rightarrow> v)"

definition unless_null :: "'j status_lib \<Rightarrow> 'j \<Rightarrow> ('j \<Rightarrow> 'j act) \<Rightarrow> 'j act" where
  "unless_null lib v f = (if is_null lib v then emit [] else f v)"

definition the_panel :: "('j status_panel \<Rightarrow> 'j act) \<Rightarrow> 'j act" where
  "the_panel f s = f s s"

abbreviation printer_value :: "'j status_lib \<Rightarrow> 'j state \<Rightarrow> string list \<Rightarrow> 'j" where
  "printer_value lib data ptr \<equiv> get_data (json_lib.truncate lib) ''printer_state'' ptr data"

section \<open>Numbers and times\<close>

text \<open>\<open>tm_yday\<close> of \<open>gmtime_r\<close>, for days since the start of a year.\<close>

definition year_days :: "nat \<Rightarrow> nat" where
  "year_days y = (if y mod 4 = 0 \<and> (y mod 100 \<noteq> 0 \<or> y mod 400 = 0) then 366 else 365)"

function yday :: "nat \<Rightarrow> nat \<Rightarrow> nat" where
  "yday y d = (if d < year_days y then d else yday (y + 1) (d - year_days y))"
  by pat_completeness auto
termination by (relation "measure snd") (auto simp: year_days_def)

declare yday.simps [simp del]

definition eta_string :: "nat \<Rightarrow> string" where
  "eta_string s =
     (let tm_yday = yday 1970 (s div 86400);
          tm_hour = s mod 86400 div 3600;
          tm_min = s mod 3600 div 60;
          tm_sec = s mod 60
      in (if tm_yday > 0 then show_nat tm_yday @ ''d '' else []) @
         (if tm_hour > 0 then show_nat tm_hour @ ''h '' else []) @
         (if tm_min > 0 then show_nat tm_min @ ''m '' else []) @ show_nat tm_sec @ ''s'')"

section \<open>Operations\<close>

definition update_progress :: "int \<Rightarrow> 'j act" where
  "update_progress p =
     (let pct = (if p < 0 then 0 else if p > 100 then 100 else p)
      in emit [ProgressBar pct, ProgressLabel (show_int pct @ ''%''), MiniProgress pct])"

text \<open>\<open>estimated_time_s - time_passed\<close> is computed in 32 bits and read as signed.\<close>

definition update_time_progress :: "u32 \<Rightarrow> 'j act" where
  "update_time_progress time_passed =
     the_panel (\<lambda>s.
       let remaining = sint (estimated_time_s s - time_passed)
       in emit ((if remaining < 0 then [UpdateLabel TimeLeft ''...'']
                 else [UpdateLabel TimeLeft (eta_string (nat remaining)), MiniEta (eta_string (nat remaining))]) @
                [UpdateLabel Elapsed (eta_string (unat time_passed))]))"

definition max_layer :: "'j status_lib \<Rightarrow> 'j \<Rightarrow> 'j status_panel \<Rightarrow> int option" where
  "max_layer lib info s =
     (let total = value_at lib info [''total_layer'']; file = current_file s
      in if \<not> is_null lib info \<and> \<not> is_null lib total then get_int lib total
         else if is_null lib file then Some 0
         else
           let layer_count = value_at lib file [''layer_count''];
               first_layer_height = value_at lib file [''first_layer_height''];
               layer_height = value_at lib file [''layer_height''];
               object_height = value_at lib file [''object_height'']
           in if \<not> is_null lib layer_count then get_int lib layer_count
              else if \<not> is_null lib first_layer_height \<and> \<not> is_null lib layer_height \<and> \<not> is_null lib object_height
              then map_option (\<lambda>layer. if layer > 0 then layer else 0)
                     (layer_at lib object_height first_layer_height layer_height)
              else Some 0)"

definition current_layer :: "'j status_lib \<Rightarrow> 'j state \<Rightarrow> 'j \<Rightarrow> 'j status_panel \<Rightarrow> int option" where
  "current_layer lib data info s =
     (let now = value_at lib info [''current_layer'']; file = current_file s
      in if \<not> is_null lib info \<and> \<not> is_null lib now then get_int lib now
         else if is_null lib file then Some 0
         else
           let pd = printer_value lib data [''print_stats'', ''print_duration''];
               zpos = printer_value lib data [''gcode_move'', ''gcode_position'', ''2''];
               first_layer_height = value_at lib file [''first_layer_height''];
               layer_height = value_at lib file [''layer_height'']
           in if is_null lib pd then Some 0
              else case get_int lib pd of
                     None \<Rightarrow> None
                   | Some d \<Rightarrow>
                       if d > 0 \<and> \<not> is_null lib zpos \<and> \<not> is_null lib first_layer_height \<and> \<not> is_null lib layer_height
                       then (case (layer_at lib zpos first_layer_height layer_height, max_layer lib info s) of
                               (Some layer, Some layers) \<Rightarrow>
                                 Some (if layer > layers then layers else if layer > 0 then layer else 0)
                             | _ \<Rightarrow> None)
                       else Some 0)"

definition update_layers :: "'j status_lib \<Rightarrow> 'j state \<Rightarrow> 'j act" where
  "update_layers lib data =
     the_panel (\<lambda>s. got (current_layer lib data (last_layer_info s) s) (\<lambda>layer.
                      got (max_layer lib (last_layer_info s) s) (\<lambda>total.
                        emit [UpdateLabel Layers (show_int layer @ '' / '' @ show_int total)])))"

definition status_reset :: "'j status_lib \<Rightarrow> 'j state \<Rightarrow> 'j act" where
  "status_reset lib data =
     steps
       [emit [ProgressBar 0, ProgressLabel ''0%'', UpdateLabel PrintSpeed ''0 mm/s'', UpdateLabel FlowRate ''0.0 mm3/s'',
              UpdateLabel Elapsed ''0s'', UpdateLabel TimeLeft ''...''],
        change (\<lambda>s. s\<lparr>estimated_time_s := 0\<rparr>),
        emit [UpdateLabel Layers ''0 / 0''],
        change (\<lambda>s. s\<lparr>current_file := null lib, last_layer_info := null lib\<rparr>),
        let v = printer_value lib data [''configfile'', ''config'', ''extruder'', ''filament_diameter'']
        in if is_null lib v then change (\<lambda>s. s\<lparr>filament_diameter := None\<rparr>)
           else got (as_string lib v) (\<lambda>t.
                  if stod_ok lib t then change (\<lambda>s. s\<lparr>filament_diameter := Some t\<rparr>) else throw),
        change (\<lambda>s. s\<lparr>extruder_target := -1, heater_bed_target := -1\<rparr>),
        emit [NoImage, MiniReset]]"

definition populate :: "'j status_lib \<Rightarrow> 'j state \<Rightarrow> 'j act" where
  "populate lib data =
     steps
       [unless_null lib (printer_value lib data [''print_stats'', ''filename'']) (\<lambda>printfile.
          got (as_string lib printfile) (\<lambda>fname.
            if fname \<noteq> [] then emit [RequestMetadata fname, MiniShow] else emit [])),
        let pstate = printer_value lib data [''print_stats'', ''state'']
        in if is_null lib pstate then emit [PauseShown True]
           else got (as_string lib pstate) (\<lambda>st. emit [PauseShown (st \<noteq> ''paused'')]),
        unless_null lib (printer_value lib data [''virtual_sdcard'', ''progress'']) (\<lambda>v.
          got (to_percent lib v) update_progress),
        unless_null lib (printer_value lib data [''gcode_move'', ''homing_origin'', ''2'']) (\<lambda>v.
          got (short_measure lib v) (\<lambda>t. emit [UpdateLabel ZOffset t])),
        the_panel (\<lambda>s.
          if aux_sensor s = [] then emit []
          else unless_null lib (printer_value lib data [aux_sensor s, ''temperature'']) (\<lambda>v.
                 got (to_whole lib v) (\<lambda>i. emit [UpdateLabel AuxTemp (show_int i)])))]"

text \<open>\<open>thumb\<close> is what \<open>KUtils::get_thumbnail\<close> returns.\<close>

definition status_metadata :: "'j status_lib \<Rightarrow> 'j state \<Rightarrow> string \<times> int \<Rightarrow> 'j \<Rightarrow> 'j act" where
  "status_metadata lib data thumb j =
     steps
       [unless_null lib (value_at lib j [''result'', ''estimated_time'']) (\<lambda>eta.
          got (to_seconds lib eta) (\<lambda>t.
            seq (change (\<lambda>s. s\<lparr>estimated_time_s := t\<rparr>))
              (unless_null lib (printer_value lib data [''print_stats'', ''print_duration'']) (\<lambda>v.
                 got (to_seconds lib v) update_time_progress)))),
        change (\<lambda>s. s\<lparr>current_file := value_at lib j [''result'']\<rparr>),
        if fst thumb \<noteq> [] then emit [Image (''A:'' @ fst thumb) (snd thumb), MiniImage (''A:'' @ fst thumb) (snd thumb)]
        else emit []]"

section \<open>Notifications\<close>

abbreviation param :: "'j status_lib \<Rightarrow> 'j \<Rightarrow> string list \<Rightarrow> 'j" where
  "param lib j ptr \<equiv> value_at lib j ([''params'', ''0''] @ ptr)"

definition follow_file :: "'j status_lib \<Rightarrow> 'j state \<Rightarrow> 'j \<Rightarrow> 'j act" where
  "follow_file lib data j =
     unless_null lib (param lib j [''print_stats'', ''filename'']) (\<lambda>printfile.
       let fname = (case as_string lib printfile of Some f \<Rightarrow> f | None \<Rightarrow> [])
       in the_panel (\<lambda>s.
            if fname \<noteq> [] \<and> fname \<noteq> current_filename s
            then steps [change (\<lambda>s. s\<lparr>current_filename := fname\<rparr>), status_reset lib data, populate lib data, emit [Foreground]]
            else if fname = [] then change (\<lambda>s. s\<lparr>current_filename := []\<rparr>)
            else emit []))"

definition follow_state :: "'j status_lib \<Rightarrow> 'j \<Rightarrow> 'j act" where
  "follow_state lib j =
     unless_null lib (param lib j [''print_stats'', ''state'']) (\<lambda>pstate.
       got (as_string lib pstate) (\<lambda>print_status.
         seq (if print_status \<noteq> ''printing'' \<and> print_status \<noteq> ''paused''
              then seq (emit [MiniHide])
                     (if print_status \<noteq> ''standby''
                      then seq (if print_status = ''complete'' then update_progress 100 else emit []) (emit [Background])
                      else emit [])
              else emit [MiniShow])
           (emit [MiniStatus print_status])))"

definition target_text :: "int \<Rightarrow> int \<Rightarrow> string" where
  "target_text temp target = (if target > 0 then show_int temp @ '' / '' @ show_int target else show_int temp)"

definition follow_temperatures :: "'j status_lib \<Rightarrow> 'j \<Rightarrow> 'j act" where
  "follow_temperatures lib j =
     steps
       [unless_null lib (param lib j [''extruder'', ''target'']) (\<lambda>v.
          got (get_int lib v) (\<lambda>i. change (\<lambda>s. s\<lparr>extruder_target := i\<rparr>))),
        unless_null lib (param lib j [''heater_bed'', ''target'']) (\<lambda>v.
          got (get_int lib v) (\<lambda>i. change (\<lambda>s. s\<lparr>heater_bed_target := i\<rparr>))),
        unless_null lib (param lib j [''extruder'', ''temperature'']) (\<lambda>v.
          got (get_int lib v) (\<lambda>i. the_panel (\<lambda>s. emit [UpdateLabel ExtruderTemp (target_text i (extruder_target s))]))),
        unless_null lib (param lib j [''heater_bed'', ''temperature'']) (\<lambda>v.
          got (get_int lib v) (\<lambda>i. the_panel (\<lambda>s. emit [UpdateLabel BedTemp (target_text i (heater_bed_target s))])))]"

definition follow_fan :: "'j status_lib \<Rightarrow> 'j \<Rightarrow> string \<Rightarrow> 'j act" where
  "follow_fan lib j fan_name =
     seq (unless_null lib (param lib j [fan_name, ''value'']) (\<lambda>v.
            got (fan_value_to_pct lib fan_name v) (\<lambda>i. change (\<lambda>s. s\<lparr>fan_speeds := smap_put fan_name i (fan_speeds s)\<rparr>))))
       (unless_null lib (param lib j [fan_name, ''speed'']) (\<lambda>v.
            got (to_percent lib v) (\<lambda>i. change (\<lambda>s. s\<lparr>fan_speeds := smap_put fan_name i (fan_speeds s)\<rparr>))))"

fun join :: "string \<Rightarrow> string list \<Rightarrow> string" where
  "join sep [] = []"
| "join sep [x] = x"
| "join sep (x # y # xs) = x @ sep @ join sep (y # xs)"

definition fan_text :: "'j status_panel \<Rightarrow> string" where
  "fan_text s = join '', '' (map (\<lambda>(n, v). show_int v @ ''%'') (fan_speeds s))"

definition follow_motion :: "'j status_lib \<Rightarrow> 'j \<Rightarrow> 'j act" where
  "follow_motion lib j =
     steps
       [unless_null lib (param lib j [''motion_report'', ''live_velocity'']) (\<lambda>v.
          got (to_whole lib v) (\<lambda>i. emit [UpdateLabel PrintSpeed (show_int i @ '' mm/s'')])),
        unless_null lib (param lib j [''gcode_move'', ''homing_origin'', ''2'']) (\<lambda>v.
          got (short_measure lib v) (\<lambda>t. emit [UpdateLabel ZOffset t])),
        the_panel (\<lambda>s. steps (map (follow_fan lib j) (map fst (fan_speeds s)))),
        the_panel (\<lambda>s. emit [UpdateLabel Fan0 (fan_text s)])]"

definition follow_progress :: "'j status_lib \<Rightarrow> 'j \<Rightarrow> 'j act" where
  "follow_progress lib j =
     steps
       [unless_null lib (param lib j [''print_stats'', ''print_duration'']) (\<lambda>v. got (to_seconds lib v) update_time_progress),
        the_panel (\<lambda>s.
          if aux_sensor s = [] then emit []
          else unless_null lib (param lib j [aux_sensor s, ''temperature'']) (\<lambda>v.
                 got (to_whole lib v) (\<lambda>i. emit [UpdateLabel AuxTemp (show_int i)]))),
        unless_null lib (param lib j [''virtual_sdcard'', ''progress'']) (\<lambda>v. got (to_percent lib v) update_progress),
        unless_null lib (param lib j [''motion_report'', ''live_extruder_velocity'']) (\<lambda>v.
          the_panel (\<lambda>s. got (flow_text lib (filament_diameter s) v) (\<lambda>t. emit [UpdateLabel FlowRate t]))),
        unless_null lib (param lib j [''pause_resume'', ''is_paused'']) (\<lambda>v.
          got (get_bool lib v) (\<lambda>is_paused.
            emit (if is_paused then [ResumeEnabled True, PauseEnabled False, PauseShown False]
                  else [PauseEnabled True, ResumeEnabled False, PauseShown True])))]"

definition follow_layers :: "'j status_lib \<Rightarrow> 'j state \<Rightarrow> 'j \<Rightarrow> 'j act" where
  "follow_layers lib data j =
     seq (unless_null lib (param lib j [''print_stats'', ''info'']) (\<lambda>v. change (\<lambda>s. s\<lparr>last_layer_info := v\<rparr>)))
       (update_layers lib data)"

definition status_consume :: "'j status_lib \<Rightarrow> 'j state \<Rightarrow> 'j \<Rightarrow> 'j act" where
  "status_consume lib data j =
     steps [follow_file lib data j, follow_state lib j, follow_temperatures lib j, follow_motion lib j,
            follow_progress lib j, follow_layers lib data j]"

section \<open>Connection and buttons\<close>

text \<open>
  The first sensor that is neither extruder nor heater, and the speeds of the fans. Sensors and
  fans come with their keys in order; the entry may have a name to show, which \<open>name\<close> reads.
\<close>

definition find_aux :: "('j \<Rightarrow> string option option) \<Rightarrow> (string \<times> 'j) list \<Rightarrow> 'j act" where
  "find_aux name sensors =
     (case filter (\<lambda>(i, v). is_sensor i) sensors of
        [] \<Rightarrow> change (\<lambda>s. s\<lparr>aux_sensor := []\<rparr>)
      | (i, v) # _ \<Rightarrow>
          seq (change (\<lambda>s. s\<lparr>aux_sensor := i\<rparr>))
            (case name v of
               None \<Rightarrow> emit [UpdateLabel AuxTemp (to_title (get_obj_name i))]
             | Some t \<Rightarrow> got t (\<lambda>t. emit [UpdateLabel AuxTemp t])))"

definition init_fan :: "'j status_lib \<Rightarrow> 'j state \<Rightarrow> string \<Rightarrow> string list \<Rightarrow> (string list \<Rightarrow> 'j act) \<Rightarrow> 'j act" where
  "init_fan lib data fan_name values k =
     (let add = (\<lambda>i. change (\<lambda>s. s\<lparr>fan_speeds := smap_insert_new fan_name i (fan_speeds s)\<rparr>));
          value_part = printer_value lib data [fan_name, ''value''];
          speed_part = printer_value lib data [fan_name, ''speed''];
          speed = (\<lambda>vs. if is_null lib speed_part then k vs
                        else got (to_percent lib speed_part) (\<lambda>i. seq (add i) (k (vs @ [show_int i @ ''%'']))))
      in if is_null lib value_part then speed values
         else got (fan_value_to_pct lib fan_name value_part) (\<lambda>i. seq (add i) (speed (values @ [show_int i @ ''%'']))))"

fun init_fans :: "'j status_lib \<Rightarrow> 'j state \<Rightarrow> string list \<Rightarrow> string list \<Rightarrow> 'j act" where
  "init_fans lib data [] values = emit [UpdateLabel Fan0 (join '', '' values)]"
| "init_fans lib data (f # fs) values = init_fan lib data f values (init_fans lib data fs)"

definition status_init ::
  "'j status_lib \<Rightarrow> ('j \<Rightarrow> string option option) \<Rightarrow> 'j state \<Rightarrow> (string \<times> 'j) list \<Rightarrow> (string \<times> 'j) list \<Rightarrow> 'j act" where
  "status_init lib name data fans sensors =
     steps
       [change (\<lambda>s. s\<lparr>aux_sensor := []\<rparr>),
        find_aux name sensors,
        the_panel (\<lambda>s. emit [AuxPlaced (aux_sensor s \<noteq> [])]),
        change (\<lambda>s. s\<lparr>fan_speeds := []\<rparr>),
        init_fans lib data (map fst fans) [],
        status_reset lib data,
        populate lib data,
        let pstat_state = printer_value lib data [''print_stats'', ''state'']
        in if is_null lib pstat_state then emit [MiniShow]
           else got (as_string lib pstat_state) (\<lambda>pstatus.
                  seq (if pstatus \<noteq> ''printing'' \<and> pstatus \<noteq> ''paused'' then emit [MiniHide] else emit [])
                    (emit [MiniStatus pstatus]))]"

datatype status_button = BackBtn | EmergencyBtn | ResumeBtn | CancelBtn | FinetuneBtn | MiniBtn | OtherBtn

definition status_callback :: "status_button \<Rightarrow> status_call list" where
  "status_callback btn =
     (case btn of
        BackBtn \<Rightarrow> [Background]
      | EmergencyBtn \<Rightarrow> [Request ''printer.emergency_stop'']
      | ResumeBtn \<Rightarrow> [Request ''printer.print.resume'', ResumeEnabled False]
      | CancelBtn \<Rightarrow> [Request ''printer.print.cancel'']
      | FinetuneBtn \<Rightarrow> [FineTune]
      | MiniBtn \<Rightarrow> [Foreground]
      | OtherBtn \<Rightarrow> [])"

section \<open>What actions keep and avoid\<close>

definition keeps :: "('j status_panel \<Rightarrow> 'b) \<Rightarrow> 'j act \<Rightarrow> bool" where
  "keeps f a \<longleftrightarrow> (\<forall>s. f (fst (a s)) = f s)"

definition avoids :: "status_call \<Rightarrow> 'j act \<Rightarrow> bool" where
  "avoids c a \<longleftrightarrow> (\<forall>s. c \<notin> set (fst (snd (a s))))"

definition completes :: "'j act \<Rightarrow> bool" where
  "completes a \<longleftrightarrow> (\<forall>s. snd (snd (a s)))"

named_theorems act_intros \<open>what the combinators keep, avoid and complete\<close>

lemma keeps_intros [act_intros]:
  "keeps f (emit cs)"
  "(\<And>s. f (g s) = f s) \<Longrightarrow> keeps f (change g)"
  "keeps f throw"
  "keeps f a \<Longrightarrow> keeps f b \<Longrightarrow> keeps f (seq a b)"
  "(\<And>x. keeps f (k x)) \<Longrightarrow> keeps f (got v k)"
  "(\<And>x. keeps f (k' x)) \<Longrightarrow> keeps f (unless_null lib j k')"
  "(\<And>s. keeps f (h s)) \<Longrightarrow> keeps f (the_panel h)"
  by (auto simp: keeps_def emit_def change_def throw_def seq_def got_def unless_null_def the_panel_def
      split: prod.splits option.splits) (metis fst_conv)+

lemma avoids_intros [act_intros]:
  "c \<notin> set cs \<Longrightarrow> avoids c (emit cs)"
  "avoids c (change g)"
  "avoids c throw"
  "avoids c a \<Longrightarrow> avoids c b \<Longrightarrow> avoids c (seq a b)"
  "(\<And>x. avoids c (k x)) \<Longrightarrow> avoids c (got v k)"
  "(\<And>x. avoids c (k' x)) \<Longrightarrow> avoids c (unless_null lib j k')"
  "(\<And>s. avoids c (h s)) \<Longrightarrow> avoids c (the_panel h)"
  by (auto simp: avoids_def emit_def change_def throw_def seq_def got_def unless_null_def the_panel_def
      split: prod.splits option.splits) (metis fst_conv snd_conv)+

lemma completes_intros [act_intros]:
  "completes (emit cs)"
  "completes (change g)"
  "completes a \<Longrightarrow> completes b \<Longrightarrow> completes (seq a b)"
  "v \<noteq> None \<Longrightarrow> (\<And>x. v = Some x \<Longrightarrow> completes (k x)) \<Longrightarrow> completes (got v k)"
  "(\<not> is_null lib j \<Longrightarrow> completes (k' j)) \<Longrightarrow> completes (unless_null lib j k')"
  "(\<And>s. completes (h s)) \<Longrightarrow> completes (the_panel h)"
  by (auto simp: completes_def emit_def change_def seq_def got_def unless_null_def the_panel_def
      split: prod.splits option.splits) (metis snd_conv)+

lemma steps_intros [act_intros]:
  "(\<And>a. a \<in> set as \<Longrightarrow> keeps f a) \<Longrightarrow> keeps f (steps as)"
  "(\<And>a. a \<in> set as \<Longrightarrow> avoids c a) \<Longrightarrow> avoids c (steps as)"
  "(\<And>a. a \<in> set as \<Longrightarrow> completes a) \<Longrightarrow> completes (steps as)"
  by (induction as) (auto intro!: act_intros)

lemma update_intros [act_intros]:
  "keeps f (update_progress i)" "keeps f (update_time_progress t)" "keeps f (update_layers lib data)"
  "completes (update_progress i)" "completes (update_time_progress t)"
  by (auto simp: update_progress_def update_time_progress_def update_layers_def Let_def intro!: act_intros)

lemma update_avoids [act_intros]:
  "c \<in> {Foreground, Background} \<Longrightarrow> avoids c (update_progress i)"
  "c \<in> {Foreground, Background} \<Longrightarrow> avoids c (update_time_progress t)"
  "c \<in> {Foreground, Background} \<Longrightarrow> avoids c (update_layers lib data)"
  by (auto simp: update_progress_def update_time_progress_def update_layers_def Let_def intro!: act_intros
      split: if_splits)

lemma start_keeps: "keeps current_filename (status_reset lib data)" "keeps f (populate lib data)"
  by (auto simp: status_reset_def populate_def Let_def intro!: act_intros)

lemma start_avoids:
  "c \<in> {Foreground, Background} \<Longrightarrow> avoids c (status_reset lib data)"
  "c \<in> {Foreground, Background} \<Longrightarrow> avoids c (populate lib data)"
  by (auto simp: status_reset_def populate_def Let_def intro!: act_intros)

lemma follow_keeps:
  "keeps current_filename (follow_state lib j)" "keeps current_filename (follow_temperatures lib j)"
  "keeps current_filename (follow_motion lib j)" "keeps current_filename (follow_progress lib j)"
  "keeps current_filename (follow_layers lib data j)"
  "keeps last_layer_info (follow_state lib j)" "keeps last_layer_info (follow_temperatures lib j)"
  "keeps last_layer_info (follow_motion lib j)" "keeps last_layer_info (follow_progress lib j)"
  by (auto simp: follow_state_def follow_temperatures_def follow_motion_def follow_fan_def follow_progress_def
      follow_layers_def intro!: act_intros)

lemma follow_avoids:
  "c \<in> {Foreground, Background} \<Longrightarrow> avoids c (follow_temperatures lib j)"
  "c \<in> {Foreground, Background} \<Longrightarrow> avoids c (follow_motion lib j)"
  "c \<in> {Foreground, Background} \<Longrightarrow> avoids c (follow_progress lib j)"
  "c \<in> {Foreground, Background} \<Longrightarrow> avoids c (follow_layers lib data j)"
  "avoids Foreground (follow_state lib j)" "avoids Background (follow_file lib data j)"
  by (auto simp: follow_temperatures_def follow_motion_def follow_fan_def follow_progress_def follow_layers_def
      follow_state_def follow_file_def Let_def intro!: act_intros start_avoids split: if_splits)

section \<open>Coming to the front and leaving\<close>

text \<open>The file a notification names, empty if it is no string, and the state it reports.\<close>

definition named :: "'j status_lib \<Rightarrow> 'j \<Rightarrow> string option" where
  "named lib j =
     (let v = param lib j [''print_stats'', ''filename'']
      in if is_null lib v then None else Some (case as_string lib v of Some f \<Rightarrow> f | None \<Rightarrow> []))"

definition reported_state :: "'j status_lib \<Rightarrow> 'j \<Rightarrow> string option" where
  "reported_state lib j =
     (let v = param lib j [''print_stats'', ''state''] in if is_null lib v then None else as_string lib v)"

text \<open>What \<open>reset\<close> and \<open>populate\<close> read of the printer has the types they expect.\<close>

definition readable :: "'j status_lib \<Rightarrow> 'j state \<Rightarrow> bool" where
  "readable lib data \<longleftrightarrow>
     (let v = printer_value lib data [''configfile'', ''config'', ''extruder'', ''filament_diameter'']
      in is_null lib v \<or> (\<exists>t. as_string lib v = Some t \<and> stod_ok lib t)) \<and>
     (\<forall>k \<in> {''filename'', ''state''}. let v = printer_value lib data [''print_stats'', k] in is_null lib v \<or> as_string lib v \<noteq> None) \<and>
     (let v = printer_value lib data [''virtual_sdcard'', ''progress''] in is_null lib v \<or> to_percent lib v \<noteq> None) \<and>
     (let v = printer_value lib data [''gcode_move'', ''homing_origin'', ''2''] in is_null lib v \<or> short_measure lib v \<noteq> None) \<and>
     (\<forall>a. let v = printer_value lib data [a, ''temperature''] in is_null lib v \<or> to_whole lib v \<noteq> None)"

text \<open>
  Notifications, each with the state of the printer at that time: whether the panel comes to the
  front and whether it leaves.
\<close>

fun moves :: "'j status_lib \<Rightarrow> ('j state \<times> 'j) list \<Rightarrow> 'j status_panel \<Rightarrow> (bool \<times> bool) list" where
  "moves lib [] s = []"
| "moves lib ((data, j) # ns) s =
     (case status_consume lib data j s of (s1, cs, ok) \<Rightarrow>
        (Foreground \<in> set cs, Background \<in> set cs) # moves lib ns s1)"

text \<open>A print starts when a file is named other than the one named last.\<close>

fun starts :: "string \<Rightarrow> string option list \<Rightarrow> bool list" where
  "starts cur [] = []"
| "starts cur (None # ns) = False # starts cur ns"
| "starts cur (Some f # ns) = (f \<noteq> [] \<and> f \<noteq> cur) # starts f ns"

definition over :: "string option \<Rightarrow> bool" where
  "over st = (case st of None \<Rightarrow> False | Some t \<Rightarrow> t \<notin> set [''printing'', ''paused'', ''standby''])"

lemma unless_null_got:
  "is_null lib v \<or> get v \<noteq> None \<Longrightarrow> (\<And>x. completes (k x)) \<Longrightarrow> completes (unless_null lib v (\<lambda>v. got (get v) k))"
  by (auto simp: completes_def unless_null_def got_def emit_def)

lemma reset_completes:
  assumes "readable lib data"
  shows "completes (status_reset lib data)"
proof -
  let ?v = "printer_value lib data [''configfile'', ''config'', ''extruder'', ''filament_diameter'']"
  have "is_null lib ?v \<or> (\<exists>t. as_string lib ?v = Some t \<and> stod_ok lib t)"
    using assms unfolding readable_def Let_def by blast
  then have "completes (if is_null lib ?v then change (\<lambda>s. s\<lparr>filament_diameter := None\<rparr>)
      else got (as_string lib ?v) (\<lambda>t. if stod_ok lib t then change (\<lambda>s. s\<lparr>filament_diameter := Some t\<rparr>) else throw))"
    by (auto simp: completes_def got_def change_def)
  then show ?thesis
    unfolding status_reset_def Let_def steps.simps by (intro completes_intros)
qed

lemma populate_completes:
  assumes "readable lib data"
  shows "completes (populate lib data)"
proof -
  let ?st = "printer_value lib data [''print_stats'', ''state'']"
  have r: "is_null lib (printer_value lib data [''print_stats'', ''filename'']) \<or>
      as_string lib (printer_value lib data [''print_stats'', ''filename'']) \<noteq> None"
    "is_null lib ?st \<or> as_string lib ?st \<noteq> None"
    "is_null lib (printer_value lib data [''virtual_sdcard'', ''progress'']) \<or>
      to_percent lib (printer_value lib data [''virtual_sdcard'', ''progress'']) \<noteq> None"
    "is_null lib (printer_value lib data [''gcode_move'', ''homing_origin'', ''2'']) \<or>
      short_measure lib (printer_value lib data [''gcode_move'', ''homing_origin'', ''2'']) \<noteq> None"
    "\<And>a. is_null lib (printer_value lib data [a, ''temperature'']) \<or> to_whole lib (printer_value lib data [a, ''temperature'']) \<noteq> None"
    using assms unfolding readable_def Let_def by blast+
  have st: "completes (if is_null lib ?st then emit [PauseShown True]
      else got (as_string lib ?st) (\<lambda>st. emit [PauseShown (st \<noteq> ''paused'')]))"
    using r(2) by (auto simp: completes_def got_def emit_def)
  have aux: "completes (the_panel (\<lambda>s. if aux_sensor s = [] then emit []
      else unless_null lib (printer_value lib data [aux_sensor s, ''temperature'']) (\<lambda>v.
             got (to_whole lib v) (\<lambda>i. emit [UpdateLabel AuxTemp (show_int i)]))))"
    by (rule completes_intros(6), split if_split) (intro conjI impI completes_intros(1) unless_null_got r(5))
  have "completes (if x \<noteq> [] then emit cs else emit ds)" for x :: string and cs ds by (simp add: completes_intros)
  then show ?thesis
    unfolding populate_def Let_def steps.simps
    by (intro completes_intros(3) unless_null_got r st aux completes_intros(1) update_intros)
qed

lemmas start_completes = reset_completes populate_completes

lemma seq_avoids:
  assumes "avoids c b"
  shows "c \<in> set (fst (snd (seq a b s))) \<longleftrightarrow> c \<in> set (fst (snd (a s)))"
  using assms by (auto simp: seq_def avoids_def split: prod.splits) (metis fst_conv snd_conv)+

lemma seq_completes:
  assumes "completes a" "avoids c a"
  shows "c \<in> set (fst (snd (seq a b s))) \<longleftrightarrow> c \<in> set (fst (snd (b (fst (a s)))))"
  using assms by (auto simp: seq_def avoids_def completes_def split: prod.splits) (metis fst_conv snd_conv)+

lemma seq_keeps:
  assumes "keeps f b"
  shows "f (fst (seq a b s)) = f (fst (a s))"
  using assms by (auto simp: seq_def keeps_def split: prod.splits) (metis fst_conv)+

lemma consume_rest:
  "keeps current_filename (steps [follow_state lib j, follow_temperatures lib j, follow_motion lib j,
     follow_progress lib j, follow_layers lib data j])"
  "avoids Foreground (steps [follow_state lib j, follow_temperatures lib j, follow_motion lib j,
     follow_progress lib j, follow_layers lib data j])"
  "avoids Background (steps [follow_temperatures lib j, follow_motion lib j, follow_progress lib j, follow_layers lib data j])"
  by (auto intro!: act_intros follow_keeps follow_avoids)

lemma follow_file_name:
  "current_filename (fst (follow_file lib data j s)) = (case named lib j of None \<Rightarrow> current_filename s | Some f \<Rightarrow> f)"
proof -
  have "current_filename (fst (steps [change (\<lambda>s. s\<lparr>current_filename := f\<rparr>), status_reset lib data, populate lib data, emit [Foreground]] s)) = f"
    for f
    using seq_keeps [where f = current_filename and b = "steps [status_reset lib data, populate lib data, emit [Foreground]]"
        and a = "change (\<lambda>s. s\<lparr>current_filename := f\<rparr>)" and s = s]
    by (auto simp: change_def intro!: act_intros start_keeps)
  then show ?thesis
    by (auto simp: follow_file_def named_def unless_null_def the_panel_def Let_def emit_def change_def)
qed

lemma follow_file_front:
  assumes "readable lib data"
  shows "Foreground \<in> set (fst (snd (follow_file lib data j s))) \<longleftrightarrow>
    (case named lib j of None \<Rightarrow> False | Some f \<Rightarrow> f \<noteq> [] \<and> f \<noteq> current_filename s)"
proof -
  note skip = seq_completes [OF start_completes(1) [OF assms] start_avoids(1)]
    seq_completes [OF start_completes(2) [OF assms] start_avoids(2)]
    seq_completes [OF completes_intros(2) avoids_intros(2)]
  have last: "Foreground \<in> set (fst (snd (seq (emit [Foreground]) (emit []) s)))" for s :: "'a status_panel"
    by (simp add: seq_def emit_def)
  have "Foreground \<in> set (fst (snd (steps [change g, status_reset lib data, populate lib data, emit [Foreground]] s)))" for g s
    by (simp add: skip last)
  then show ?thesis
    by (auto simp: follow_file_def named_def unless_null_def the_panel_def Let_def emit_def change_def)
qed

lemma follow_file_completes: "readable lib data \<Longrightarrow> completes (follow_file lib data j)"
  by (auto simp: follow_file_def Let_def intro!: act_intros start_completes)

lemma follow_state_leaves: "Background \<in> set (fst (snd (follow_state lib j s))) \<longleftrightarrow> over (reported_state lib j)"
  by (auto simp: follow_state_def reported_state_def over_def unless_null_def got_def throw_def seq_def emit_def
      update_progress_def Let_def split: option.splits)

lemma status_consume_moves:
  assumes "readable lib data"
  shows "Foreground \<in> set (fst (snd (status_consume lib data j s))) \<longleftrightarrow>
      (case named lib j of None \<Rightarrow> False | Some f \<Rightarrow> f \<noteq> [] \<and> f \<noteq> current_filename s)"
    "Background \<in> set (fst (snd (status_consume lib data j s))) \<longleftrightarrow> over (reported_state lib j)"
    "current_filename (fst (status_consume lib data j s)) = (case named lib j of None \<Rightarrow> current_filename s | Some f \<Rightarrow> f)"
proof -
  have eq: "status_consume lib data j = seq (follow_file lib data j) (steps [follow_state lib j, follow_temperatures lib j,
      follow_motion lib j, follow_progress lib j, follow_layers lib data j])"
    "steps [follow_state lib j, follow_temperatures lib j, follow_motion lib j, follow_progress lib j, follow_layers lib data j] =
      seq (follow_state lib j) (steps [follow_temperatures lib j, follow_motion lib j, follow_progress lib j, follow_layers lib data j])"
    by (simp_all add: status_consume_def)
  show "Foreground \<in> set (fst (snd (status_consume lib data j s))) \<longleftrightarrow>
      (case named lib j of None \<Rightarrow> False | Some f \<Rightarrow> f \<noteq> [] \<and> f \<noteq> current_filename s)"
    unfolding eq(1) seq_avoids [OF consume_rest(2)] by (rule follow_file_front [OF assms])
  show "Background \<in> set (fst (snd (status_consume lib data j s))) \<longleftrightarrow> over (reported_state lib j)"
    unfolding eq(1) seq_completes [OF follow_file_completes [OF assms] follow_avoids(6)]
    unfolding eq(2) seq_avoids [OF consume_rest(3)] by (rule follow_state_leaves)
  show "current_filename (fst (status_consume lib data j s)) = (case named lib j of None \<Rightarrow> current_filename s | Some f \<Rightarrow> f)"
    unfolding eq(1) seq_keeps [OF consume_rest(1)] by (rule follow_file_name)
qed

text \<open>
  C30. The panel follows the prints. Over any notifications, the panel comes to the front exactly
  with those that name a file other than the one named last, so once for a print, and it leaves
  exactly with those that report a state in which the print is over: not printing, paused or
  standby. The file that was named last is remembered whatever else a notification has; an empty
  name, which Klipper reports after a print, brings nothing to the front.
\<close>

theorem print_followed:
  assumes "\<forall>(data, j) \<in> set ns. readable lib data"
  shows "moves lib ns s =
    zip (starts (current_filename s) (map (\<lambda>(data, j). named lib j) ns)) (map (\<lambda>(data, j). over (reported_state lib j)) ns)"
  using assms
proof (induction ns arbitrary: s)
  case (Cons n ns)
  obtain data j where n: "n = (data, j)" by (cases n)
  have r: "readable lib data" using Cons.prems n by simp
  obtain s1 cs ok where step: "status_consume lib data j s = (s1, cs, ok)" by (cases "status_consume lib data j s")
  have IH: "moves lib ns s1 = zip (starts (current_filename s1) (map (\<lambda>(data, j). named lib j) ns))
      (map (\<lambda>(data, j). over (reported_state lib j)) ns)"
    using Cons.IH Cons.prems by simp
  show ?case
    using status_consume_moves [OF r, of j s] IH by (auto simp: n step split: option.splits)
qed simp

section \<open>The layer counter\<close>

definition starts_print :: "'j status_lib \<Rightarrow> 'j \<Rightarrow> 'j status_panel \<Rightarrow> bool" where
  "starts_print lib j s = (case named lib j of None \<Rightarrow> False | Some f \<Rightarrow> f \<noteq> [] \<and> f \<noteq> current_filename s)"

fun run :: "'j status_lib \<Rightarrow> ('j state \<times> 'j) list \<Rightarrow> 'j status_panel \<Rightarrow> 'j status_panel" where
  "run lib [] s = s"
| "run lib ((data, j) # ns) s = run lib ns (fst (status_consume lib data j s))"

text \<open>The layers of a report.\<close>

definition reports_layers :: "'j status_lib \<Rightarrow> 'j \<Rightarrow> int \<Rightarrow> int \<Rightarrow> bool" where
  "reports_layers lib info layer layers \<longleftrightarrow>
     \<not> is_null lib info \<and>
     \<not> is_null lib (value_at lib info [''current_layer'']) \<and> get_int lib (value_at lib info [''current_layer'']) = Some layer \<and>
     \<not> is_null lib (value_at lib info [''total_layer'']) \<and> get_int lib (value_at lib info [''total_layer'']) = Some layers"

lemma seq_ok:
  assumes "seq a b s = (s2, cs, True)"
  obtains s1 cs1 cs2 where "a s = (s1, cs1, True)" "b s1 = (s2, cs2, True)" "cs = cs1 @ cs2"
  using assms by (auto simp: seq_def split: prod.splits if_splits)

lemma keeps_result: "keeps f a \<Longrightarrow> a s = (s1, cs, ok) \<Longrightarrow> f s1 = f s"
  unfolding keeps_def by (metis fst_conv)

lemma follow_file_info:
  "\<not> starts_print lib j s \<Longrightarrow> last_layer_info (fst (follow_file lib data j s)) = last_layer_info s"
  by (auto simp: follow_file_def starts_print_def named_def unless_null_def the_panel_def Let_def emit_def change_def
      split: if_splits)

lemma consume_middle:
  "keeps last_layer_info (steps [follow_state lib j, follow_temperatures lib j, follow_motion lib j, follow_progress lib j])"
  by (auto intro!: act_intros follow_keeps)

lemma seq_assoc: "seq (seq a b) c = seq a (seq b c)"
  by (rule ext) (auto simp: seq_def split: prod.splits)

lemma seq_emit_Nil: "seq a (emit []) = a" "seq (emit []) a = a"
  by (rule ext, auto simp: seq_def emit_def split: prod.splits)+

lemma status_consume_parts:
  "status_consume lib data j = seq (follow_file lib data j)
     (seq (steps [follow_state lib j, follow_temperatures lib j, follow_motion lib j, follow_progress lib j])
        (follow_layers lib data j))"
  by (simp add: status_consume_def seq_assoc seq_emit_Nil)

lemma quiet_keeps_info:
  assumes "is_null lib (param lib j [''print_stats'', ''info''])" "\<not> starts_print lib j s"
  shows "last_layer_info (fst (status_consume lib data j s)) = last_layer_info s"
proof -
  have "keeps last_layer_info (follow_layers lib data j)"
    using assms(1) by (auto simp: follow_layers_def unless_null_def intro!: act_intros)
  then have "keeps last_layer_info (seq (steps [follow_state lib j, follow_temperatures lib j, follow_motion lib j, follow_progress lib j])
      (follow_layers lib data j))"
    by (intro act_intros consume_middle)
  from seq_keeps [OF this] show ?thesis by (simp add: status_consume_parts follow_file_info assms(2))
qed

lemma consume_layers:
  assumes "status_consume lib data j s = (s', cs, True)"
    and "info = (if is_null lib (param lib j [''print_stats'', ''info'']) then last_layer_info s
                 else param lib j [''print_stats'', ''info''])"
    and "is_null lib (param lib j [''print_stats'', ''info'']) \<Longrightarrow> \<not> starts_print lib j s"
    and "reports_layers lib info layer layers"
  shows "last cs = UpdateLabel Layers (show_int layer @ '' / '' @ show_int layers)" "last_layer_info s' = info"
proof -
  obtain s1 cs1 ds where 1: "follow_file lib data j s = (s1, cs1, True)" "cs = cs1 @ ds"
    "seq (steps [follow_state lib j, follow_temperatures lib j, follow_motion lib j, follow_progress lib j])
       (follow_layers lib data j) s1 = (s', ds, True)"
    by (rule seq_ok [OF assms(1) [unfolded status_consume_parts]])
  obtain s2 cs2 cs3 where
    mid: "steps [follow_state lib j, follow_temperatures lib j, follow_motion lib j, follow_progress lib j] s1 = (s2, cs2, True)"
    and "follow_layers lib data j s2 = (s', cs3, True)" "ds = cs2 @ cs3"
    by (rule seq_ok [OF 1(3)])
  then have 2: "last_layer_info s2 = last_layer_info s1" "ds = cs2 @ cs3" "follow_layers lib data j s2 = (s', cs3, True)"
    using keeps_result [OF consume_middle mid] by simp_all
  have "is_null lib (param lib j [''print_stats'', ''info'']) \<Longrightarrow> last_layer_info s2 = last_layer_info s"
    using follow_file_info [OF assms(3), of data] 1(1) 2(1) by simp
  then have "is_null lib (param lib j [''print_stats'', ''info'']) \<Longrightarrow> s2\<lparr>last_layer_info := info\<rparr> = s2"
    using assms(2) by (cases s2) simp
  then have "follow_layers lib data j s2 = update_layers lib data (s2\<lparr>last_layer_info := info\<rparr>)"
    using assms(2) by (simp add: follow_layers_def unless_null_def seq_def change_def emit_def split: prod.split)
  moreover have "current_layer lib data info r = Some layer" "max_layer lib info r = Some layers" for r
    using assms(4) by (simp_all add: reports_layers_def current_layer_def max_layer_def Let_def)
  ultimately have "s' = s2\<lparr>last_layer_info := info\<rparr>"
    "cs3 = [UpdateLabel Layers (show_int layer @ '' / '' @ show_int layers)]"
    using 2(3) by (simp_all add: update_layers_def the_panel_def got_def emit_def)
  then show "last cs = UpdateLabel Layers (show_int layer @ '' / '' @ show_int layers)" "last_layer_info s' = info"
    using 1(2) 2(2) by simp_all
qed

lemma status_consume_name:
  "current_filename (fst (status_consume lib data j s)) = (case named lib j of None \<Rightarrow> current_filename s | Some f \<Rightarrow> f)"
proof -
  have "keeps current_filename (seq (steps [follow_state lib j, follow_temperatures lib j, follow_motion lib j, follow_progress lib j])
      (follow_layers lib data j))"
    by (auto intro!: act_intros follow_keeps)
  from seq_keeps [OF this] show ?thesis by (simp add: status_consume_parts follow_file_name)
qed

lemma run_keeps_info:
  assumes "True \<notin> set (starts (current_filename s) (map (\<lambda>(data, j). named lib j) ns))"
    and "\<forall>(data, j) \<in> set ns. is_null lib (param lib j [''print_stats'', ''info''])"
  shows "last_layer_info (run lib ns s) = last_layer_info s"
  using assms
proof (induction ns arbitrary: s)
  case (Cons n ns)
  obtain data j where n: "n = (data, j)" by (cases n)
  let ?s = "fst (status_consume lib data j s)"
  have "\<not> starts_print lib j s" "True \<notin> set (starts (current_filename ?s) (map (\<lambda>(data, j). named lib j) ns))"
    using Cons.prems(1) by (auto simp: n starts_print_def status_consume_name split: option.splits)
  with Cons.IH [of ?s] Cons.prems(2) quiet_keeps_info [of lib j s data] show ?case by (simp add: n)
qed simp

fun last_named :: "string \<Rightarrow> string option list \<Rightarrow> string" where
  "last_named cur [] = cur"
| "last_named cur (None # ns) = last_named cur ns"
| "last_named cur (Some f # ns) = last_named f ns"

lemma starts_snoc: "starts cur (ns @ [n]) = starts cur ns @ [case n of None \<Rightarrow> False | Some f \<Rightarrow> f \<noteq> [] \<and> f \<noteq> last_named cur ns]"
  by (induction cur ns rule: starts.induct) (auto split: option.split)

lemma run_name: "current_filename (run lib ns s) = last_named (current_filename s) (map (\<lambda>(data, j). named lib j) ns)"
  by (induction lib ns s rule: run.induct) (auto simp: status_consume_name split: option.split)

text \<open>
  C31. The layer counter is not lost. Once a notification has reported the layer and the number
  of layers, it and every later notification show them, as long as no other print starts and no
  other layers are reported, whatever these notifications are about.
\<close>

theorem layers_kept:
  assumes "status_consume lib data\<^sub>0 j\<^sub>0 s\<^sub>0 = (s, cs\<^sub>0, True)"
    and "reports_layers lib (param lib j\<^sub>0 [''print_stats'', ''info'']) layer layers"
    and "True \<notin> set (starts (current_filename s) (map (\<lambda>(data, j). named lib j) (ns @ [(data, j)])))"
    and "\<forall>(data, j) \<in> set (ns @ [(data, j)]). is_null lib (param lib j [''print_stats'', ''info''])"
    and "status_consume lib data j (run lib ns s) = (s', cs, True)"
  shows "last cs\<^sub>0 = UpdateLabel Layers (show_int layer @ '' / '' @ show_int layers) \<and>
    last cs = UpdateLabel Layers (show_int layer @ '' / '' @ show_int layers)"
proof
  let ?info = "param lib j\<^sub>0 [''print_stats'', ''info'']"
  have "\<not> is_null lib ?info" using assms(2) by (simp add: reports_layers_def)
  with consume_layers [OF assms(1) _ _ assms(2)] have first: "last_layer_info s = ?info"
    and "last cs\<^sub>0 = UpdateLabel Layers (show_int layer @ '' / '' @ show_int layers)" by simp_all
  then show "last cs\<^sub>0 = UpdateLabel Layers (show_int layer @ '' / '' @ show_int layers)" by simp
  have quiet: "True \<notin> set (starts (current_filename s) (map (\<lambda>(data, j). named lib j) ns))"
    "\<not> starts_print lib j (run lib ns s)"
    using assms(3) by (simp_all add: starts_snoc run_name starts_print_def split: option.splits)
  have "last_layer_info (run lib ns s) = ?info"
    using run_keeps_info [OF quiet(1)] assms(4) first by simp
  then show "last cs = UpdateLabel Layers (show_int layer @ '' / '' @ show_int layers)"
    using consume_layers(1) [OF assms(5), of ?info] quiet(2) assms(2,4) by simp
qed

section \<open>The time left\<close>

lemma mod_mult_div: "0 < b \<Longrightarrow> a mod (b * c) div b = a div b mod c" for a b c :: nat
  by (simp add: mod_mult2_eq)

lemma yday_first_year: "d < 365 \<Longrightarrow> yday 1970 d = d"
  by (simp add: yday.simps [of 1970] year_days_def)

text \<open>
  The time left. While estimate and duration are below half of the range of 32 bits, which is 68
  years, the tile shows the difference, and dots once the print takes longer than estimated; and
  the text of a time below a year has its days, hours, minutes and seconds, the leading ones only
  if they are not zero.
\<close>

theorem time_shown:
  assumes "unat (estimated_time_s s) < 2 ^ 31" "unat t < 2 ^ 31"
  shows "update_time_progress t s =
      (s, (if estimated_time_s s < t then [UpdateLabel TimeLeft ''...'']
           else let left = eta_string (unat (estimated_time_s s) - unat t) in [UpdateLabel TimeLeft left, MiniEta left]) @
          [UpdateLabel Elapsed (eta_string (unat t))], True) \<and>
    (\<forall>d h m sec. d < 365 \<longrightarrow> h < 24 \<longrightarrow> m < 60 \<longrightarrow> sec < 60 \<longrightarrow>
       eta_string (((d * 24 + h) * 60 + m) * 60 + sec) =
         (if d > 0 then show_nat d @ ''d '' else []) @ (if h > 0 then show_nat h @ ''h '' else []) @
         (if m > 0 then show_nat m @ ''m '' else []) @ show_nat sec @ ''s'')"
proof
  let ?e = "estimated_time_s s"
  have signed: "sint (?e - t) = int (unat ?e) - int (unat t)"
  proof -
    have "int (unat ?e) < int (2 ^ 31)" "int (unat t) < int (2 ^ 31)" using assms by (simp_all only: of_nat_less_iff)
    then have bounds: "uint ?e < 2 ^ 31" "uint t < 2 ^ 31" by simp_all
    then have small: "- (2 ^ 31) \<le> uint ?e" "- (2 ^ 31) \<le> uint t" "- (2 ^ 31) \<le> uint ?e - uint t" "uint ?e - uint t < 2 ^ 31"
      using uint_ge_0 [of ?e] uint_ge_0 [of t] by linarith+
    have "sint ?e = uint ?e" "sint t = uint t"
      using signed_take_bit_int_eq_self [OF small(1) bounds(1)] signed_take_bit_int_eq_self [OF small(2) bounds(2)]
      by (simp_all add: sint_uint)
    then have "sint (?e - t) = uint ?e - uint t"
      using signed_take_bit_int_eq_self [OF small(3,4)] by (simp add: sint_word_diff)
    then show ?thesis by simp
  qed
  have "nat (int (unat ?e) - int (unat t)) = unat ?e - unat t" by linarith
  moreover have "?e < t \<longleftrightarrow> int (unat ?e) - int (unat t) < 0" by (simp add: word_less_def)
  ultimately show "update_time_progress t s =
      (s, (if ?e < t then [UpdateLabel TimeLeft ''...'']
           else let left = eta_string (unat ?e - unat t) in [UpdateLabel TimeLeft left, MiniEta left]) @
          [UpdateLabel Elapsed (eta_string (unat t))], True)"
    unfolding update_time_progress_def the_panel_def emit_def signed Let_def by simp
next
  show "\<forall>d h m sec. d < 365 \<longrightarrow> h < 24 \<longrightarrow> m < 60 \<longrightarrow> sec < 60 \<longrightarrow>
       eta_string (((d * 24 + h) * 60 + m) * 60 + sec) =
         (if d > 0 then show_nat d @ ''d '' else []) @ (if h > 0 then show_nat h @ ''h '' else []) @
         (if m > 0 then show_nat m @ ''m '' else []) @ show_nat sec @ ''s''"
  proof (intro allI impI)
    fix d h m sec :: nat assume b: "d < 365" "h < 24" "m < 60" "sec < 60"
    have split: "(q * k + r) div k = q \<and> (q * k + r) mod k = r" if "r < k" for q k r :: nat using that by simp
    define y x s where "y = d * 24 + h" and "x = y * 60 + m" and "s = x * 60 + sec"
    have parts: "s div 60 = x" "s mod 60 = sec" "x div 60 = y" "x mod 60 = m" "y div 24 = d" "y mod 24 = h"
      unfolding s_def x_def y_def using split b by blast+
    have "s div 3600 = y" using div_mult2_eq [of s 60 60] parts(1,3) by simp
    then have "s div 86400 = d" "s mod 86400 div 3600 = h" "s mod 3600 div 60 = m" "s mod 60 = sec"
      using div_mult2_eq [of s 3600 24] mod_mult_div [of 3600 s 24] mod_mult_div [of 60 s 60] parts by simp_all
    moreover have "((d * 24 + h) * 60 + m) * 60 + sec = s" by (simp add: s_def x_def y_def)
    ultimately show "eta_string (((d * 24 + h) * 60 + m) * 60 + sec) =
         (if d > 0 then show_nat d @ ''d '' else []) @ (if h > 0 then show_nat h @ ''h '' else []) @
         (if m > 0 then show_nat m @ ''m '' else []) @ show_nat sec @ ''s''"
      by (simp only: eta_string_def Let_def yday_first_year [OF b(1)])
  qed
qed

section \<open>Concrete notifications\<close>

definition sample_text :: "(string + int) sample \<Rightarrow> string option" where
  "sample_text j = (case j of SNum (Inl s) \<Rightarrow> Some s | _ \<Rightarrow> None)"

definition sample_int :: "(string + int) sample \<Rightarrow> int option" where
  "sample_int j = (case j of SNum (Inr i) \<Rightarrow> Some i | _ \<Rightarrow> None)"

definition sample_status :: "(string + int) sample status_lib" where
  "sample_status = \<lparr>null = SNull, is_null = (\<lambda>j. j = SNull), is_object = sample_object,
     is_empty = (\<lambda>j. j = SNull \<or> j = SObj []), at_ptr = sample_at, index_ptr = (\<lambda>j ks. j),
     merge_patch = sample_merge, elements = (\<lambda>j. []), as_string = sample_text,
     get_int = sample_int, get_bool = (\<lambda>j. None), to_seconds = (\<lambda>j. map_option word_of_int (sample_int j)),
     to_percent = sample_int, to_whole = sample_int, fan_value_to_pct = (\<lambda>f. sample_int),
     short_measure = (\<lambda>j. map_option show_int (sample_int j)), flow_text = (\<lambda>d j. None),
     layer_at = (\<lambda>z first height. sample_int z), stod_ok = (\<lambda>t. True)\<rparr>"

definition sample_note :: "(string \<times> (string + int) sample) list \<Rightarrow> (string + int) sample" where
  "sample_note stats = SObj [(''params'', SObj [(''0'', SObj [(''print_stats'', SObj stats)])])]"

definition sample_panel :: "(string + int) sample status_panel" where
  "sample_panel = \<lparr>estimated_time_s = 0, filament_diameter = None, extruder_target = -1, heater_bed_target = -1,
     current_file = SNull, last_layer_info = SNull, current_filename = [], fan_speeds = [], aux_sensor = []\<rparr>"

theorem print_followed_witness:
  "moves sample_status
     [([], sample_note [(''filename'', SNum (Inl ''a.gcode''))]), ([], sample_note [(''filename'', SNum (Inl ''a.gcode''))]),
      ([], sample_note [(''state'', SNum (Inl ''complete''))])] sample_panel =
   [(True, False), (False, False), (False, True)]"
proof -
  have "readable sample_status []"
    by (simp add: readable_def sample_status_def get_data_def json_lib.truncate_def Let_def)
  then show ?thesis
    using print_followed [where lib = sample_status and s = sample_panel and
        ns = "[([], sample_note [(''filename'', SNum (Inl ''a.gcode''))]), ([], sample_note [(''filename'', SNum (Inl ''a.gcode''))]),
          ([], sample_note [(''state'', SNum (Inl ''complete''))])]"]
    by (simp add: named_def reported_state_def over_def value_at_def sample_status_def sample_note_def sample_panel_def
        sample_text_def)
qed

theorem layers_kept_witness:
  "last (fst (snd (status_consume sample_status [] (sample_note [(''state'', SNum (Inl ''printing''))])
     (fst (status_consume sample_status []
        (sample_note [(''info'', SObj [(''current_layer'', SNum (Inr 3)), (''total_layer'', SNum (Inr 90))])]) sample_panel))))) =
   UpdateLabel Layers ''3 / 90''"
proof -
  let ?report = "sample_note [(''info'', SObj [(''current_layer'', SNum (Inr 3)), (''total_layer'', SNum (Inr 90))])]"
    and ?j = "sample_note [(''state'', SNum (Inl ''printing''))]"
  let ?r = "status_consume sample_status [] ?report sample_panel"
  let ?q = "status_consume sample_status [] ?j (run sample_status [] (fst ?r))"
  note eval = status_consume_parts follow_file_def follow_state_def follow_temperatures_def follow_motion_def follow_progress_def
    follow_layers_def update_layers_def current_layer_def max_layer_def seq_def emit_def change_def got_def unless_null_def
    the_panel_def value_at_def sample_status_def sample_note_def sample_panel_def sample_int_def sample_text_def
  have "snd (snd ?r)" "snd (snd ?q)" by (simp_all add: eval)
  then have ok: "?r = (fst ?r, fst (snd ?r), True)" "?q = (fst ?q, fst (snd ?q), True)" by (simp_all add: prod_eq_iff)
  have info: "reports_layers sample_status (param sample_status ?report [''print_stats'', ''info'']) 3 90"
    "is_null sample_status (param sample_status ?j [''print_stats'', ''info''])" "named sample_status ?j = None"
    by (simp_all add: reports_layers_def named_def value_at_def sample_status_def sample_note_def sample_int_def)
  have "True \<notin> set (starts (current_filename (fst ?r)) (map (\<lambda>(data, j). named sample_status j) ([] @ [([], ?j)])))"
    "\<forall>(data, j) \<in> set ([] @ [([] :: (string + int) sample state, ?j)]). is_null sample_status (param sample_status j [''print_stats'', ''info''])"
    using info by simp_all
  moreover have "show_int 3 @ '' / '' @ show_int 90 = ''3 / 90''" by code_simp
  ultimately show ?thesis using layers_kept [OF ok(1) info(1) _ _ ok(2)] by simp
qed

end
