(* ===== verification/Text_Codec.thy ===== *)
theory Text_Codec
  imports Wpabuf
begin

text \<open>
  Texts for binary data (\<open>src/utils/common.c\<close> of wpa\_supplicant): the escapes of \<open>printf\<close>, in
  which names of networks are reported, hexadecimal text, hardware addresses, the escapes of UTF-8
  text, and the strings of the configuration. A C string is the list of its bytes without the
  final zero; reading at its end gives the zero. Whether allocations succeed is an argument.
\<close>

section \<open>Escapes of printf\<close>

text \<open>The digits of \<open>%02x\<close>.\<close>

definition hexdigit :: "nat \<Rightarrow> u8" where
  "hexdigit n = (if n < 10 then of_nat (48 + n) else of_nat (87 + n))"

definition hex02 :: "u8 \<Rightarrow> u8 list" where
  "hex02 b = [hexdigit (unat b div 16), hexdigit (unat b mod 16)]"

definition encode_byte :: "u8 \<Rightarrow> u8 list" where
  "encode_byte b =
     (if b = 34 then [92, 34]
      else if b = 92 then [92, 92]
      else if b = 27 then [92, byte (CHR ''e'')]
      else if b = 10 then [92, byte (CHR ''n'')]
      else if b = 13 then [92, byte (CHR ''r'')]
      else if b = 9 then [92, byte (CHR ''t'')]
      else if 32 \<le> b \<and> b \<le> 126 then [b]
      else [92, byte (CHR ''x'')] @ hex02 b)"

fun encode_from :: "nat \<Rightarrow> u8 list \<Rightarrow> u8 list \<Rightarrow> u8 list" where
  "encode_from maxlen txt [] = txt"
| "encode_from maxlen txt (b # data) =
     (if maxlen \<le> length txt + 4 then txt else encode_from maxlen (txt @ encode_byte b) data)"

text \<open>The text that is stored; its final zero has to be in the buffer too.\<close>

definition printf_encode :: "nat \<Rightarrow> u8 list \<Rightarrow> u8 list outcome" where
  "printf_encode maxlen data =
     (let txt = encode_from maxlen [] data in if length txt < maxlen then Ret txt else OutOfBounds)"

definition at_nul :: "u8 list \<Rightarrow> nat \<Rightarrow> u8" where
  "at_nul s i = (if i < length s then s ! i else 0)"

definition is_octal :: "u8 \<Rightarrow> bool" where
  "is_octal c \<longleftrightarrow> 48 \<le> c \<and> c \<le> 55"

text \<open>Up to three octal digits: their value, stored in a byte, and how many there are.\<close>

definition octal :: "u8 list \<Rightarrow> u8 \<times> nat" where
  "octal pos =
     (let v1 = uint (at_nul pos 0) - 48
      in if \<not> is_octal (at_nul pos 1) then (word_of_int v1, 1)
         else
           let v2 = v1 * 8 + (uint (at_nul pos 1) - 48)
           in if \<not> is_octal (at_nul pos 2) then (word_of_int v2, 2)
              else (word_of_int (v2 * 8 + (uint (at_nul pos 2) - 48)), 3))"

text \<open>\<open>\x\<close> and what follows it: the byte, if any, and how many characters.\<close>

definition hex_escape :: "u8 list \<Rightarrow> u8 list \<times> nat" where
  "hex_escape pos =
     (let val = hex2byte (at_nul pos 0) (at_nul pos 1)
      in if val < 0
         then (let v = hex2num (at_nul pos 0) in if v < 0 then ([], 0) else ([word_of_int v], 1))
         else ([word_of_int val], 2))"

text \<open>What a backslash and the characters behind it give: bytes, and how many characters are used.\<close>

definition decode_escape :: "u8 list \<Rightarrow> u8 list \<times> nat" where
  "decode_escape pos =
     (let c = at_nul pos 0
      in if c = 92 then ([92], 1)
         else if c = 34 then ([34], 1)
         else if c = byte (CHR ''n'') then ([10], 1)
         else if c = byte (CHR ''r'') then ([13], 1)
         else if c = byte (CHR ''t'') then ([9], 1)
         else if c = byte (CHR ''e'') then ([27], 1)
         else if c = byte (CHR ''x'') then (case hex_escape (drop 1 pos) of (bs, n) \<Rightarrow> (bs, 1 + n))
         else if is_octal c then (case octal pos of (b, n) \<Rightarrow> ([b], n))
         else ([], 0))"

function decode_from :: "nat \<Rightarrow> u8 list \<Rightarrow> u8 list \<Rightarrow> u8 list" where
  "decode_from maxlen buf str =
     (if str = [] \<or> maxlen \<le> length buf + 1 then buf
      else if hd str = 92
      then (case decode_escape (tl str) of (bs, n) \<Rightarrow> decode_from maxlen (buf @ bs) (drop n (tl str)))
      else decode_from maxlen (buf @ [hd str]) (tl str))"
  by pat_completeness auto
termination
  by (relation "measure (\<lambda>(maxlen, buf, str). length str)") (auto simp: neq_Nil_conv)

declare decode_from.simps [simp del]

text \<open>The bytes that are stored, of which the length is returned.\<close>

definition printf_decode :: "nat \<Rightarrow> u8 list \<Rightarrow> u8 list" where
  "printf_decode maxlen str = decode_from maxlen [] str"

definition wpa_ssid_txt :: "u8 list option \<Rightarrow> u8 list outcome" where
  "wpa_ssid_txt ssid = (case ssid of None \<Rightarrow> Ret [] | Some s \<Rightarrow> printf_encode (32 * 4 + 1) s)"

section \<open>Strings of the configuration\<close>

fun strrchr :: "u8 list \<Rightarrow> u8 \<Rightarrow> nat option" where
  "strrchr [] c = None"
| "strrchr (b # bs) c =
     (case strrchr bs c of Some i \<Rightarrow> Some (i + 1) | None \<Rightarrow> if b = c then Some 0 else None)"

fun strchr :: "u8 list \<Rightarrow> u8 \<Rightarrow> nat option" where
  "strchr [] c = None"
| "strchr (b # bs) c = (if b = c then Some 0 else map_option Suc (strchr bs c))"

text \<open>The result and its length, as the list of its bytes; \<open>None\<close> is NULL.\<close>

definition wpa_config_parse_string :: "bool \<Rightarrow> u8 list \<Rightarrow> u8 list option" where
  "wpa_config_parse_string alloc value =
     (if at_nul value 0 = 34 then
        (let v = drop 1 value
         in case strrchr v 34 of
              None \<Rightarrow> None
            | Some pos \<Rightarrow> if at_nul v (pos + 1) \<noteq> 0 \<or> \<not> alloc then None else Some (take pos v))
      else if at_nul value 0 = byte (CHR ''P'') \<and> at_nul value 1 = 34 then
        (let v = drop 2 value
         in case strrchr v 34 of
              None \<Rightarrow> None
            | Some pos \<Rightarrow>
                if at_nul v (pos + 1) \<noteq> 0 \<or> \<not> alloc then None else Some (printf_decode (pos + 1) (take pos v)))
      else
        if odd (length value) \<or> \<not> alloc then None else hexstr2bin value (length value div 2))"

definition ssid_parse :: "bool \<Rightarrow> u8 list \<Rightarrow> u8 list option" where
  "ssid_parse alloc buf =
     (if \<not> alloc then None
      else
        let finish = (\<lambda>tmp. case wpa_config_parse_string alloc tmp of
               None \<Rightarrow> None
             | Some res \<Rightarrow> if length res \<le> 32 \<and> res \<noteq> [] then Some res else None)
        in if at_nul buf 0 \<noteq> 34
           then finish (case strchr buf 32 of None \<Rightarrow> buf | Some i \<Rightarrow> take i buf)
           else case strchr (drop 1 buf) 34 of None \<Rightarrow> None | Some i \<Rightarrow> finish (take (i + 2) buf))"

section \<open>Hardware addresses and hexadecimal text\<close>

text \<open>Addresses are six bytes. The result is the address and the rest of the text.\<close>

fun hwaddr_from :: "nat \<Rightarrow> u8 list \<Rightarrow> (u8 list \<times> u8 list) option" where
  "hwaddr_from 0 txt = Some ([], txt)"
| "hwaddr_from (Suc left) txt =
     (let a = hex2byte (at_nul txt 0) (at_nul txt 1)
      in if a < 0 then None
         else if left \<noteq> 0 \<and> at_nul txt 2 \<noteq> byte (CHR '':'') then None
         else map_option (\<lambda>(addr, r). (word_of_int a # addr, r)) (hwaddr_from left (drop (if left \<noteq> 0 then 3 else 2) txt)))"

definition hwaddr_parse :: "u8 list \<Rightarrow> (u8 list \<times> u8 list) option" where
  "hwaddr_parse txt = hwaddr_from 6 txt"

definition hwaddr_aton :: "u8 list \<Rightarrow> u8 list option" where
  "hwaddr_aton txt = map_option fst (hwaddr_parse txt)"

definition is_cspace :: "u8 \<Rightarrow> bool" where
  "is_cspace c \<longleftrightarrow> c = 32 \<or> 9 \<le> c \<and> c \<le> 13"

definition hwaddr_masked_aton :: "u8 list \<Rightarrow> bool \<Rightarrow> (u8 list \<times> u8 list) option" where
  "hwaddr_masked_aton txt maskable =
     (case hwaddr_parse txt of
        None \<Rightarrow> None
      | Some (addr, r) \<Rightarrow>
          if at_nul r 0 = 0 \<or> is_cspace (at_nul r 0) then Some (addr, replicate 6 0xff)
          else if maskable \<and> at_nul r 0 = byte (CHR ''/'')
          then (case hwaddr_parse (drop 1 r) of None \<Rightarrow> None | Some (msk, _) \<Rightarrow> Some (addr, msk))
          else None)"

fun compact_from :: "nat \<Rightarrow> u8 list \<Rightarrow> u8 list option" where
  "compact_from 0 txt = Some []"
| "compact_from (Suc left) txt =
     (let a = hex2num (at_nul txt 0)
      in if a < 0 then None
         else let b = hex2num (at_nul txt 1)
              in if b < 0 then None
                 else map_option (Cons (word_of_int (push_bit 4 a OR b))) (compact_from left (drop 2 txt)))"

definition hwaddr_compact_aton :: "u8 list \<Rightarrow> u8 list option" where
  "hwaddr_compact_aton txt = compact_from 6 txt"

definition is_separator :: "u8 \<Rightarrow> bool" where
  "is_separator c \<longleftrightarrow> c \<in> set [byte (CHR '':''), byte (CHR ''.''), byte (CHR ''-'')]"

text \<open>The address, and the number of characters used.\<close>

fun aton2_from :: "nat \<Rightarrow> u8 list \<Rightarrow> (u8 list \<times> u8 list) option" where
  "aton2_from 0 pos = Some ([], pos)"
| "aton2_from (Suc left) pos =
     (let pos1 = dropWhile is_separator pos; a = hex2num (at_nul pos1 0)
      in if a < 0 then None
         else let b = hex2num (at_nul pos1 1)
              in if b < 0 then None
                 else map_option (\<lambda>(addr, r). (word_of_int (push_bit 4 a OR b) # addr, r)) (aton2_from left (drop 2 pos1)))"

definition hwaddr_aton2 :: "u8 list \<Rightarrow> (u8 list \<times> nat) option" where
  "hwaddr_aton2 txt = map_option (\<lambda>(addr, r). (addr, length txt - length r)) (aton2_from 6 txt)"

text \<open>\<open>MACSTR\<close>, and the address with its mask unless the mask is all ones.\<close>

fun macstr :: "u8 list \<Rightarrow> u8 list" where
  "macstr [] = []"
| "macstr [b] = hex02 b"
| "macstr (b # c # bs) = hex02 b @ [byte (CHR '':'')] @ macstr (c # bs)"

definition hwaddr_mask_txt :: "nat \<Rightarrow> u8 list \<Rightarrow> u8 list \<Rightarrow> u8 list option" where
  "hwaddr_mask_txt len addr msk =
     (let txt = (if list_ex (\<lambda>m. m \<noteq> 0xff) msk then macstr addr @ [byte (CHR ''/'')] @ macstr msk else macstr addr)
      in if len \<le> length txt then None else Some txt)"

text \<open>As many bytes as fit are printed.\<close>

fun snprintf_hex_from :: "nat \<Rightarrow> u8 list \<Rightarrow> u8 list \<Rightarrow> u8 list" where
  "snprintf_hex_from buf_size out [] = out"
| "snprintf_hex_from buf_size out (b # data) =
     (if buf_size - length out \<le> 2 then out else snprintf_hex_from buf_size (out @ hex02 b) data)"

definition wpa_snprintf_hex :: "nat \<Rightarrow> u8 list \<Rightarrow> u8 list" where
  "wpa_snprintf_hex buf_size data = (if buf_size = 0 then [] else snprintf_hex_from buf_size [] data)"

section \<open>Classification and merging\<close>

definition is_hex :: "u8 list \<Rightarrow> bool" where
  "is_hex data \<longleftrightarrow> list_ex (\<lambda>b. b < 32 \<or> 127 \<le> b) data"

definition has_ctrl_char :: "u8 list \<Rightarrow> bool" where
  "has_ctrl_char data \<longleftrightarrow> list_ex (\<lambda>b. b < 32 \<or> b = 127) data"

definition has_newline :: "u8 list \<Rightarrow> bool" where
  "has_newline str \<longleftrightarrow> list_ex (\<lambda>b. b = 10 \<or> b = 13) str"

text \<open>The buffer of \<open>res_len\<close> bytes, and the length that is returned.\<close>

definition merge_byte_arrays :: "nat \<Rightarrow> u8 list option \<Rightarrow> u8 list option \<Rightarrow> u8 list \<times> nat" where
  "merge_byte_arrays res_len src1 src2 =
     (let zeros = replicate res_len 0;
          second = (\<lambda>res len. case src2 of
             None \<Rightarrow> (res, len)
           | Some s \<Rightarrow> if res_len \<le> len + length s then (put_at len (take (res_len - len) s) res, res_len)
                        else (put_at len s res, len + length s))
      in case src1 of
           None \<Rightarrow> second zeros 0
         | Some s \<Rightarrow> if res_len \<le> length s then (take res_len s, res_len) else second (put_at 0 s zeros) (length s))"

section \<open>Escapes of UTF-8 text\<close>

text \<open>The output, or \<open>None\<close> when it does not fit, where the functions return 0.\<close>

fun escape_from :: "nat \<Rightarrow> u8 list \<Rightarrow> u8 list \<Rightarrow> u8 list option" where
  "escape_from out_size out [] = Some out"
| "escape_from out_size out (b # inp) =
     (if out_size \<le> length out then None
      else if b = 92 \<or> b = 39
      then (if out_size \<le> length out + 1 then None else escape_from out_size (out @ [92, b]) inp)
      else escape_from out_size (out @ [b]) inp)"

definition utf8_escape :: "nat \<Rightarrow> u8 list \<Rightarrow> u8 list option" where
  "utf8_escape out_size inp = escape_from out_size [] inp"

fun unescape_from :: "nat \<Rightarrow> u8 list \<Rightarrow> u8 list \<Rightarrow> u8 list option" where
  "unescape_from out_size out [] = Some out"
| "unescape_from out_size out (b # inp) =
     (if out_size \<le> length out then None
      else if b = 39 then Some out
      else if b = 92 then (case inp of [] \<Rightarrow> None | c # cs \<Rightarrow> unescape_from out_size (out @ [c]) cs)
      else unescape_from out_size (out @ [b]) inp)"

definition utf8_unescape :: "nat \<Rightarrow> u8 list \<Rightarrow> u8 list option" where
  "utf8_unescape out_size inp =
     unescape_from out_size [] (if inp \<noteq> [] \<and> hd inp = 39 then tl inp else inp)"

section \<open>What is encoded is decoded\<close>

lemma hex_digits: "list_all (\<lambda>n. hex2num (hexdigit n) = int n \<and>
    (48 \<le> hexdigit n \<and> hexdigit n \<le> 57 \<or> 97 \<le> hexdigit n \<and> hexdigit n \<le> 102)) [0..<16]"
  by code_simp

lemma hexdigit_num: "n < 16 \<Longrightarrow> hex2num (hexdigit n) = int n"
  using hex_digits by (simp add: list_all_iff Ball_def)

lemma hexdigit_range: "n < 16 \<Longrightarrow> 48 \<le> hexdigit n \<and> hexdigit n \<le> 57 \<or> 97 \<le> hexdigit n \<and> hexdigit n \<le> 102"
  using hex_digits by (simp add: list_all_iff Ball_def)

lemma nibbles: "unat (b::u8) div 16 < 16" "unat b mod 16 < 16"
  using unat_u8 [of b] by (auto simp: less_mult_imp_div_less)

lemma push_or: "b < 16 \<Longrightarrow> 0 \<le> b \<Longrightarrow> push_bit 4 a OR b = a * 16 + b" for a b :: int
proof -
  assume b: "b < 16" "0 \<le> b"
  then have "take_bit 4 b = b" by (simp add: take_bit_int_eq_self)
  then have "\<not> bit b n" if "4 \<le> n" for n using that by (metis bit_take_bit_iff linorder_not_less)
  then have "push_bit 4 a AND b = 0" by (intro bit_eqI) (auto simp: bit_simps)
  then have "push_bit 4 a OR b = push_bit 4 a + b" by (simp add: plus_and_or [of "push_bit 4 a" b, symmetric])
  then show ?thesis by (simp add: push_bit_eq_mult)
qed

lemma hex2byte_hex02: "hex2byte (hexdigit (unat b div 16)) (hexdigit (unat b mod 16)) = uint (b :: u8)"
proof -
  have "int (unat b div 16) * 16 + int (unat b mod 16) = int (unat b)"
    by (metis div_mult_mod_eq of_nat_add of_nat_mult of_nat_numeral)
  then show ?thesis
    using nibbles [of b] by (simp add: hex2byte_def hexdigit_num push_or)
qed

lemma hex02_printable: "c \<in> set (hex02 b) \<Longrightarrow> 32 \<le> c \<and> c \<le> 126 \<and> c \<noteq> 34 \<and> c \<noteq> 80"
  using hexdigit_range [OF nibbles(1), of b] hexdigit_range [OF nibbles(2), of b]
  by (auto simp: hex02_def word_le_nat_alt)

lemma byte_constants [byte_simps]:
  "byte (CHR ''e'') = 101" "byte (CHR ''n'') = 110" "byte (CHR ''r'') = 114" "byte (CHR ''t'') = 116"
  "byte (CHR ''x'') = 120" "byte (CHR ''P'') = 80" "byte (CHR '':'') = 58" "byte (CHR ''/'') = 47"
  by (simp_all add: of_char_def)

lemma encode_byte_cases:
  obtains (code) c where "encode_byte b = [92, c]" "(c, b) \<in> set [(34, 34), (92, 92), (101, 27), (110, 10), (114, 13), (116, 9)]"
  | (plain) "encode_byte b = [b]" "32 \<le> b" "b \<le> 126" "b \<noteq> 34" "b \<noteq> 92"
  | (hex) "encode_byte b = [92, 120] @ hex02 b" "b < 32 \<or> 126 < b"
  unfolding encode_byte_def byte_simps
  by (cases "b = 34"; cases "b = 92"; cases "b = 27"; cases "b = 10"; cases "b = 13"; cases "b = 9"; cases "32 \<le> b \<and> b \<le> 126")
    (auto simp: not_le)

lemma encode_byte_printable: "c \<in> set (encode_byte b) \<Longrightarrow> 32 \<le> c \<and> c \<le> 126"
  by (cases rule: encode_byte_cases [of b]) (auto dest: hex02_printable)

lemma encode_byte_length: "1 \<le> length (encode_byte b)" "length (encode_byte b) \<le> 4"
  by (cases rule: encode_byte_cases [of b]; auto simp: hex02_def)+

lemma length_encoded: "length data \<le> length (concat (map encode_byte data))"
proof (induction data)
  case (Cons b data)
  then show ?case using encode_byte_length(1) [of b] by (simp only: list.map concat.simps length_append list.size)
qed simp

lemma decode_encode_byte:
  assumes "length buf + 1 < maxlen"
  shows "decode_from maxlen buf (encode_byte b @ rest) = decode_from maxlen (buf @ [b]) rest"
proof (cases rule: encode_byte_cases [of b])
  case (code c)
  then have "decode_escape (c # rest) = ([b], 1)"
    by (auto simp: decode_escape_def at_nul_def byte_simps)
  then show ?thesis using code assms by (simp add: decode_from.simps [of maxlen buf])
next
  case plain
  then show ?thesis using assms by (simp add: decode_from.simps [of maxlen buf])
next
  case hex
  have "hex_escape (hex02 b @ rest) = ([b], 2)"
    by (simp add: hex_escape_def hex02_def at_nul_def hex2byte_hex02)
  then have "decode_escape (120 # hex02 b @ rest) = ([b], 3)"
    by (simp add: decode_escape_def at_nul_def byte_simps)
  then show ?thesis using hex assms by (simp add: decode_from.simps [of maxlen buf] hex02_def)
qed

lemma decode_encoded:
  "length buf + length data < maxlen \<Longrightarrow> decode_from maxlen buf (concat (map encode_byte data)) = buf @ data"
  by (induction data arbitrary: buf) (simp_all add: decode_encode_byte decode_from.simps [of _ _ "[]"])

lemma encode_from_prefix:
  "\<exists>k \<le> length data. encode_from maxlen out data = out @ concat (map encode_byte (take k data)) \<and>
     (length out < maxlen \<longrightarrow> length (encode_from maxlen out data) < maxlen) \<and>
     (length out + 4 * length data < maxlen \<longrightarrow> k = length data)"
proof (induction data arbitrary: out)
  case (Cons b data)
  show ?case
  proof (cases "maxlen \<le> length out + 4")
    case False
    from Cons.IH [of "out @ encode_byte b"] obtain k where k: "k \<le> length data"
      "encode_from maxlen (out @ encode_byte b) data = (out @ encode_byte b) @ concat (map encode_byte (take k data))"
      "length (out @ encode_byte b) < maxlen \<longrightarrow> length (encode_from maxlen (out @ encode_byte b) data) < maxlen"
      "length (out @ encode_byte b) + 4 * length data < maxlen \<longrightarrow> k = length data" by blast
    have "length (out @ encode_byte b) < maxlen" using False encode_byte_length(2) [of b] by simp
    with k False encode_byte_length(2) [of b] show ?thesis by (intro exI [of _ "Suc k"]) auto
  qed (auto intro!: exI [of _ 0])
qed auto

lemma decode_from_length: "length buf < maxlen \<Longrightarrow> length (decode_from maxlen buf str) < maxlen"
proof (induction maxlen buf str rule: decode_from.induct)
  case (1 maxlen buf str)
  have "length (fst (decode_escape (tl str))) \<le> 1"
    by (auto simp: decode_escape_def hex_escape_def octal_def Let_def split: if_splits prod.splits)
  with 1 show ?case
    by (subst decode_from.simps) (auto split: prod.splits)
qed

text \<open>
  The escapes of names. For any data and any buffer that is not empty, \<open>printf_encode\<close> stays
  within the buffer and stores a text of printable ASCII characters that \<open>printf_decode\<close> turns
  back into the data, or into the beginning of it that fits: all of it if the buffer has more than
  four bytes for each byte of data. \<open>printf_decode\<close> of any text stays within its buffer.
\<close>

theorem printf_roundtrip:
  assumes "0 < maxlen"
  shows "\<exists>txt k. printf_encode maxlen data = Ret txt \<and> length txt < maxlen \<and> (\<forall>c \<in> set txt. 32 \<le> c \<and> c \<le> 126) \<and>
    k \<le> length data \<and> printf_decode maxlen txt = take k data \<and> (4 * length data < maxlen \<longrightarrow> k = length data) \<and>
    length (printf_decode maxlen str) < maxlen"
proof -
  obtain k where "k \<le> length data" "encode_from maxlen [] data = [] @ concat (map encode_byte (take k data))"
    "length ([] :: u8 list) < maxlen \<longrightarrow> length (encode_from maxlen [] data) < maxlen"
    "length ([] :: u8 list) + 4 * length data < maxlen \<longrightarrow> k = length data"
    using encode_from_prefix [of data maxlen "[]"] by blast
  then have k: "k \<le> length data" "encode_from maxlen [] data = concat (map encode_byte (take k data))"
    "length (encode_from maxlen [] data) < maxlen" "4 * length data < maxlen \<longrightarrow> k = length data"
    using assms by simp_all
  let ?txt = "concat (map encode_byte (take k data))"
  have "length (take k data) < maxlen" by (rule le_less_trans [OF length_encoded k(3) [unfolded k(2)]])
  then have "printf_decode maxlen ?txt = take k data" by (simp add: printf_decode_def decode_encoded)
  moreover have "\<forall>c \<in> set ?txt. 32 \<le> c \<and> c \<le> 126" by (auto dest: encode_byte_printable)
  ultimately show ?thesis
    using k decode_from_length [of "[]" maxlen str] assms
    by (intro exI [of _ ?txt] exI [of _ k]) (simp add: printf_encode_def printf_decode_def)
qed

theorem printf_roundtrip_witness:
  "\<exists>txt k. printf_encode 129 [67, 0xc3, 0xa9, 34] = Ret txt \<and> length txt < 129 \<and> (\<forall>c \<in> set txt. 32 \<le> c \<and> c \<le> 126) \<and>
    k \<le> length [67, 0xc3, 0xa9, 34 :: u8] \<and> printf_decode 129 txt = take k [67, 0xc3, 0xa9, 34] \<and>
    (4 * length [67, 0xc3, 0xa9, 34 :: u8] < 129 \<longrightarrow> k = length [67, 0xc3, 0xa9, 34 :: u8]) \<and> length (printf_decode 129 [92]) < 129"
  by (rule printf_roundtrip) simp

section \<open>Configuration strings\<close>

lemma strrchr_last: "strrchr (s @ [c]) c = Some (length s)"
  by (induction s) simp_all

text \<open>
  The three forms of a string of the configuration: quoted as it is, with escapes, and in
  hexadecimal digits.
\<close>

theorem config_string_forms:
  shows "wpa_config_parse_string True ([34] @ data @ [34]) = Some data"
    and "wpa_config_parse_string True ([80, 34] @ concat (map encode_byte data) @ [34]) = Some data"
    and "wpa_config_parse_string True (concat (map hex02 data)) = Some data"
proof -
  show "wpa_config_parse_string True ([34] @ data @ [34]) = Some data"
    by (simp add: wpa_config_parse_string_def at_nul_def strrchr_last)
  have "printf_decode (length (concat (map encode_byte data)) + 1) (concat (map encode_byte data)) = data"
    using decode_encoded [of "[]" data "length (concat (map encode_byte data)) + 1"] length_encoded [of data]
    unfolding printf_decode_def by (simp only: append_Nil list.size le_imp_less_Suc Suc_eq_plus1 [symmetric] add_0 simp_thms)
  then show "wpa_config_parse_string True ([80, 34] @ concat (map encode_byte data) @ [34]) = Some data"
    by (simp add: wpa_config_parse_string_def at_nul_def byte_simps strrchr_last)
  have "hexstr2bin (concat (map hex02 ds)) (length ds) = Some ds" for ds
    by (induction ds) (simp_all add: hex02_def hex2byte_hex02)
  moreover have "length (concat (map hex02 data)) = 2 * length data" by (induction data) (simp_all add: hex02_def)
  moreover have "at_nul (concat (map hex02 data)) 0 \<noteq> 34" "at_nul (concat (map hex02 data)) 0 \<noteq> 80"
    using hex02_printable by (cases data; fastforce simp: at_nul_def hex02_def)+
  ultimately show "wpa_config_parse_string True (concat (map hex02 data)) = Some data"
    by (simp add: wpa_config_parse_string_def byte_simps)
qed

section \<open>Addresses\<close>

lemma hwaddr_from_macstr: "addr \<noteq> [] \<Longrightarrow> hwaddr_from (length addr) (macstr addr @ r) = Some (addr, r)"
proof (induction addr rule: macstr.induct)
  case (2 b)
  then show ?case by (simp add: hex02_def at_nul_def hex2byte_hex02)
next
  case (3 b c bs)
  then show ?case by (simp add: hex02_def at_nul_def hex2byte_hex02 byte_simps)
qed simp

lemma hex_pair: "word_of_int (push_bit 4 (hex2num (hexdigit (unat b div 16))) OR hex2num (hexdigit (unat b mod 16))) = (b :: u8)"
  using hex2byte_hex02 [of b] nibbles [of b] by (simp add: hex2byte_def hexdigit_num)

lemma compact_from_hex: "compact_from (length addr) (concat (map hex02 addr) @ r) = Some addr"
proof (induction addr)
  case (Cons b addr)
  then show ?case
    using hex_pair [of b] nibbles [of b] by (simp add: hex02_def at_nul_def hexdigit_num)
qed simp

lemma not_separator: "dropWhile is_separator (hex02 b @ s) = hex02 b @ s"
  using hexdigit_range [OF nibbles(1), of b]
  by (auto simp: hex02_def is_separator_def of_char_def word_le_nat_alt)

lemma aton2_step:
  "aton2_from (Suc left) (hex02 b @ s) = map_option (\<lambda>(addr, r). (b # addr, r)) (aton2_from left s)"
  "aton2_from (Suc left) (58 # hex02 b @ s) = map_option (\<lambda>(addr, r). (b # addr, r)) (aton2_from left s)"
proof -
  have "dropWhile is_separator (58 # hex02 b @ s) = hex02 b @ s" "dropWhile is_separator (hex02 b @ s) = hex02 b @ s"
    using not_separator by (simp_all add: is_separator_def of_char_def)
  then show
    "aton2_from (Suc left) (hex02 b @ s) = map_option (\<lambda>(addr, r). (b # addr, r)) (aton2_from left s)"
    "aton2_from (Suc left) (58 # hex02 b @ s) = map_option (\<lambda>(addr, r). (b # addr, r)) (aton2_from left s)"
    using hex_pair [of b] nibbles [of b]
    by (simp_all add: Let_def) (simp_all add: hex02_def at_nul_def hexdigit_num)
qed

lemma aton2_from_macstr:
  "addr \<noteq> [] \<Longrightarrow> aton2_from (length addr) (macstr addr @ r) = Some (addr, r)"
  "addr \<noteq> [] \<Longrightarrow> aton2_from (length addr) (58 # macstr addr @ r) = Some (addr, r)"
proof (induction addr rule: macstr.induct)
  case (2 b)
  case 1 show ?case by (simp add: aton2_step del: aton2_from.simps) (simp add: aton2_from.simps)
  case 2 show ?case by (simp add: aton2_step del: aton2_from.simps) (simp add: aton2_from.simps)
next
  case (3 b c bs)
  case 1 show ?case using 3 by (simp add: aton2_step byte_simps del: aton2_from.simps)
  case 2 show ?case using 3 by (simp add: aton2_step byte_simps del: aton2_from.simps)
qed simp_all

lemma aton2_from_hex: "aton2_from (length addr) (concat (map hex02 addr) @ r) = Some (addr, r)"
  by (induction addr) (simp_all add: aton2_step aton2_from.simps(1) del: aton2_from.simps(2))

lemma length_macstr: "addr \<noteq> [] \<Longrightarrow> length (macstr addr) = 3 * length addr - 1"
  by (induction addr rule: macstr.induct) (simp_all add: hex02_def)

lemma length_hex: "length (concat (map hex02 addr)) = 2 * length addr"
  by (induction addr) (simp_all add: hex02_def)

lemma parse_macstr: "length addr = 6 \<Longrightarrow> hwaddr_parse (macstr addr @ r) = Some (addr, r)"
  using hwaddr_from_macstr [of addr r] by (cases addr) (simp_all add: hwaddr_parse_def)

lemma macstr_chars: "c \<in> set (macstr addr) \<Longrightarrow> 48 \<le> c"
proof (induction addr rule: macstr.induct)
  case (2 b)
  then show ?case using hexdigit_range [OF nibbles(1), of b] hexdigit_range [OF nibbles(2), of b] 
    by (auto simp: hex02_def word_le_nat_alt)
next
  case (3 b c bs)
  then show ?case using hexdigit_range [OF nibbles(1), of b] hexdigit_range [OF nibbles(2), of b]
    by (auto simp: hex02_def word_le_nat_alt byte_simps)
qed simp

text \<open>The text of an address with its mask, at the end of a text and in front of a space.\<close>

lemma mask_txt_parsed:
  assumes "length addr = 6" "length msk = 6" "hwaddr_mask_txt len addr msk = Some t" "rest = [] \<or> hd rest = 32"
  shows "hwaddr_masked_aton (t @ rest) True = Some (addr, msk)"
proof -
  have ones: "\<not> list_ex (\<lambda>m. m \<noteq> 0xff) msk \<Longrightarrow> msk = replicate 6 0xff"
    using assms(2) by (intro nth_equalityI) (auto simp: list_ex_iff)
  have rest: "at_nul rest 0 = 0 \<or> at_nul rest 0 = 32" using assms(4) by (cases rest) (auto simp: at_nul_def)
  have "hwaddr_masked_aton (macstr addr @ rest) True = Some (addr, replicate 6 0xff)"
    using parse_macstr [OF assms(1)] rest by (auto simp: hwaddr_masked_aton_def is_cspace_def)
  moreover have "hwaddr_masked_aton (macstr addr @ 47 # macstr msk @ rest) True = Some (addr, msk)"
    using parse_macstr [OF assms(1)] parse_macstr [OF assms(2)]
    by (simp add: hwaddr_masked_aton_def at_nul_def byte_simps is_cspace_def)
  ultimately show ?thesis
    using ones assms(3) by (auto simp: hwaddr_mask_txt_def Let_def byte_simps split: if_splits)
qed

lemma mask_txt_form:
  assumes "length addr = 6" "length msk = 6"
  shows "hwaddr_mask_txt len addr msk = Some t \<Longrightarrow> t \<noteq> [] \<and> length t \<le> 35 \<and> (\<forall>c \<in> set t. 47 \<le> c) \<and> length t < len"
    and "35 < len \<Longrightarrow> \<exists>t. hwaddr_mask_txt len addr msk = Some t"
proof -
  have lens: "length (macstr addr) = 17" "length (macstr msk) = 17"
    using length_macstr [of addr] length_macstr [of msk] assms by fastforce+
  have "\<forall>c \<in> set (macstr addr) \<union> set (macstr msk). 47 \<le> c" using macstr_chars by (force simp: word_le_nat_alt)
  moreover have "macstr addr \<noteq> []" using lens(1) by auto
  ultimately show "hwaddr_mask_txt len addr msk = Some t \<Longrightarrow> t \<noteq> [] \<and> length t \<le> 35 \<and> (\<forall>c \<in> set t. 47 \<le> c) \<and> length t < len"
    using lens by (auto simp: hwaddr_mask_txt_def Let_def byte_simps split: if_splits)
  show "35 < len \<Longrightarrow> \<exists>t. hwaddr_mask_txt len addr msk = Some t"
    using lens by (simp add: hwaddr_mask_txt_def Let_def)
qed

text \<open>
  Addresses and their masks are read back as they are printed. The text of an address is
  parsed to the address in every one of the formats that allow it, and the text
  \<open>hwaddr_mask_txt\<close> makes of an address and a mask is parsed to both, also where the mask is left
  out because it is all ones.
\<close>

theorem hwaddr_roundtrip:
  assumes "length addr = 6" "length msk = 6"
  shows "hwaddr_aton (macstr addr @ r) = Some addr \<and>
    hwaddr_compact_aton (concat (map hex02 addr) @ r) = Some addr \<and>
    hwaddr_aton2 (macstr addr @ r) = Some (addr, 17) \<and> hwaddr_aton2 (concat (map hex02 addr) @ r) = Some (addr, 12) \<and>
    (\<forall>out. hwaddr_mask_txt len addr msk = Some out \<longrightarrow> length out < len \<and> hwaddr_masked_aton out True = Some (addr, msk)) \<and>
    (35 < len \<longrightarrow> hwaddr_mask_txt len addr msk \<noteq> None)"
proof -
  have ne: "addr \<noteq> []" using assms by auto
  have "length (macstr addr) = 17" "length (concat (map hex02 addr)) = 12"
    using length_macstr [OF ne] length_hex [of addr] assms by simp_all
  then have "hwaddr_aton2 (macstr addr @ r) = Some (addr, 17)" "hwaddr_aton2 (concat (map hex02 addr) @ r) = Some (addr, 12)"
    using aton2_from_macstr(1) [OF ne, of r] aton2_from_hex [of addr r] assms by (simp_all add: hwaddr_aton2_def)
  moreover have "length t < len \<and> hwaddr_masked_aton t True = Some (addr, msk)" if "hwaddr_mask_txt len addr msk = Some t" for t
    using mask_txt_form(1) [OF assms that] mask_txt_parsed [OF assms that, of "[]"] by simp
  ultimately show ?thesis
    using parse_macstr [OF assms(1), of r] compact_from_hex [of addr r] mask_txt_form(2) [OF assms, of len] assms
    by (auto simp: hwaddr_aton_def hwaddr_compact_aton_def)
qed

theorem hwaddr_roundtrip_witness:
  "hwaddr_aton (macstr [0, 0x11, 0x22, 0xab, 0xcd, 0xef]) = Some [0, 0x11, 0x22, 0xab, 0xcd, 0xef]"
  using hwaddr_roundtrip [of "[0, 0x11, 0x22, 0xab, 0xcd, 0xef]" "replicate 6 0xff" "[]"] by simp

section \<open>Escaped text\<close>

lemma escape_from_result:
  "escape_from n out inp = Some e \<Longrightarrow> \<exists>f. e = out @ f \<and> length f \<le> 2 * length inp \<and>
     (\<forall>m out'. length out' + length inp \<le> m \<longrightarrow> unescape_from m out' f = Some (out' @ inp)) \<and> (f = [] \<or> hd f \<noteq> 39)"
proof (induction n out inp arbitrary: e rule: escape_from.induct)
  case (2 n out b inp)
  let ?h = "if b = 92 \<or> b = 39 then [92, b] else [b]"
  have "escape_from n (out @ ?h) inp = Some e" using 2(3) by (auto split: if_splits)
  with 2 obtain f where f: "e = (out @ ?h) @ f" "length f \<le> 2 * length inp"
    "\<forall>m out'. length out' + length inp \<le> m \<longrightarrow> unescape_from m out' f = Some (out' @ inp)"
    by (auto split: if_splits)
  then show ?case by (intro exI [of _ "?h @ f"]) auto
qed auto

text \<open>
  Escaped text: what \<open>utf8_escape\<close> makes of a text is turned back into it, and it succeeds when
  the output has room for twice the text.
\<close>

theorem utf8_roundtrip:
  "(\<forall>e. utf8_escape n inp = Some e \<longrightarrow> utf8_unescape (length inp) e = Some inp) \<and>
   (2 * length inp \<le> n \<longrightarrow> utf8_escape n inp \<noteq> None)"
proof
  show "\<forall>e. utf8_escape n inp = Some e \<longrightarrow> utf8_unescape (length inp) e = Some inp"
    using escape_from_result [of n "[]" inp] by (auto simp: utf8_escape_def utf8_unescape_def)
  have "length out + 2 * length inp \<le> n \<Longrightarrow> escape_from n out inp \<noteq> None" for out
    by (induction n out inp rule: escape_from.induct) auto
  from this [of "[]"] show "2 * length inp \<le> n \<longrightarrow> utf8_escape n inp \<noteq> None" by (simp add: utf8_escape_def)
qed

end
