(* ===== verification/Wpa_Config.thy ===== *)
theory Wpa_Config
  imports Text_Codec Key_Derivation
begin

text \<open>
  The networks of wpa\_supplicant's configuration (\<open>wpa_supplicant/config.c\<close>) and the commands
  of the control interface that add a network and set its variables
  (\<open>wpa_supplicant/ctrl_iface.c\<close>). The build is the default one, without external passwords and
  SAE.

  A network is a record of the variables that are modelled, and a pointer to a network is the
  network's id. A parser returns what the C function returns, -1 for an error, 1 when
  the value is the one that was set before, and 0 otherwise, with the network it changed.
\<close>

section \<open>Networks\<close>

type_synonym addr_mask = "u8 list \<times> u8 list"

record wpa_ssid =
  net_id :: int
  net_priority :: int
  net_disabled :: int
  net_ssid :: "u8 list option"
  net_passphrase :: "u8 list option"
  net_psk :: "u8 list"
  net_psk_set :: bool
  net_bssid :: "u8 list"
  net_bssid_set :: bool
  net_bssid_hint :: "u8 list"
  net_bssid_hint_set :: bool
  net_bssid_ignore :: "addr_mask list"
  net_bssid_accept :: "addr_mask list"
  was_recently_reconfigured :: bool

type_synonym parser = "(nat \<Rightarrow> bool) \<Rightarrow> u8 list \<Rightarrow> wpa_ssid \<Rightarrow> int \<times> wpa_ssid"

section \<open>Strings\<close>

text \<open>
  The row of a string variable: the pointer \<open>param1\<close> as an accessor and an update, whether there
  is a length next to it (\<open>param2\<close>), and the limits of the length, where 0 is none.
\<close>

record str_field =
  sf_get :: "wpa_ssid \<Rightarrow> u8 list option"
  sf_set :: "u8 list option \<Rightarrow> wpa_ssid \<Rightarrow> wpa_ssid"
  sf_has_len :: bool
  sf_min :: nat
  sf_max :: nat

text \<open>The bytes up to the first zero, for a string without a length.\<close>

definition up_to_nul :: "u8 list \<Rightarrow> u8 list" where
  "up_to_nul s = takeWhile (\<lambda>c. c \<noteq> 0) s"

definition set_str :: "str_field \<Rightarrow> u8 list option \<Rightarrow> wpa_ssid \<Rightarrow> int \<times> wpa_ssid" where
  "set_str data tmp s =
     (let prev = map_option (\<lambda>d. if sf_has_len data then d else up_to_nul d) (sf_get data s)
      in if prev = tmp then (1, s) else (0, sf_set data tmp s))"

definition wpa_config_parse_str :: "str_field \<Rightarrow> parser" where
  "wpa_config_parse_str data alloc value s =
     (if value = bytes ''NULL'' then set_str data None s
      else case wpa_config_parse_string (alloc 0) value of
             None \<Rightarrow> (-1, s)
           | Some tmp \<Rightarrow>
               if sf_min data \<noteq> 0 \<and> length tmp < sf_min data then (-1, s)
               else if sf_max data \<noteq> 0 \<and> length tmp > sf_max data then (-1, s)
               else set_str data (Some tmp) s)"

definition wpa_config_write_string_ascii :: "bool \<Rightarrow> u8 list \<Rightarrow> u8 list option" where
  "wpa_config_write_string_ascii alloc v = (if alloc then Some ([34] @ v @ [34]) else None)"

definition wpa_config_write_string_hex :: "bool \<Rightarrow> u8 list \<Rightarrow> u8 list option" where
  "wpa_config_write_string_hex alloc v =
     (if alloc then Some (wpa_snprintf_hex (2 * length v + 1) v) else None)"

definition wpa_config_write_string :: "bool \<Rightarrow> u8 list option \<Rightarrow> u8 list option" where
  "wpa_config_write_string alloc v =
     (case v of
        None \<Rightarrow> None
      | Some d \<Rightarrow> if is_hex d then wpa_config_write_string_hex alloc d else wpa_config_write_string_ascii alloc d)"

definition wpa_config_write_str :: "str_field \<Rightarrow> bool \<Rightarrow> wpa_ssid \<Rightarrow> u8 list option" where
  "wpa_config_write_str data alloc s =
     (case sf_get data s of
        None \<Rightarrow> None
      | Some d \<Rightarrow> wpa_config_write_string alloc (Some (if sf_has_len data then d else up_to_nul d)))"

section \<open>Lists of addresses\<close>

lemma strchr_length: "strchr s c = Some i \<Longrightarrow> i < length s"
  by (induction s arbitrary: i) (auto split: if_splits)

lemma strchr_skipped:
  assumes "pos \<noteq> []" "strchr (dropWhile (\<lambda>c. c = 32) pos) 32 = Some i"
  shows "length (drop i (dropWhile (\<lambda>c. c = 32) pos)) < length pos"
proof -
  let ?p = "dropWhile (\<lambda>c. c = 32) pos"
  have "i \<noteq> 0"
  proof
    assume "i = 0"
    then have "?p \<noteq> []" "hd ?p = 32" using assms(2) by (cases ?p; auto split: if_splits)+
    then show False using hd_dropWhile [of "\<lambda>c. c = 32" pos] by simp
  qed
  then show ?thesis
    using length_dropWhile_le [of "\<lambda>c. c = 32" pos] strchr_length [OF assms(2)] by simp
qed

text \<open>
  The loop of \<open>wpa_config_parse_addr_list\<close>: an address is put in front of those before it. The
  result is \<open>None\<close> for an error.
\<close>

function addr_list_from ::
  "(nat \<Rightarrow> bool) \<Rightarrow> bool \<Rightarrow> bool \<Rightarrow> addr_mask list \<Rightarrow> u8 list \<Rightarrow> addr_mask list option" where
  "addr_list_from alloc abort_on_error masked buf pos =
     (if pos = [] then Some buf
      else
        let p = dropWhile (\<lambda>c. c = 32) pos;
            next_addr = (\<lambda>b. case strchr p 32 of
               None \<Rightarrow> Some b
             | Some i \<Rightarrow> addr_list_from alloc abort_on_error masked b (drop i p))
        in case hwaddr_masked_aton p masked of
             None \<Rightarrow> if abort_on_error \<or> buf = [] then None else next_addr buf
           | Some am \<Rightarrow> if alloc (length buf) then next_addr (am # buf) else None)"
  by pat_completeness auto

termination
  by (relation "measure (\<lambda>(alloc, a, m, buf, pos). length pos)") (simp_all add: strchr_skipped del: length_drop)

declare addr_list_from.simps [simp del]

definition wpa_config_parse_addr_list ::
  "(nat \<Rightarrow> bool) \<Rightarrow> u8 list \<Rightarrow> bool \<Rightarrow> bool \<Rightarrow> addr_mask list \<Rightarrow> int \<times> addr_mask list" where
  "wpa_config_parse_addr_list alloc value abort_on_error masked old =
     (case addr_list_from alloc abort_on_error masked [] value of None \<Rightarrow> (-1, old) | Some buf \<Rightarrow> (0, buf))"

text \<open>The loop of \<open>wpa_config_write_addr_list\<close>, over the entries from the last to the first.\<close>

fun write_addrs :: "nat \<Rightarrow> bool \<Rightarrow> u8 list \<Rightarrow> addr_mask list \<Rightarrow> u8 list option outcome" where
  "write_addrs room first out [] = Ret (Some out)"
| "write_addrs room first out ((a, m) # entries) =
     (if \<not> first \<and> room \<le> length out then OutOfBounds
      else
        let out1 = (if first then out else out @ [32])
        in case hwaddr_mask_txt (room - length out1) a m of
             None \<Rightarrow> Ret None
           | Some t \<Rightarrow> write_addrs room False (out1 @ t) entries)"

definition wpa_config_write_addr_list :: "bool \<Rightarrow> addr_mask list \<Rightarrow> u8 list option outcome" where
  "wpa_config_write_addr_list alloc entries =
     (if entries = [] \<or> \<not> alloc then Ret None
      else write_addrs (2 * 20 * length entries) True [] (rev entries))"

definition wpa_config_parse_bssid_ignore :: parser where
  "wpa_config_parse_bssid_ignore alloc value s =
     (case wpa_config_parse_addr_list alloc value True True (net_bssid_ignore s) of
        (ret, l) \<Rightarrow> (ret, s\<lparr>net_bssid_ignore := l\<rparr>))"

definition wpa_config_write_bssid_ignore :: "bool \<Rightarrow> wpa_ssid \<Rightarrow> u8 list option outcome" where
  "wpa_config_write_bssid_ignore alloc s = wpa_config_write_addr_list alloc (net_bssid_ignore s)"

definition wpa_config_parse_bssid_accept :: parser where
  "wpa_config_parse_bssid_accept alloc value s =
     (case wpa_config_parse_addr_list alloc value True True (net_bssid_accept s) of
        (ret, l) \<Rightarrow> (ret, s\<lparr>net_bssid_accept := l\<rparr>))"

definition wpa_config_write_bssid_accept :: "bool \<Rightarrow> wpa_ssid \<Rightarrow> u8 list option outcome" where
  "wpa_config_write_bssid_accept alloc s = wpa_config_write_addr_list alloc (net_bssid_accept s)"

section \<open>Addresses and keys\<close>

text \<open>
  \<open>hwaddr_parse\<close> and \<open>hexstr2bin\<close> store each byte as they read it, so that an error leaves the bytes
  before it in the destination: these are the bytes stored.
\<close>

fun hwaddr_stored :: "nat \<Rightarrow> u8 list \<Rightarrow> u8 list" where
  "hwaddr_stored 0 txt = []"
| "hwaddr_stored (Suc left) txt =
     (let a = hex2byte (at_nul txt 0) (at_nul txt 1)
      in if a < 0 then []
         else word_of_int a #
           (if left \<noteq> 0 \<and> at_nul txt 2 \<noteq> byte (CHR '':'') then [] else hwaddr_stored left (drop 3 txt)))"

fun hex_stored :: "nat \<Rightarrow> u8 list \<Rightarrow> u8 list" where
  "hex_stored 0 hex = []"
| "hex_stored (Suc n) hex =
     (let a = hex2byte (at_nul hex 0) (at_nul hex 1)
      in if a < 0 then [] else word_of_int a # hex_stored n (drop 2 hex))"

definition overwrite :: "u8 list \<Rightarrow> u8 list \<Rightarrow> u8 list" where
  "overwrite new old = new @ drop (length new) old"

definition wpa_config_parse_bssid :: parser where
  "wpa_config_parse_bssid alloc value s =
     (if value = [] \<or> value = [34, 34] \<or> value = bytes ''any'' then (0, s\<lparr>net_bssid_set := False\<rparr>)
      else
        let s1 = s\<lparr>net_bssid := overwrite (hwaddr_stored 6 value) (net_bssid s)\<rparr>
        in if hwaddr_aton value = None then (-1, s1) else (0, s1\<lparr>net_bssid_set := True\<rparr>))"

definition wpa_config_write_bssid :: "bool \<Rightarrow> wpa_ssid \<Rightarrow> u8 list option" where
  "wpa_config_write_bssid alloc s = (if net_bssid_set s \<and> alloc then Some (macstr (net_bssid s)) else None)"

definition wpa_config_parse_bssid_hint :: parser where
  "wpa_config_parse_bssid_hint alloc value s =
     (if value = [] \<or> value = [34, 34] \<or> value = bytes ''any'' then (0, s\<lparr>net_bssid_hint_set := False\<rparr>)
      else
        let s1 = s\<lparr>net_bssid_hint := overwrite (hwaddr_stored 6 value) (net_bssid_hint s)\<rparr>
        in if hwaddr_aton value = None then (-1, s1) else (0, s1\<lparr>net_bssid_hint_set := True\<rparr>))"

definition wpa_config_write_bssid_hint :: "bool \<Rightarrow> wpa_ssid \<Rightarrow> u8 list option" where
  "wpa_config_write_bssid_hint alloc s =
     (if net_bssid_hint_set s \<and> alloc then Some (macstr (net_bssid_hint s)) else None)"

definition wpa_config_parse_psk :: parser where
  "wpa_config_parse_psk alloc value s =
     (if at_nul value 0 = 34 then
        (let v = drop 1 value;
             len = (case strrchr v 34 of Some pos \<Rightarrow> pos | None \<Rightarrow> length v);
             p = take len v
         in if len < 8 \<or> len > 63 then (-1, s)
            else if has_ctrl_char p then (-1, s)
            else if net_passphrase s = Some p then (1, s)
            else if alloc 0 then (0, s\<lparr>net_psk_set := False, net_passphrase := Some p\<rparr>)
            else (-1, s\<lparr>net_psk_set := False, net_passphrase := None\<rparr>))
      else
        (let st = hex_stored 32 value;
             s1 = s\<lparr>net_psk := overwrite st (net_psk s)\<rparr>
         in if length st < 32 \<or> at_nul value 64 \<noteq> 0 then (-1, s1)
            else (0, s1\<lparr>net_passphrase := None, net_psk_set := True\<rparr>)))"

definition wpa_config_write_psk :: "bool \<Rightarrow> wpa_ssid \<Rightarrow> u8 list option" where
  "wpa_config_write_psk alloc s =
     (case net_passphrase s of
        Some p \<Rightarrow> wpa_config_write_string_ascii alloc p
      | None \<Rightarrow> if net_psk_set s then wpa_config_write_string_hex alloc (net_psk s) else None)"

text \<open>The passphrase is read through its pointer, which must not be NULL.\<close>

definition wpa_config_update_psk :: "wpa_ssid \<Rightarrow> wpa_ssid outcome" where
  "wpa_config_update_psk s =
     (case net_passphrase s of
        None \<Rightarrow> OutOfBounds
      | Some p \<Rightarrow>
          (case pbkdf2_sha1 p (case net_ssid s of None \<Rightarrow> [] | Some d \<Rightarrow> d) 4096 32 of
             Ret k \<Rightarrow> Ret (s\<lparr>net_psk := k, net_psk_set := True\<rparr>)
           | Err _ \<Rightarrow> Ret s
           | OutOfBounds \<Rightarrow> OutOfBounds))"

section \<open>Networks by priority\<close>

text \<open>The list of networks, and for every priority the chain of the networks that have it.\<close>

record wpa_config =
  nets :: "wpa_ssid list"
  pssid :: "int list list"

definition wpa_config_get_network :: "wpa_config \<Rightarrow> int \<Rightarrow> wpa_ssid option" where
  "wpa_config_get_network c i = find (\<lambda>s. i = net_id s) (nets c)"

definition put_network :: "wpa_ssid \<Rightarrow> wpa_config \<Rightarrow> wpa_config" where
  "put_network s c = c\<lparr>nets := map (\<lambda>n. if net_id n = net_id s then s else n) (nets c)\<rparr>"

text \<open>The first loop of \<open>wpa_config_add_prio_network\<close> and its second one, with the insertion.\<close>

fun join_group :: "(int \<Rightarrow> int) \<Rightarrow> int \<Rightarrow> int list list \<Rightarrow> int list list option" where
  "join_group prio s [] = None"
| "join_group prio s (grp # groups) =
     (if prio (hd grp) = prio s then Some ((grp @ [s]) # groups)
      else map_option (Cons grp) (join_group prio s groups))"

fun insert_group :: "(int \<Rightarrow> int) \<Rightarrow> int \<Rightarrow> int list list \<Rightarrow> int list list" where
  "insert_group prio s [] = [[s]]"
| "insert_group prio s (grp # groups) =
     (if prio (hd grp) < prio s then [s] # grp # groups else grp # insert_group prio s groups)"

definition wpa_config_add_prio_network ::
  "(int \<Rightarrow> int) \<Rightarrow> bool \<Rightarrow> int \<Rightarrow> int list list \<Rightarrow> int \<times> int list list" where
  "wpa_config_add_prio_network prio alloc s groups =
     (case join_group prio s groups of
        Some groups' \<Rightarrow> (0, groups')
      | None \<Rightarrow> if alloc then (0, insert_group prio s groups) else (-1, groups))"

definition priority_of :: "wpa_config \<Rightarrow> int \<Rightarrow> int" where
  "priority_of c i = (case wpa_config_get_network c i of None \<Rightarrow> 0 | Some s \<Rightarrow> net_priority s)"

text \<open>\<open>alloc\<close> tells for each network whether the allocation of a new group succeeds.\<close>

definition wpa_config_update_prio_list :: "(int \<Rightarrow> bool) \<Rightarrow> wpa_config \<Rightarrow> int \<times> wpa_config" where
  "wpa_config_update_prio_list alloc c =
     (let (ret, groups) = fold (\<lambda>s (ret, groups).
            (case wpa_config_add_prio_network (priority_of c) (alloc (net_id s)) (net_id s) groups of
               (r, groups') \<Rightarrow> (if r < 0 then -1 else ret, groups'))) (nets c) (0, [])
      in (ret, c\<lparr>pssid := groups\<rparr>))"

text \<open>A network as \<open>os_zalloc\<close> leaves it.\<close>

definition zero_ssid :: wpa_ssid where
  "zero_ssid = \<lparr>net_id = 0, net_priority = 0, net_disabled = 0, net_ssid = None, net_passphrase = None,
     net_psk = replicate 32 0, net_psk_set = False, net_bssid = replicate 6 0, net_bssid_set = False,
     net_bssid_hint = replicate 6 0, net_bssid_hint_set = False, net_bssid_ignore = [],
     net_bssid_accept = [], was_recently_reconfigured = False\<rparr>"

definition next_id :: "wpa_ssid list \<Rightarrow> int" where
  "next_id ss = fold (\<lambda>s i. if net_id s > i then net_id s else i) ss (-1) + 1"

text \<open>The first argument tells whether the network is allocated, the second is that of the groups.\<close>

definition wpa_config_add_network ::
  "bool \<Rightarrow> (int \<Rightarrow> bool) \<Rightarrow> wpa_config \<Rightarrow> int option \<times> wpa_config" where
  "wpa_config_add_network zalloc alloc c =
     (let i = next_id (nets c)
      in if \<not> zalloc then (None, c)
         else (Some i, snd (wpa_config_update_prio_list alloc (c\<lparr>nets := nets c @ [zero_ssid\<lparr>net_id := i\<rparr>]\<rparr>))))"

fun remove_id :: "int \<Rightarrow> wpa_ssid list \<Rightarrow> wpa_ssid list option" where
  "remove_id i [] = None"
| "remove_id i (s # ss) = (if i = net_id s then Some ss else map_option (Cons s) (remove_id i ss))"

definition wpa_config_remove_network :: "(int \<Rightarrow> bool) \<Rightarrow> int \<Rightarrow> wpa_config \<Rightarrow> int \<times> wpa_config" where
  "wpa_config_remove_network alloc i c =
     (case remove_id i (nets c) of
        None \<Rightarrow> (-1, c)
      | Some ss \<Rightarrow> (0, snd (wpa_config_update_prio_list alloc (c\<lparr>nets := ss\<rparr>))))"

section \<open>Commands of the control interface\<close>

definition removed_field :: "u8 list \<Rightarrow> bool" where
  "removed_field field \<longleftrightarrow> field \<in> set [bytes ''dh_file'', bytes ''dh_file2'', bytes ''machine_dh_file'']"

text \<open>
  \<open>wpa_config_set\<close> and \<open>wpa_config_get\<close> search the table \<open>ssid_fields\<close>, which is an argument;
  \<open>network_fields\<close> has the rows of it whose parsers and writers are modelled.
\<close>

record parse_data =
  pd_name :: "u8 list"
  pd_parser :: parser
  pd_writer :: "bool \<Rightarrow> wpa_ssid \<Rightarrow> u8 list option outcome"
  key_data :: bool

definition field_of :: "parse_data list \<Rightarrow> u8 list \<Rightarrow> parse_data option" where
  "field_of tbl var = find (\<lambda>field. pd_name field = var) tbl"

definition wpa_config_set ::
  "parse_data list \<Rightarrow> (nat \<Rightarrow> bool) \<Rightarrow> u8 list \<Rightarrow> u8 list \<Rightarrow> wpa_ssid \<Rightarrow> int \<times> wpa_ssid" where
  "wpa_config_set tbl alloc var val s =
     (case field_of tbl var of
        Some field \<Rightarrow>
          (case pd_parser field alloc val s of
             (ret, s1) \<Rightarrow> (if ret < 0 then -1 else ret, s1\<lparr>was_recently_reconfigured := True\<rparr>))
      | None \<Rightarrow> if removed_field var then (0, s) else (-1, s\<lparr>was_recently_reconfigured := True\<rparr>))"

definition wpa_config_get :: "parse_data list \<Rightarrow> bool \<Rightarrow> u8 list \<Rightarrow> wpa_ssid \<Rightarrow> u8 list option outcome" where
  "wpa_config_get tbl alloc var s =
     (case field_of tbl var of
        None \<Rightarrow> Ret None
      | Some field \<Rightarrow>
          bind_outcome (pd_writer field alloc s) (\<lambda>ret.
            Ret (case ret of None \<Rightarrow> None | Some t \<Rightarrow> if has_newline t then None else Some t)))"

definition wpa_config_get_no_key :: "parse_data list \<Rightarrow> bool \<Rightarrow> u8 list \<Rightarrow> wpa_ssid \<Rightarrow> u8 list option outcome" where
  "wpa_config_get_no_key tbl alloc var s =
     (case field_of tbl var of
        None \<Rightarrow> Ret None
      | Some field \<Rightarrow>
          bind_outcome (pd_writer field alloc s) (\<lambda>res.
            Ret (if key_data field
                 then (case res of
                         Some t \<Rightarrow> if at_nul t 0 \<noteq> 0 \<and> alloc then Some (bytes ''*'') else None
                       | None \<Rightarrow> None)
                 else res)))"

definition ssid_row :: str_field where
  "ssid_row = \<lparr>sf_get = net_ssid, sf_set = (\<lambda>v s. s\<lparr>net_ssid := v\<rparr>), sf_has_len = True, sf_min = 0, sf_max = 32\<rparr>"

definition network_fields :: "parse_data list" where
  "network_fields =
     [\<lparr>pd_name = bytes ''ssid'', pd_parser = wpa_config_parse_str ssid_row,
       pd_writer = (\<lambda>alloc s. Ret (wpa_config_write_str ssid_row alloc s)), key_data = False\<rparr>,
      \<lparr>pd_name = bytes ''bssid'', pd_parser = wpa_config_parse_bssid,
       pd_writer = (\<lambda>alloc s. Ret (wpa_config_write_bssid alloc s)), key_data = False\<rparr>,
      \<lparr>pd_name = bytes ''bssid_hint'', pd_parser = wpa_config_parse_bssid_hint,
       pd_writer = (\<lambda>alloc s. Ret (wpa_config_write_bssid_hint alloc s)), key_data = False\<rparr>,
      \<lparr>pd_name = bytes ''bssid_ignore'', pd_parser = wpa_config_parse_bssid_ignore,
       pd_writer = wpa_config_write_bssid_ignore, key_data = False\<rparr>,
      \<lparr>pd_name = bytes ''bssid_accept'', pd_parser = wpa_config_parse_bssid_accept,
       pd_writer = wpa_config_write_bssid_accept, key_data = False\<rparr>,
      \<lparr>pd_name = bytes ''bssid_blacklist'', pd_parser = wpa_config_parse_bssid_ignore,
       pd_writer = wpa_config_write_bssid_ignore, key_data = False\<rparr>,
      \<lparr>pd_name = bytes ''bssid_whitelist'', pd_parser = wpa_config_parse_bssid_accept,
       pd_writer = wpa_config_write_bssid_accept, key_data = False\<rparr>,
      \<lparr>pd_name = bytes ''psk'', pd_parser = wpa_config_parse_psk,
       pd_writer = (\<lambda>alloc s. Ret (wpa_config_write_psk alloc s)), key_data = True\<rparr>]"

text \<open>Calls of other parts of the daemon, with the network they are about.\<close>

datatype daemon_call =
    PmksaFlush int
  | InvalidateSession
  | ResetBgscan
  | NetworkAdded int
  | BssidSetChanged int
  | NetworkTypeChanged int

record wpa_s =
  conf :: wpa_config
  current_ssid :: "int option"
  wpa_completed :: bool \<comment> \<open>\<open>wpa_state\<close> is \<open>WPA_COMPLETED\<close>\<close>
  made :: "daemon_call list"

definition calls_made :: "daemon_call list \<Rightarrow> wpa_s \<Rightarrow> wpa_s" where
  "calls_made cs d = d\<lparr>made := made d @ cs\<rparr>"

definition put_ssid :: "wpa_ssid \<Rightarrow> wpa_s \<Rightarrow> wpa_s" where
  "put_ssid s d = d\<lparr>conf := put_network s (conf d)\<rparr>"

text \<open>\<open>alloc\<close> is for the parser, \<open>galloc\<close> for the lists by priority.\<close>

definition wpa_supplicant_ctrl_iface_update_network ::
  "parse_data list \<Rightarrow> (nat \<Rightarrow> bool) \<Rightarrow> (int \<Rightarrow> bool) \<Rightarrow> u8 list \<Rightarrow> u8 list \<Rightarrow> wpa_ssid \<Rightarrow> wpa_s \<Rightarrow> (int \<times> wpa_s) outcome" where
  "wpa_supplicant_ctrl_iface_update_network tbl alloc galloc name val s d =
     (let (ret, s1) = wpa_config_set tbl alloc name val s; i = net_id s; d1 = put_ssid s1 d
      in if ret < 0 then Ret (-1, d1)
         else if ret = 1 then Ret (0, d1)
         else if name = bytes ''bgscan''
         then Ret (0, if current_ssid d1 = Some i \<and> wpa_completed d1 then calls_made [ResetBgscan] d1 else d1)
         else
           let d2 = (if name \<noteq> bytes ''bssid'' \<and> take 6 name \<noteq> bytes ''bssid_'' \<and> name \<noteq> bytes ''scan_freq''
                        \<and> name \<noteq> bytes ''priority''
                     then calls_made (PmksaFlush i #
                            (if current_ssid d1 = Some i \<or> current_ssid d1 = None then [InvalidateSession] else [])) d1
                     else d1)
           in if name = bytes ''psk'' \<and> at_nul val 0 = 34 \<and> (net_ssid s1 \<noteq> None \<and> net_ssid s1 \<noteq> Some []) \<or>
                 name = bytes ''ssid'' \<and> net_passphrase s1 \<noteq> None
              then bind_outcome (wpa_config_update_psk s1) (\<lambda>s2. Ret (0, put_ssid s2 d2))
              else if name = bytes ''priority''
              then Ret (0, d2\<lparr>conf := snd (wpa_config_update_prio_list galloc (conf d2))\<rparr>)
              else Ret (0, d2))"

text \<open>\<open>atoi\<close> of the C library, which converts to \<open>long\<close> and then to \<open>int\<close>.\<close>

definition is_digit :: "u8 \<Rightarrow> bool" where
  "is_digit c \<longleftrightarrow> 48 \<le> c \<and> c \<le> 57"

definition decimal_value :: "u8 list \<Rightarrow> int" where
  "decimal_value ds = foldl (\<lambda>acc c. acc * 10 + (uint c - 48)) 0 ds"

definition atoi :: "u8 list \<Rightarrow> int" where
  "atoi str =
     (let t = dropWhile is_cspace str;
          sign = at_nul t 0;
          ds = takeWhile is_digit (if sign = 45 \<or> sign = 43 then tl t else t);
          v = (if sign = 45 then - decimal_value ds else decimal_value ds)
      in sint (word_of_int (max (- (2 ^ 63)) (min (2 ^ 63 - 1) v)) :: 32 word))"

definition wpa_supplicant_ctrl_iface_set_network ::
  "parse_data list \<Rightarrow> (nat \<Rightarrow> bool) \<Rightarrow> (int \<Rightarrow> bool) \<Rightarrow> u8 list \<Rightarrow> wpa_s \<Rightarrow> (int \<times> wpa_s) outcome" where
  "wpa_supplicant_ctrl_iface_set_network tbl alloc galloc cmd d =
     (case strchr cmd 32 of
        None \<Rightarrow> Ret (-1, d)
      | Some n \<Rightarrow>
          (let rest = drop (n + 1) cmd
           in case strchr rest 32 of
                None \<Rightarrow> Ret (-1, d)
              | Some v \<Rightarrow>
                  (let i = atoi (take n cmd); name = take v rest; val = drop (v + 1) rest
                   in case wpa_config_get_network (conf d) i of
                        None \<Rightarrow> Ret (-1, d)
                      | Some s \<Rightarrow>
                          bind_outcome (wpa_supplicant_ctrl_iface_update_network tbl alloc galloc name val s d)
                            (\<lambda>(ret, d1).
                              case wpa_config_get_network (conf d1) i of
                                None \<Rightarrow> Ret (ret, d1)
                              | Some s1 \<Rightarrow>
                                  Ret (ret, calls_made
                                    ((if ret = 0 \<and> (net_bssid_set s1 \<noteq> net_bssid_set s \<or> net_bssid s1 \<noteq> net_bssid s)
                                      then [BssidSetChanged i] else []) @
                                     (if net_disabled s \<noteq> net_disabled s1 \<and> (net_disabled s = 2 \<or> net_disabled s1 = 2)
                                      then [NetworkTypeChanged i] else [])) d1)))))"

text \<open>The reply, which has to fit in the buffer with its final zero.\<close>

definition wpa_supplicant_ctrl_iface_get_network ::
  "parse_data list \<Rightarrow> bool \<Rightarrow> u8 list \<Rightarrow> nat \<Rightarrow> wpa_s \<Rightarrow> u8 list option outcome" where
  "wpa_supplicant_ctrl_iface_get_network tbl alloc cmd buflen d =
     (case strchr cmd 32 of
        None \<Rightarrow> Ret None
      | Some n \<Rightarrow>
          if buflen = 0 then Ret None
          else case wpa_config_get_network (conf d) (atoi (take n cmd)) of
                 None \<Rightarrow> Ret None
               | Some s \<Rightarrow>
                   bind_outcome (wpa_config_get_no_key tbl alloc (drop (n + 1) cmd) s) (\<lambda>val.
                     Ret (case val of Some t \<Rightarrow> if length t < buflen then Some t else None | None \<Rightarrow> None)))"

text \<open>
  \<open>wpa_config_set_network_defaults\<close> sets variables that are not in the record.
\<close>

definition wpa_supplicant_add_network :: "bool \<Rightarrow> (int \<Rightarrow> bool) \<Rightarrow> wpa_s \<Rightarrow> int option \<times> wpa_s" where
  "wpa_supplicant_add_network zalloc galloc d =
     (case wpa_config_add_network zalloc galloc (conf d) of
        (None, c) \<Rightarrow> (None, d\<lparr>conf := c\<rparr>)
      | (Some i, c) \<Rightarrow>
          (let d1 = calls_made [NetworkAdded i] (d\<lparr>conf := c\<rparr>)
           in (Some i, d1\<lparr>conf := c\<lparr>nets := map (\<lambda>s. if net_id s = i then s\<lparr>net_disabled := 1\<rparr> else s) (nets c)\<rparr>\<rparr>)))"

definition wpa_supplicant_ctrl_iface_add_network ::
  "bool \<Rightarrow> (int \<Rightarrow> bool) \<Rightarrow> nat \<Rightarrow> wpa_s \<Rightarrow> u8 list option \<times> wpa_s" where
  "wpa_supplicant_ctrl_iface_add_network zalloc galloc buflen d =
     (case wpa_supplicant_add_network zalloc galloc d of
        (None, d1) \<Rightarrow> (None, d1)
      | (Some i, d1) \<Rightarrow>
          (let reply = bytes (show_int i) @ [10] in (if length reply < buflen then Some reply else None, d1)))"

text \<open>
  The branches of \<open>wpa_supplicant_ctrl_iface_process\<close> for the three commands, with the reply it
  sends, where memory is available; \<open>None\<close> is for another command.
\<close>

definition reply_or_fail :: "u8 list option \<Rightarrow> u8 list" where
  "reply_or_fail reply = (case reply of None \<Rightarrow> bytes ''FAIL'' @ [10] | Some r \<Rightarrow> r)"

definition process_network :: "parse_data list \<Rightarrow> u8 list \<Rightarrow> wpa_s \<Rightarrow> (u8 list \<times> wpa_s) outcome option" where
  "process_network tbl buf d =
     (if buf = bytes ''ADD_NETWORK'' then
        (case wpa_supplicant_ctrl_iface_add_network True (\<lambda>_. True) 4096 d of
           (reply, d1) \<Rightarrow> Some (Ret (reply_or_fail reply, d1)))
      else if take 12 buf = bytes ''SET_NETWORK '' then
        Some (bind_outcome (wpa_supplicant_ctrl_iface_set_network tbl (\<lambda>_. True) (\<lambda>_. True) (drop 12 buf) d)
          (\<lambda>(ret, d1). Ret (reply_or_fail (if ret = 0 then Some (bytes ''OK'' @ [10]) else None), d1)))
      else if take 12 buf = bytes ''GET_NETWORK '' then
        Some (bind_outcome (wpa_supplicant_ctrl_iface_get_network tbl True (drop 12 buf) 4096 d)
          (\<lambda>reply. Ret (reply_or_fail reply, d)))
      else None)"

section \<open>What the parsers keep\<close>

text \<open>The shape of a network: the sizes of its arrays, and the limits the parsers check.\<close>

definition passphrase_ok :: "u8 list \<Rightarrow> bool" where
  "passphrase_ok p \<longleftrightarrow> 8 \<le> length p \<and> length p \<le> 63 \<and> \<not> has_ctrl_char p"

definition addrs_ok :: "addr_mask list \<Rightarrow> bool" where
  "addrs_ok l \<longleftrightarrow> list_all (\<lambda>(a, m). length a = 6 \<and> length m = 6) l"

definition net_ok :: "wpa_ssid \<Rightarrow> bool" where
  "net_ok s \<longleftrightarrow> length (net_psk s) = 32 \<and> length (net_bssid s) = 6 \<and> length (net_bssid_hint s) = 6 \<and>
     addrs_ok (net_bssid_ignore s) \<and> addrs_ok (net_bssid_accept s) \<and>
     pred_option (\<lambda>d. length d \<le> 32) (net_ssid s) \<and> pred_option passphrase_ok (net_passphrase s)"

lemma hwaddr_from_length: "hwaddr_from n inp = Some (a, r) \<Longrightarrow> length a = n"
  by (induction n inp arbitrary: a rule: hwaddr_from.induct) (auto simp: Let_def split: if_splits)

lemma hwaddr_stored_from: "hwaddr_from n inp = Some (a, r) \<Longrightarrow> hwaddr_stored n inp = a"
  by (induction n inp arbitrary: a rule: hwaddr_from.induct) (auto simp: Let_def split: if_splits)

lemma hwaddr_stored_length: "length (hwaddr_stored n inp) \<le> n"
  by (induction n inp rule: hwaddr_stored.induct) (simp_all add: Let_def)

lemma hex_stored_length: "length (hex_stored n hex) \<le> n"
  by (induction n hex rule: hex_stored.induct) (simp_all add: Let_def)

lemma overwrite_length: "length new \<le> length old \<Longrightarrow> length (overwrite new old) = length old"
  by (simp add: overwrite_def)

lemma overwrite_all: "length new = length old \<Longrightarrow> overwrite new old = new"
  by (simp add: overwrite_def)

lemma masked_aton_lengths: "hwaddr_masked_aton txt m = Some (a, k) \<Longrightarrow> length a = 6 \<and> length k = 6"
  by (auto simp: hwaddr_masked_aton_def hwaddr_parse_def dest!: hwaddr_from_length split: option.splits if_splits)

lemma addr_list_from_ok:
  "addrs_ok buf \<Longrightarrow> addr_list_from alloc ab m buf pos = Some l \<Longrightarrow> addrs_ok l"
proof (induction alloc ab m buf pos rule: addr_list_from.induct)
  case (1 alloc ab m buf pos)
  let ?p = "dropWhile (\<lambda>c. c = 32) pos"
  note step = 1(3) [unfolded addr_list_from.simps [of alloc ab m buf pos] Let_def]
  show ?case
  proof (cases "pos = []")
    case True
    with 1 show ?thesis by (simp add: addr_list_from.simps)
  next
    case pos: False
    show ?thesis
    proof (cases "hwaddr_masked_aton ?p m")
      case None
      then show ?thesis using 1(1) [OF pos refl] 1(2) step pos by (auto split: if_splits option.splits)
    next
      case (Some am)
      then have "addrs_ok (am # buf)" using masked_aton_lengths 1(2) by (cases am) (simp add: addrs_ok_def)
      with Some show ?thesis using 1(1) [OF pos refl] 1(2) step pos by (auto split: if_splits option.splits)
    qed
  qed
qed

lemma parse_addr_list_ok: "addrs_ok old \<Longrightarrow> addrs_ok (snd (wpa_config_parse_addr_list alloc val ab m old))"
  using addr_list_from_ok [of "[]" alloc ab m val]
  by (auto simp: wpa_config_parse_addr_list_def addrs_ok_def split: option.splits)

text \<open>
  The contract of a variable of a network: its parser keeps the shape of the network and its id,
  whatever the text is, and reads every text its writer makes. \<open>val\<close> is the value of the variable.
\<close>

locale network_variable =
  fixes parse :: parser and show_val :: "wpa_ssid \<Rightarrow> u8 list option outcome" and val :: "wpa_ssid \<Rightarrow> 'v"
  assumes keeps: "net_ok s \<Longrightarrow> net_ok (snd (parse alloc t s))"
    and keeps_id: "net_id (snd (parse alloc t s)) = net_id s"
    and writes: "net_ok s \<Longrightarrow> \<exists>t. show_val s = Ret t"
    and one_line: "net_ok s \<Longrightarrow> show_val s = Ret (Some t) \<Longrightarrow> \<not> has_newline t"
    and reads: "net_ok s \<Longrightarrow> net_ok s\<^sub>0 \<Longrightarrow> show_val s = Ret (Some t) \<Longrightarrow>
      0 \<le> fst (parse (\<lambda>_. True) t s\<^sub>0) \<and> val (snd (parse (\<lambda>_. True) t s\<^sub>0)) = val s"
    and of_value: "net_ok s \<Longrightarrow> net_ok s' \<Longrightarrow> val s = val s' \<Longrightarrow> show_val s = show_val s'"
    and flag: "val (s\<lparr>was_recently_reconfigured := b\<rparr>) = val s"
begin

lemma reload:
  assumes "net_ok s" "net_ok s\<^sub>0" "show_val s = Ret (Some t)"
  shows "\<exists>r s'. parse (\<lambda>_. True) t s\<^sub>0 = (r, s') \<and> 0 \<le> r \<and> net_ok s' \<and> net_id s' = net_id s\<^sub>0 \<and>
    show_val s' = Ret (Some t) \<and> val s' = val s"
proof -
  obtain r s' where p: "parse (\<lambda>_. True) t s\<^sub>0 = (r, s')" by fastforce
  then have "0 \<le> r" "val s' = val s" "net_ok s'" "net_id s' = net_id s\<^sub>0"
    using reads [OF assms] keeps [OF assms(2), of "\<lambda>_. True" t] keeps_id [of "\<lambda>_. True" t s\<^sub>0] by simp_all
  with p of_value [OF assms(1) \<open>net_ok s'\<close>] assms(3) show ?thesis by simp
qed

end

lemma has_newline_append: "has_newline (s @ t) \<longleftrightarrow> has_newline s \<or> has_newline t" "\<not> has_newline []" "\<not> has_newline [32]"
  by (simp_all add: has_newline_def)

lemma is_hex_newline: "\<not> is_hex d \<Longrightarrow> \<not> has_newline d"
  by (auto simp: is_hex_def has_newline_def list_ex_iff word_less_nat_alt)

lemma ctrl_char_newline: "\<not> has_ctrl_char d \<Longrightarrow> \<not> has_newline d"
  by (auto simp: has_ctrl_char_def has_newline_def list_ex_iff word_less_nat_alt)

lemma printable_newline: "\<forall>c \<in> set t. 32 \<le> c \<Longrightarrow> \<not> has_newline t"
  by (auto simp: has_newline_def list_ex_iff word_le_nat_alt)

lemma snprintf_hex_all: "wpa_snprintf_hex (Suc (2 * length d)) d = concat (map hex02 d)"
proof -
  have "length out + 2 * length d < n \<Longrightarrow> snprintf_hex_from n out d = out @ concat (map hex02 d)" for n out
    by (induction n out d rule: snprintf_hex_from.induct) (simp_all add: hex02_def)
  from this [of "[]"] show ?thesis by (simp add: wpa_snprintf_hex_def)
qed

lemma write_string_hex: "wpa_config_write_string_hex al d = (if al then Some (concat (map hex02 d)) else None)"
  by (simp add: wpa_config_write_string_hex_def snprintf_hex_all)

lemma hex_text_printable: "c \<in> set (concat (map hex02 d)) \<Longrightarrow> 32 \<le> c"
  using hex02_printable by auto

lemma hex_text_newline [simp]: "\<not> has_newline (concat (map hex02 d))"
  by (rule printable_newline) (blast intro: hex_text_printable)

lemma quoted_newline [simp]: "has_newline (34 # d @ [34]) = has_newline d"
  by (auto simp: has_newline_def)

lemma write_string_newline: "wpa_config_write_string al (Some d) = Some t \<Longrightarrow> \<not> has_newline t"
  by (auto simp: wpa_config_write_string_def write_string_hex wpa_config_write_string_ascii_def
      is_hex_newline simp del: set_concat split: if_splits)

lemma parse_write_string:
  assumes "wpa_config_write_string al (Some d) = Some t"
  shows "wpa_config_parse_string True t = Some d" "t \<noteq> bytes ''NULL''"
proof -
  show "wpa_config_parse_string True t = Some d"
    using assms config_string_forms(1,3) [of d]
    by (auto simp: wpa_config_write_string_def write_string_hex wpa_config_write_string_ascii_def
        split: if_splits)
  have "wpa_config_parse_string True (bytes ''NULL'') = None" by code_simp
  then show "t \<noteq> bytes ''NULL''" using \<open>wpa_config_parse_string True t = Some d\<close> by auto
qed

interpretation v_ssid: network_variable "wpa_config_parse_str ssid_row"
  "\<lambda>s. Ret (wpa_config_write_str ssid_row True s)" net_ssid
proof
  fix s s\<^sub>0 alloc t
  show "net_ok s \<Longrightarrow> net_ok (snd (wpa_config_parse_str ssid_row alloc t s))"
    by (auto simp: wpa_config_parse_str_def set_str_def ssid_row_def net_ok_def split: option.splits)
  show "net_id (snd (wpa_config_parse_str ssid_row alloc t s)) = net_id s"
    by (auto simp: wpa_config_parse_str_def set_str_def ssid_row_def split: option.splits)
  assume s: "net_ok s" "Ret (wpa_config_write_str ssid_row True s) = Ret (Some t)"
  then obtain d where d: "net_ssid s = Some d" "wpa_config_write_string True (Some d) = Some t"
    by (auto simp: wpa_config_write_str_def ssid_row_def split: option.splits)
  then show "\<not> has_newline t" by (rule_tac write_string_newline)
  show "0 \<le> fst (wpa_config_parse_str ssid_row (\<lambda>_. True) t s\<^sub>0) \<and>
      net_ssid (snd (wpa_config_parse_str ssid_row (\<lambda>_. True) t s\<^sub>0)) = net_ssid s"
    using parse_write_string [OF d(2)] d(1) s(1)
    by (auto simp: wpa_config_parse_str_def set_str_def ssid_row_def net_ok_def split: option.splits)
qed (simp_all add: wpa_config_write_str_def ssid_row_def)

lemma macstr_newline: "\<not> has_newline (macstr a)"
  using macstr_chars [of _ a] by (intro printable_newline) (force simp: word_le_nat_alt)

lemma aton_macstr:
  assumes "length a = 6"
  shows "hwaddr_aton (macstr a) = Some a" "hwaddr_stored 6 (macstr a) = a" "macstr a \<noteq> []" "macstr a \<noteq> [34, 34]"
    "macstr a \<noteq> bytes ''any''"
proof -
  show "hwaddr_aton (macstr a) = Some a" "hwaddr_stored 6 (macstr a) = a"
    using parse_macstr [OF assms, of "[]"] by (simp_all add: hwaddr_aton_def hwaddr_parse_def hwaddr_stored_from)
  have "length (macstr a) = 17" using length_macstr [of a] assms by fastforce
  then show "macstr a \<noteq> []" "macstr a \<noteq> [34, 34]" "macstr a \<noteq> bytes ''any''" by auto
qed

interpretation v_bssid: network_variable wpa_config_parse_bssid
  "\<lambda>s. Ret (wpa_config_write_bssid True s)" "\<lambda>s. if net_bssid_set s then Some (net_bssid s) else None"
proof
  fix s s\<^sub>0 s' alloc t
  show "net_ok s \<Longrightarrow> net_ok (snd (wpa_config_parse_bssid alloc t s))"
    by (auto simp: wpa_config_parse_bssid_def net_ok_def Let_def overwrite_length hwaddr_stored_length)
  show "net_id (snd (wpa_config_parse_bssid alloc t s)) = net_id s"
    by (simp add: wpa_config_parse_bssid_def Let_def)
  assume s: "net_ok s" "net_ok s\<^sub>0" "Ret (wpa_config_write_bssid True s) = Ret (Some t)"
  then have t: "t = macstr (net_bssid s)" "net_bssid_set s" "length (net_bssid s) = 6" "length (net_bssid s\<^sub>0) = 6"
    by (auto simp: wpa_config_write_bssid_def net_ok_def split: if_splits)
  then show "0 \<le> fst (wpa_config_parse_bssid (\<lambda>_. True) t s\<^sub>0) \<and>
     (if net_bssid_set (snd (wpa_config_parse_bssid (\<lambda>_. True) t s\<^sub>0))
      then Some (net_bssid (snd (wpa_config_parse_bssid (\<lambda>_. True) t s\<^sub>0))) else None) =
     (if net_bssid_set s then Some (net_bssid s) else None)"
    using aton_macstr [OF t(3)] by (simp add: wpa_config_parse_bssid_def overwrite_all)
qed (auto simp: wpa_config_write_bssid_def macstr_newline split: if_splits)

interpretation v_hint: network_variable wpa_config_parse_bssid_hint
  "\<lambda>s. Ret (wpa_config_write_bssid_hint True s)" "\<lambda>s. if net_bssid_hint_set s then Some (net_bssid_hint s) else None"
proof
  fix s s\<^sub>0 s' alloc t
  show "net_ok s \<Longrightarrow> net_ok (snd (wpa_config_parse_bssid_hint alloc t s))"
    by (auto simp: wpa_config_parse_bssid_hint_def net_ok_def Let_def overwrite_length hwaddr_stored_length)
  show "net_id (snd (wpa_config_parse_bssid_hint alloc t s)) = net_id s"
    by (simp add: wpa_config_parse_bssid_hint_def Let_def)
  assume s: "net_ok s" "net_ok s\<^sub>0" "Ret (wpa_config_write_bssid_hint True s) = Ret (Some t)"
  then have t: "t = macstr (net_bssid_hint s)" "net_bssid_hint_set s" "length (net_bssid_hint s) = 6" "length (net_bssid_hint s\<^sub>0) = 6"
    by (auto simp: wpa_config_write_bssid_hint_def net_ok_def split: if_splits)
  then show "0 \<le> fst (wpa_config_parse_bssid_hint (\<lambda>_. True) t s\<^sub>0) \<and>
     (if net_bssid_hint_set (snd (wpa_config_parse_bssid_hint (\<lambda>_. True) t s\<^sub>0))
      then Some (net_bssid_hint (snd (wpa_config_parse_bssid_hint (\<lambda>_. True) t s\<^sub>0))) else None) =
     (if net_bssid_hint_set s then Some (net_bssid_hint s) else None)"
    using aton_macstr [OF t(3)] by (simp add: wpa_config_parse_bssid_hint_def overwrite_all)
qed (auto simp: wpa_config_write_bssid_hint_def macstr_newline split: if_splits)

lemma hex_stored_hex: "hex_stored (length d) (concat (map hex02 d) @ r) = d"
proof (induction d)
  case (Cons b d)
  then show ?case by (simp add: hex02_def at_nul_def hex2byte_hex02)
qed simp

lemma strrchr_length: "strrchr s c = Some i \<Longrightarrow> i < length s"
  by (induction s arbitrary: i) (auto split: if_splits option.splits)

lemma hex_text_start: "d \<noteq> [] \<Longrightarrow> at_nul (concat (map hex02 d)) 0 \<noteq> 34"
  using hex02_printable [of _ "hd d"] by (cases d) (auto simp: at_nul_def hex02_def)

definition psk_value :: "wpa_ssid \<Rightarrow> u8 list option \<times> u8 list option" where
  "psk_value s = (net_passphrase s, if net_passphrase s = None \<and> net_psk_set s then Some (net_psk s) else None)"

interpretation v_psk: network_variable wpa_config_parse_psk "\<lambda>s. Ret (wpa_config_write_psk True s)" psk_value
proof
  fix s s\<^sub>0 s' alloc t
  show "net_ok s \<Longrightarrow> net_ok (snd (wpa_config_parse_psk alloc t s))"
    by (auto simp: wpa_config_parse_psk_def net_ok_def Let_def overwrite_length hex_stored_length passphrase_ok_def
        split: option.splits dest!: strrchr_length)
  show "net_id (snd (wpa_config_parse_psk alloc t s)) = net_id s"
    by (simp add: wpa_config_parse_psk_def Let_def)
  assume s: "net_ok s" "Ret (wpa_config_write_psk True s) = Ret (Some t)"
  show "\<not> has_newline t"
    using s by (auto simp: wpa_config_write_psk_def wpa_config_write_string_ascii_def write_string_hex
        net_ok_def passphrase_ok_def ctrl_char_newline split: option.splits if_splits)
  assume s\<^sub>0: "net_ok s\<^sub>0"
  show "0 \<le> fst (wpa_config_parse_psk (\<lambda>_. True) t s\<^sub>0) \<and> psk_value (snd (wpa_config_parse_psk (\<lambda>_. True) t s\<^sub>0)) = psk_value s"
  proof (cases "net_passphrase s")
    case (Some p)
    then have "t = 34 # p @ [34]" "passphrase_ok p"
      using s by (simp_all add: wpa_config_write_psk_def wpa_config_write_string_ascii_def net_ok_def)
    then show ?thesis
      using Some by (simp add: wpa_config_parse_psk_def at_nul_def strrchr_last passphrase_ok_def psk_value_def)
  next
    case None
    then have t: "t = concat (map hex02 (net_psk s))" "net_psk_set s" "length (net_psk s) = 32" "net_psk s \<noteq> []"
      using s by (auto simp: wpa_config_write_psk_def write_string_hex net_ok_def split: if_splits)
    then have "length t = 64" "hex_stored 32 t = net_psk s" "at_nul t 0 \<noteq> 34"
      using length_hex [of "net_psk s"] hex_stored_hex [of "net_psk s" "[]"] hex_text_start [of "net_psk s"] by simp_all
    then show ?thesis
      using None t s\<^sub>0 by (simp add: wpa_config_parse_psk_def at_nul_def [of _ 64] psk_value_def overwrite_all net_ok_def)
  qed
next
  fix s s' assume "psk_value s = psk_value s'"
  then show "Ret (wpa_config_write_psk True s) = Ret (wpa_config_write_psk True s')"
    by (auto simp: psk_value_def wpa_config_write_psk_def split: if_splits option.splits)
qed (simp_all add: psk_value_def)

text \<open>The text of a list of addresses, with spaces between them.\<close>

definition entry_text :: "addr_mask \<Rightarrow> u8 list" where
  "entry_text e = the (hwaddr_mask_txt 36 (fst e) (snd e))"

fun entries_text :: "bool \<Rightarrow> addr_mask list \<Rightarrow> u8 list" where
  "entries_text first [] = []"
| "entries_text first (e # es) = (if first then [] else [32]) @ entry_text e @ entries_text False es"

lemma mask_txt_entry:
  assumes "length a = 6" "length m = 6" "35 < len"
  shows "hwaddr_mask_txt len a m = Some (entry_text (a, m))"
  using mask_txt_form(2) [OF assms(1,2), of 36] mask_txt_form(2) [OF assms]
  by (auto simp: entry_text_def hwaddr_mask_txt_def Let_def split: if_splits)

lemma entry_text_form:
  assumes "length a = 6" "length m = 6"
  shows "entry_text (a, m) \<noteq> []" "length (entry_text (a, m)) \<le> 35" "32 \<notin> set (entry_text (a, m))"
    "rest = [] \<or> hd rest = 32 \<Longrightarrow> hwaddr_masked_aton (entry_text (a, m) @ rest) True = Some (a, m)"
    "\<not> has_newline (entry_text (a, m))"
proof -
  have e: "hwaddr_mask_txt 36 a m = Some (entry_text (a, m))" using mask_txt_entry [OF assms, of 36] by simp
  note f = mask_txt_form(1) [OF assms e]
  then show "entry_text (a, m) \<noteq> []" "length (entry_text (a, m)) \<le> 35" by simp_all
  show "32 \<notin> set (entry_text (a, m))" "\<not> has_newline (entry_text (a, m))"
    using f by (force, intro printable_newline) (force simp: word_le_nat_alt)
  show "rest = [] \<or> hd rest = 32 \<Longrightarrow> hwaddr_masked_aton (entry_text (a, m) @ rest) True = Some (a, m)"
    using mask_txt_parsed [OF assms e] by simp
qed

lemma write_addrs_text:
  "addrs_ok es \<Longrightarrow> length out + 36 * length es < room \<Longrightarrow> write_addrs room first out es = Ret (Some (out @ entries_text first es))"
proof (induction room first out es rule: write_addrs.induct)
  case (2 room first out a m es)
  then have l: "length a = 6" "length m = 6" "addrs_ok es" by (auto simp: addrs_ok_def)
  let ?out = "if first then out else out @ [32]"
  have "35 < room - length ?out" "length (?out @ entry_text (a, m)) + 36 * length es < room"
    using 2(3) entry_text_form(2) [OF l(1,2)] by (auto split: if_splits)
  with 2 l show ?case by (simp add: mask_txt_entry)
qed simp

lemma strchr_app: "c \<notin> set s \<Longrightarrow> strchr (s @ r) c = (case strchr r c of None \<Rightarrow> None | Some i \<Rightarrow> Some (length s + i))"
  by (induction s) (auto split: option.splits)

lemma parse_entry:
  assumes "length (fst e) = 6" "length (snd e) = 6"
    and "pos = entry_text e @ entries_text False es \<or> pos = 32 # entry_text e @ entries_text False es"
  shows "addr_list_from (\<lambda>_. True) ab True buf pos = addr_list_from (\<lambda>_. True) ab True (e # buf) (entries_text False es)"
proof -
  obtain a m where e: "e = (a, m)" "length a = 6" "length m = 6" using assms(1,2) by (cases e) auto
  note f = entry_text_form [OF e(2,3), folded e(1)]
  let ?p = "entry_text e @ entries_text False es"
  have "dropWhile (\<lambda>c. c = 32) ?p = ?p" using f(1,3) by (cases "entry_text e") auto
  then have p: "dropWhile (\<lambda>c. c = 32) pos = ?p" "pos \<noteq> []" using assms(3) f(1) by auto
  have "hwaddr_masked_aton ?p True = Some e" using f(4) [of "entries_text False es"] e(1) by (cases es) simp_all
  moreover have "strchr ?p 32 = (if es = [] then None else Some (length (entry_text e)))"
    using strchr_app [OF f(3), of "entries_text False es"] by (cases es) simp_all
  ultimately show ?thesis
    using p by (subst addr_list_from.simps) (simp add: addr_list_from.simps [of _ _ _ _ "[]"])
qed

lemma parse_entries:
  "addrs_ok es \<Longrightarrow> addr_list_from (\<lambda>_. True) ab True buf (entries_text first es) = Some (rev es @ buf)"
proof (induction es arbitrary: buf first)
  case Nil
  show ?case by (simp add: addr_list_from.simps)
next
  case (Cons e es)
  then show ?case using parse_entry [of e "entries_text first (e # es)" es ab buf] by (auto simp: addrs_ok_def)
qed

lemma addr_list_reload:
  assumes "addrs_ok l"
  shows "wpa_config_write_addr_list True l = Ret (if l = [] then None else Some (entries_text True (rev l)))"
    and "wpa_config_parse_addr_list (\<lambda>_. True) (entries_text True (rev l)) ab True old = (0, l)"
    and "\<not> has_newline (entries_text first l)"
proof -
  have ok: "addrs_ok (rev l)" using assms by (simp add: addrs_ok_def)
  show "wpa_config_write_addr_list True l = Ret (if l = [] then None else Some (entries_text True (rev l)))"
    using write_addrs_text [OF ok, of "[]" "2 * 20 * length l" True]
    by (cases l) (simp_all add: wpa_config_write_addr_list_def)
  show "wpa_config_parse_addr_list (\<lambda>_. True) (entries_text True (rev l)) ab True old = (0, l)"
    using parse_entries [OF ok] by (simp add: wpa_config_parse_addr_list_def)
  show "\<not> has_newline (entries_text first l)"
    using assms by (induction l arbitrary: first) (auto simp: addrs_ok_def has_newline_append entry_text_form(5))
qed

interpretation v_ignore: network_variable wpa_config_parse_bssid_ignore "wpa_config_write_bssid_ignore True" net_bssid_ignore
proof
  fix s s\<^sub>0 alloc t
  show "net_ok s \<Longrightarrow> net_ok (snd (wpa_config_parse_bssid_ignore alloc t s))"
    using parse_addr_list_ok [of "net_bssid_ignore s" alloc t True True]
    by (cases "wpa_config_parse_addr_list alloc t True True (net_bssid_ignore s)")
      (simp add: wpa_config_parse_bssid_ignore_def net_ok_def)
  assume s: "net_ok s" 
  then have ok: "addrs_ok (net_bssid_ignore s)" "addrs_ok (rev (net_bssid_ignore s))" by (simp_all add: net_ok_def addrs_ok_def)
  note r = addr_list_reload [OF ok(1)]
  show "\<exists>t. wpa_config_write_bssid_ignore True s = Ret t" using r(1) by (simp add: wpa_config_write_bssid_ignore_def)
  assume "wpa_config_write_bssid_ignore True s = Ret (Some t)"
  then have t: "t = entries_text True (rev (net_bssid_ignore s))"
    using r(1) by (simp add: wpa_config_write_bssid_ignore_def split: if_splits)
  then show "\<not> has_newline t" using addr_list_reload(3) [OF ok(2)] by simp
  show "0 \<le> fst (wpa_config_parse_bssid_ignore (\<lambda>_. True) t s\<^sub>0) \<and>
      net_bssid_ignore (snd (wpa_config_parse_bssid_ignore (\<lambda>_. True) t s\<^sub>0)) = net_bssid_ignore s"
    using r(2) t by (simp add: wpa_config_parse_bssid_ignore_def)
qed (simp_all add: wpa_config_parse_bssid_ignore_def wpa_config_write_bssid_ignore_def split: prod.split)

interpretation v_accept: network_variable wpa_config_parse_bssid_accept "wpa_config_write_bssid_accept True" net_bssid_accept
proof
  fix s s\<^sub>0 alloc t
  show "net_ok s \<Longrightarrow> net_ok (snd (wpa_config_parse_bssid_accept alloc t s))"
    using parse_addr_list_ok [of "net_bssid_accept s" alloc t True True]
    by (cases "wpa_config_parse_addr_list alloc t True True (net_bssid_accept s)")
      (simp add: wpa_config_parse_bssid_accept_def net_ok_def)
  assume s: "net_ok s" 
  then have ok: "addrs_ok (net_bssid_accept s)" "addrs_ok (rev (net_bssid_accept s))" by (simp_all add: net_ok_def addrs_ok_def)
  note r = addr_list_reload [OF ok(1)]
  show "\<exists>t. wpa_config_write_bssid_accept True s = Ret t" using r(1) by (simp add: wpa_config_write_bssid_accept_def)
  assume "wpa_config_write_bssid_accept True s = Ret (Some t)"
  then have t: "t = entries_text True (rev (net_bssid_accept s))"
    using r(1) by (simp add: wpa_config_write_bssid_accept_def split: if_splits)
  then show "\<not> has_newline t" using addr_list_reload(3) [OF ok(2)] by simp
  show "0 \<le> fst (wpa_config_parse_bssid_accept (\<lambda>_. True) t s\<^sub>0) \<and>
      net_bssid_accept (snd (wpa_config_parse_bssid_accept (\<lambda>_. True) t s\<^sub>0)) = net_bssid_accept s"
    using r(2) t by (simp add: wpa_config_parse_bssid_accept_def)
qed (simp_all add: wpa_config_parse_bssid_accept_def wpa_config_write_bssid_accept_def split: prod.split)

section \<open>Variables of the table\<close>

context network_variable
begin

text \<open>A variable whose row is in the table, through \<open>wpa_config_set\<close> and \<open>wpa_config_get\<close>.\<close>

lemma set_keeps:
  assumes "field_of tbl var = Some field" "pd_parser field = parse" "net_ok s"
  shows "net_ok (snd (wpa_config_set tbl alloc var t s)) \<and> net_id (snd (wpa_config_set tbl alloc var t s)) = net_id s"
  using keeps [OF assms(3), of alloc t] keeps_id [of alloc t s] assms(1,2)
  by (auto simp: wpa_config_set_def net_ok_def split: prod.split)

lemma set_get:
  assumes row: "field_of tbl var = Some field" "pd_parser field = parse" "pd_writer field True = show_val"
    and s: "net_ok s" "net_ok s\<^sub>0" and t: "wpa_config_get tbl True var s = Ret (Some t)"
  shows "\<exists>r s'. wpa_config_set tbl (\<lambda>_. True) var t s\<^sub>0 = (r, s') \<and> 0 \<le> r \<and> net_ok s' \<and> net_id s' = net_id s\<^sub>0 \<and>
    wpa_config_get tbl True var s' = Ret (Some t) \<and> val s' = val s"
proof -
  obtain t' where t': "show_val s = Ret t'" using writes [OF s(1)] by blast
  then have w: "show_val s = Ret (Some t)" "\<not> has_newline t"
    using t row by (auto simp: wpa_config_get_def split: option.splits if_splits)
  from reload [OF s w(1)] obtain r s' where r: "parse (\<lambda>_. True) t s\<^sub>0 = (r, s')" "0 \<le> r" "net_ok s'" "net_id s' = net_id s\<^sub>0"
    "show_val s' = Ret (Some t)" "val s' = val s" by blast
  let ?s = "s'\<lparr>was_recently_reconfigured := True\<rparr>"
  have ok: "net_ok ?s" using r(3) by (simp add: net_ok_def)
  have "show_val ?s = Ret (Some t)" using of_value [OF ok r(3)] flag r(5) by simp
  with row r ok flag w(2) show ?thesis by (simp add: wpa_config_set_def wpa_config_get_def)
qed

end

lemma rows:
  "field_of network_fields (bytes ''ssid'') = Some (network_fields ! 0)"
  "field_of network_fields (bytes ''bssid'') = Some (network_fields ! 1)"
  "field_of network_fields (bytes ''bssid_hint'') = Some (network_fields ! 2)"
  "field_of network_fields (bytes ''bssid_ignore'') = Some (network_fields ! 3)"
  "field_of network_fields (bytes ''bssid_accept'') = Some (network_fields ! 4)"
  "field_of network_fields (bytes ''bssid_blacklist'') = Some (network_fields ! 5)"
  "field_of network_fields (bytes ''bssid_whitelist'') = Some (network_fields ! 6)"
  "field_of network_fields (bytes ''psk'') = Some (network_fields ! 7)"
  by (simp_all add: field_of_def network_fields_def of_char_def)

lemma row_parsers:
  "pd_parser (network_fields ! 0) = wpa_config_parse_str ssid_row"
  "pd_parser (network_fields ! 1) = wpa_config_parse_bssid"
  "pd_parser (network_fields ! 2) = wpa_config_parse_bssid_hint"
  "pd_parser (network_fields ! 3) = wpa_config_parse_bssid_ignore"
  "pd_parser (network_fields ! 4) = wpa_config_parse_bssid_accept"
  "pd_parser (network_fields ! 5) = wpa_config_parse_bssid_ignore"
  "pd_parser (network_fields ! 6) = wpa_config_parse_bssid_accept"
  "pd_parser (network_fields ! 7) = wpa_config_parse_psk"
  by (simp_all add: network_fields_def)

lemma row_writers:
  "pd_writer (network_fields ! 0) True = (\<lambda>s. Ret (wpa_config_write_str ssid_row True s))"
  "pd_writer (network_fields ! 1) True = (\<lambda>s. Ret (wpa_config_write_bssid True s))"
  "pd_writer (network_fields ! 2) True = (\<lambda>s. Ret (wpa_config_write_bssid_hint True s))"
  "pd_writer (network_fields ! 3) True = (wpa_config_write_bssid_ignore True)"
  "pd_writer (network_fields ! 4) True = (wpa_config_write_bssid_accept True)"
  "pd_writer (network_fields ! 5) True = (wpa_config_write_bssid_ignore True)"
  "pd_writer (network_fields ! 6) True = (wpa_config_write_bssid_accept True)"
  "pd_writer (network_fields ! 7) True = (\<lambda>s. Ret (wpa_config_write_psk True s))"
  by (simp_all add: network_fields_def)

lemma row_names: "field_of network_fields var = Some field \<Longrightarrow> var \<in> set [bytes ''ssid'', bytes ''bssid'', bytes ''bssid_hint'', bytes ''bssid_ignore'', bytes ''bssid_accept'', bytes ''bssid_blacklist'', bytes ''bssid_whitelist'', bytes ''psk'']"
  by (simp add: field_of_def network_fields_def split: if_splits)

lemmas set_kept =
  v_ssid.set_keeps [OF rows(1) row_parsers(1)]
  v_bssid.set_keeps [OF rows(2) row_parsers(2)]
  v_hint.set_keeps [OF rows(3) row_parsers(3)]
  v_ignore.set_keeps [OF rows(4) row_parsers(4)]
  v_accept.set_keeps [OF rows(5) row_parsers(5)]
  v_ignore.set_keeps [OF rows(6) row_parsers(6)]
  v_accept.set_keeps [OF rows(7) row_parsers(7)]
  v_psk.set_keeps [OF rows(8) row_parsers(8)]

lemmas set_got =
  v_ssid.set_get [OF rows(1) row_parsers(1) row_writers(1)]
  v_bssid.set_get [OF rows(2) row_parsers(2) row_writers(2)]
  v_hint.set_get [OF rows(3) row_parsers(3) row_writers(3)]
  v_ignore.set_get [OF rows(4) row_parsers(4) row_writers(4)]
  v_accept.set_get [OF rows(5) row_parsers(5) row_writers(5)]
  v_ignore.set_get [OF rows(6) row_parsers(6) row_writers(6)]
  v_accept.set_get [OF rows(7) row_parsers(7) row_writers(7)]
  v_psk.set_get [OF rows(8) row_parsers(8) row_writers(8)]

text \<open>
  Setting a variable keeps the shape of the network, whatever name and text the client sends and
  whether or not memory is there: the arrays keep their sizes, the name and the passphrase stay in
  their limits, and the network keeps its id.
\<close>

theorem network_kept:
  assumes "net_ok s"
  shows "net_ok (snd (wpa_config_set network_fields alloc var val s)) \<and>
    net_id (snd (wpa_config_set network_fields alloc var val s)) = net_id s"
proof (cases "field_of network_fields var")
  case None
  then show ?thesis using assms by (simp add: wpa_config_set_def net_ok_def)
next
  case (Some field)
  show ?thesis using row_names [OF Some] set_kept [OF assms] by auto
qed

text \<open>The value of a variable, by the name of it.\<close>

definition same_value :: "u8 list \<Rightarrow> wpa_ssid \<Rightarrow> wpa_ssid \<Rightarrow> bool" where
  "same_value var s s' \<longleftrightarrow> list_all (\<lambda>(names, same). var \<in> set names \<longrightarrow> same)
     [([bytes ''ssid''], net_ssid s' = net_ssid s),
      ([bytes ''psk''], net_passphrase s' = net_passphrase s \<and> (net_passphrase s = None \<longrightarrow> net_psk_set s' \<and> net_psk s' = net_psk s)),
      ([bytes ''bssid''], net_bssid_set s' \<and> net_bssid s' = net_bssid s),
      ([bytes ''bssid_hint''], net_bssid_hint_set s' \<and> net_bssid_hint s' = net_bssid_hint s),
      ([bytes ''bssid_ignore'', bytes ''bssid_blacklist''], net_bssid_ignore s' = net_bssid_ignore s),
      ([bytes ''bssid_accept'', bytes ''bssid_whitelist''], net_bssid_accept s' = net_bssid_accept s)]"

lemma same_value_of:
  "same_value (bytes ''ssid'') s s' \<longleftrightarrow> net_ssid s' = net_ssid s"
  "same_value (bytes ''bssid'') s s' \<longleftrightarrow> net_bssid_set s' \<and> net_bssid s' = net_bssid s"
  "same_value (bytes ''bssid_hint'') s s' \<longleftrightarrow> net_bssid_hint_set s' \<and> net_bssid_hint s' = net_bssid_hint s"
  "same_value (bytes ''bssid_ignore'') s s' \<longleftrightarrow> net_bssid_ignore s' = net_bssid_ignore s"
  "same_value (bytes ''bssid_accept'') s s' \<longleftrightarrow> net_bssid_accept s' = net_bssid_accept s"
  "same_value (bytes ''bssid_blacklist'') s s' \<longleftrightarrow> net_bssid_ignore s' = net_bssid_ignore s"
  "same_value (bytes ''bssid_whitelist'') s s' \<longleftrightarrow> net_bssid_accept s' = net_bssid_accept s"
  "same_value (bytes ''psk'') s s' \<longleftrightarrow> net_passphrase s' = net_passphrase s \<and> (net_passphrase s = None \<longrightarrow> net_psk_set s' \<and> net_psk s' = net_psk s)"
  by (simp_all add: same_value_def of_char_def)

lemma got_set:
  "wpa_config_get network_fields True (bytes ''bssid'') s = Ret (Some t) \<Longrightarrow> net_bssid_set s"
  "wpa_config_get network_fields True (bytes ''bssid_hint'') s = Ret (Some t) \<Longrightarrow> net_bssid_hint_set s"
  "wpa_config_get network_fields True (bytes ''psk'') s = Ret (Some t) \<Longrightarrow> net_passphrase s = None \<Longrightarrow> net_psk_set s"
  unfolding wpa_config_get_def rows option.case row_writers
  by (auto simp: wpa_config_write_bssid_def wpa_config_write_bssid_hint_def wpa_config_write_psk_def
      split: if_splits option.splits)

text \<open>
  C32. A network survives being saved and read again. For every variable that is modelled, the text
  the writer makes of it is read back into any network with success and gives the
  same value there, and the same text when it is written again: names of any bytes, passphrases and
  keys, addresses, and lists of addresses with masks in their order.
\<close>

theorem network_reload:
  assumes "net_ok s" "net_ok s\<^sub>0" "wpa_config_get network_fields True var s = Ret (Some t)"
  shows "\<exists>r s'. wpa_config_set network_fields (\<lambda>_. True) var t s\<^sub>0 = (r, s') \<and> 0 \<le> r \<and> net_ok s' \<and> net_id s' = net_id s\<^sub>0 \<and>
    wpa_config_get network_fields True var s' = Ret (Some t) \<and> same_value var s s'"
proof -
  from assms(3) obtain field where "field_of network_fields var = Some field"
    by (auto simp: wpa_config_get_def split: option.splits)
  from row_names [OF this] consider "var = bytes ''ssid''" | "var = bytes ''bssid''" | "var = bytes ''bssid_hint''"
    | "var = bytes ''bssid_ignore''" | "var = bytes ''bssid_accept''" | "var = bytes ''bssid_blacklist''"
    | "var = bytes ''bssid_whitelist''" | "var = bytes ''psk''" by auto
  then show ?thesis
  proof cases
    case 1
    from set_got(1) [OF assms(1,2) assms(3) [unfolded 1]] show ?thesis unfolding 1 same_value_of by simp
  next
    case 2
    from set_got(2) [OF assms(1,2) assms(3) [unfolded 2]] got_set(1) [OF assms(3) [unfolded 2]]
    show ?thesis unfolding 2 same_value_of by (auto split: if_splits)
  next
    case 3
    from set_got(3) [OF assms(1,2) assms(3) [unfolded 3]] got_set(2) [OF assms(3) [unfolded 3]]
    show ?thesis unfolding 3 same_value_of by (auto split: if_splits)
  next
    case 4
    from set_got(4) [OF assms(1,2) assms(3) [unfolded 4]] show ?thesis unfolding 4 same_value_of by simp
  next
    case 5
    from set_got(5) [OF assms(1,2) assms(3) [unfolded 5]] show ?thesis unfolding 5 same_value_of by simp
  next
    case 6
    from set_got(6) [OF assms(1,2) assms(3) [unfolded 6]] show ?thesis unfolding 6 same_value_of by simp
  next
    case 7
    from set_got(7) [OF assms(1,2) assms(3) [unfolded 7]] show ?thesis unfolding 7 same_value_of by simp
  next
    case 8
    from set_got(8) [OF assms(1,2) assms(3) [unfolded 8]] got_set(3) [OF assms(3) [unfolded 8]]
    show ?thesis unfolding 8 same_value_of by (cases "net_passphrase s") (auto simp: psk_value_def split: if_splits)
  qed
qed

text \<open>A network with a name that is not text and a passphrase with a quote.\<close>

definition sample_network :: wpa_ssid where
  "sample_network = zero_ssid\<lparr>net_id := 3, net_ssid := Some [0xc3, 0xa9], net_passphrase := Some (bytes ''0123'' @ [34] @ bytes ''4567''),
     net_bssid_ignore := [([0, 1, 2, 3, 4, 5], replicate 6 0xff), ([6, 7, 8, 9, 10, 11], [0xff, 0xff, 0xff, 0, 0, 0])]\<rparr>"

lemma sample_network_ok: "net_ok sample_network" "net_ok zero_ssid"
  by (simp_all add: sample_network_def zero_ssid_def net_ok_def addrs_ok_def passphrase_ok_def has_ctrl_char_def of_char_def)

lemma network_kept_witness: "net_ok (snd (wpa_config_set network_fields (\<lambda>_. False) (bytes ''psk'') (bytes ''12zz'') sample_network))"
  using network_kept [OF sample_network_ok(1)] by blast

theorem network_reload_witness:
  "\<exists>r s'. wpa_config_set network_fields (\<lambda>_. True) (bytes ''psk'') ([34] @ bytes ''0123'' @ [34] @ bytes ''4567'' @ [34]) zero_ssid = (r, s') \<and>
     0 \<le> r \<and> same_value (bytes ''psk'') sample_network s'"
proof -
  have "wpa_config_get network_fields True (bytes ''psk'') sample_network = Ret (Some ([34] @ bytes ''0123'' @ [34] @ bytes ''4567'' @ [34]))"
    by code_simp
  from network_reload [OF sample_network_ok this] show ?thesis by (elim exE conjE) (intro exI conjI, assumption+)
qed

section \<open>Priorities\<close>

text \<open>
  The groups of the networks \<open>ids\<close>: priorities fall from group to group, and a group has all
  networks of its priority in their order.
\<close>

definition groups_ok :: "(int \<Rightarrow> int) \<Rightarrow> int list \<Rightarrow> int list list \<Rightarrow> bool" where
  "groups_ok prio ids gs \<longleftrightarrow> sorted_wrt (\<lambda>g h. prio (hd h) < prio (hd g)) gs \<and>
     (\<forall>g \<in> set gs. g \<noteq> [] \<and> g = filter (\<lambda>i. prio i = prio (hd g)) ids) \<and>
     (\<forall>i \<in> set ids. \<exists>g \<in> set gs. prio (hd g) = prio i)"

lemma join_group_None: "join_group prio i gs = None \<longleftrightarrow> (\<forall>g \<in> set gs. prio (hd g) \<noteq> prio i)"
  by (induction gs) auto

lemma join_group_Some:
  "join_group prio i gs = Some gs' \<Longrightarrow> \<exists>g1 g g2. gs = g1 @ g # g2 \<and> prio (hd g) = prio i \<and> gs' = g1 @ (g @ [i]) # g2"
proof (induction gs arbitrary: gs')
  case (Cons g gs)
  show ?case
  proof (cases "prio (hd g) = prio i")
    case True
    with Cons.prems show ?thesis by (intro exI [of _ "[]"] exI [of _ g] exI [of _ gs]) simp
  next
    case False
    with Cons.prems obtain gs'' where "join_group prio i gs = Some gs''" "gs' = g # gs''" by auto
    with Cons.IH obtain g1 g' g2 where "gs = g1 @ g' # g2" "prio (hd g') = prio i" "gs' = g # g1 @ (g' @ [i]) # g2" by blast
    then show ?thesis by (intro exI [of _ "g # g1"]) auto
  qed
qed simp

lemma insert_group_split:
  "\<exists>g1 g2. gs = g1 @ g2 \<and> insert_group prio i gs = g1 @ [i] # g2 \<and> (\<forall>g \<in> set g1. prio i \<le> prio (hd g)) \<and>
     (g2 = [] \<or> prio (hd (hd g2)) < prio i)"
proof (induction gs)
  case (Cons g gs)
  show ?case
  proof (cases "prio (hd g) < prio i")
    case True
    then show ?thesis by (intro exI [of _ "[]"] exI [of _ "g # gs"]) simp
  next
    case False
    from Cons obtain g1 g2 where "gs = g1 @ g2" "insert_group prio i gs = g1 @ [i] # g2"
      "\<forall>g \<in> set g1. prio i \<le> prio (hd g)" "g2 = [] \<or> prio (hd (hd g2)) < prio i" by blast
    with False show ?thesis by (intro exI [of _ "g # g1"] exI [of _ g2]) auto
  qed
qed simp

lemma add_prio_network_ok:
  assumes ok: "groups_ok prio ids gs"
  shows "\<exists>gs'. wpa_config_add_prio_network prio True i gs = (0, gs') \<and> groups_ok prio (ids @ [i]) gs'"
proof (cases "join_group prio i gs")
  case None
  then have new: "\<forall>g \<in> set gs. prio (hd g) \<noteq> prio i" by (simp add: join_group_None)
  obtain g1 g2 where g: "gs = g1 @ g2" "insert_group prio i gs = g1 @ [i] # g2"
    "\<forall>g \<in> set g1. prio i \<le> prio (hd g)" "g2 = [] \<or> prio (hd (hd g2)) < prio i" using insert_group_split by blast
  have "prio (hd g) < prio i" if "g \<in> set g2" for g
    using that g(4) ok g(1) by (cases g2) (fastforce simp: groups_ok_def sorted_wrt_append)+
  moreover have "prio i < prio (hd g)" if "g \<in> set g1" for g using that new g(1,3) by (force simp: order.order_iff_strict)
  moreover have "filter (\<lambda>j. prio j = prio i) ids = []" using ok new by (auto simp: groups_ok_def filter_empty_conv)
  ultimately have "groups_ok prio (ids @ [i]) (g1 @ [i] # g2)"
    using ok new unfolding g(1) groups_ok_def by (auto simp: sorted_wrt_append)
  with None g(2) show ?thesis by (simp add: wpa_config_add_prio_network_def)
next
  case (Some gs')
  then obtain g1 g g2 where g: "gs = g1 @ g # g2" "prio (hd g) = prio i" "gs' = g1 @ (g @ [i]) # g2"
    using join_group_Some by blast
  have "g \<noteq> []" using ok g(1) by (auto simp: groups_ok_def)
  moreover have "prio (hd h) \<noteq> prio i" if "h \<in> set g1 \<union> set g2" for h
    using that ok g(1,2) by (auto simp: groups_ok_def sorted_wrt_append)
  moreover have "prio (hd (filter (\<lambda>j. prio j = prio i) ids)) = prio i"
    using ok g(1,2) by (auto simp: groups_ok_def)
  ultimately have "groups_ok prio (ids @ [i]) gs'"
    using ok unfolding g(1,3) groups_ok_def by (auto simp: sorted_wrt_append g(2))
  with Some show ?thesis by (simp add: wpa_config_add_prio_network_def)
qed

lemma get_network:
  assumes "distinct (map net_id (nets c))" "s \<in> set (nets c)"
  shows "wpa_config_get_network c (net_id s) = Some s"
proof -
  have "distinct (map net_id ss) \<Longrightarrow> s \<in> set ss \<Longrightarrow> find (\<lambda>n. net_id s = net_id n) ss = Some s" for ss :: "wpa_ssid list"
    by (induction ss) (auto simp: image_iff)
  with assms show ?thesis by (simp add: wpa_config_get_network_def)
qed

text \<open>
  C33. The lists by priority are exact: with memory, rebuilding them succeeds, the priorities fall from
  list to list, each list has exactly the networks of its priority in the order of the
  configuration, and every network is in one.
\<close>

theorem priority_lists:
  assumes "distinct (map net_id (nets c))"
  shows "\<exists>gs. wpa_config_update_prio_list (\<lambda>_. True) c = (0, c\<lparr>pssid := gs\<rparr>) \<and>
    groups_ok (priority_of c) (map net_id (nets c)) gs \<and>
    (\<forall>s \<in> set (nets c). priority_of c (net_id s) = net_priority s \<and> (\<exists>g \<in> set gs. net_id s \<in> set g))"
proof -
  let ?p = "priority_of c"
  let ?f = "\<lambda>s (ret, groups). (case wpa_config_add_prio_network ?p True (net_id s) groups of
    (r, groups') \<Rightarrow> (if r < 0 then -1 else ret :: int, groups'))"
  have rebuilt: "\<exists>gs'. fold ?f ss (0, gs) = (0, gs') \<and> groups_ok ?p (ids @ map net_id ss) gs'" if "groups_ok ?p ids gs" for ss ids gs
    using that
  proof (induction ss arbitrary: ids gs)
    case (Cons s ss)
    from add_prio_network_ok [OF Cons.prems, of "net_id s"] obtain gs1
      where "wpa_config_add_prio_network ?p True (net_id s) gs = (0, gs1)" "groups_ok ?p (ids @ [net_id s]) gs1" by blast
    with Cons.IH [OF this(2)] show ?case by simp
  qed simp
  have "groups_ok ?p [] []" by (simp add: groups_ok_def)
  from rebuilt [OF this, of "nets c"] obtain gs where gs: "fold ?f (nets c) (0, []) = (0, gs)" "groups_ok ?p (map net_id (nets c)) gs"
    by auto
  have "?p (net_id s) = net_priority s" if "s \<in> set (nets c)" for s
    using get_network [OF assms that] by (simp add: priority_of_def)
  moreover have "\<exists>g \<in> set gs. net_id s \<in> set g" if "s \<in> set (nets c)" for s
  proof -
    have "net_id s \<in> set (map net_id (nets c))" using that by simp
    with gs(2) obtain g where g: "g \<in> set gs" "?p (hd g) = ?p (net_id s)" unfolding groups_ok_def by fastforce
    with gs(2) have "g = filter (\<lambda>i. ?p i = ?p (hd g)) (map net_id (nets c))" unfolding groups_ok_def by blast
    then have "net_id s \<in> set g" using g(2) \<open>net_id s \<in> set (map net_id (nets c))\<close> by (metis (mono_tags, lifting) filter_set Set.filter_eq mem_Collect_eq)
    with g(1) show ?thesis by blast
  qed
  ultimately show ?thesis using gs by (intro exI [of _ gs]) (simp add: wpa_config_update_prio_list_def)
qed

theorem priority_lists_witness:
  "\<exists>gs. wpa_config_update_prio_list (\<lambda>_. True) \<lparr>nets = [zero_ssid, zero_ssid\<lparr>net_id := 4, net_priority := 7\<rparr>], pssid = []\<rparr> =
     (0, \<lparr>nets = [zero_ssid, zero_ssid\<lparr>net_id := 4, net_priority := 7\<rparr>], pssid = gs\<rparr>)"
  using priority_lists [of "\<lparr>nets = [zero_ssid, zero_ssid\<lparr>net_id := 4, net_priority := 7\<rparr>], pssid = []\<rparr>"]
  by (auto simp: zero_ssid_def)

section \<open>Commands for a new network\<close>

lemma digit_bytes: "list_all (\<lambda>k. is_digit (byte (char_of (48 + k))) \<and> uint (byte (char_of (48 + k))) - 48 = int k) [0..<10]"
  by code_simp

lemma digit_byte: "k < 10 \<Longrightarrow> is_digit (byte (char_of (48 + k))) \<and> uint (byte (char_of (48 + k))) - 48 = int k"
  using digit_bytes by (simp only: list_all_iff atLeast0LessThan set_upt lessThan_iff Ball_def)

lemma show_nat_digits: "\<forall>c \<in> set (bytes (show_nat n)). is_digit c" "decimal_value (bytes (show_nat n)) = int n"
proof -
  have "(\<forall>c \<in> set (bytes (show_nat n)). is_digit c) \<and> decimal_value (bytes (show_nat n)) = int n"
  proof (induction n rule: show_nat.induct)
    case (1 n)
    show ?case
    proof (cases "n < 10")
      case True
      then show ?thesis using digit_byte [OF True] by (simp add: show_nat.simps [of n] decimal_value_def)
    next
      case False
      have "int n = int (n div 10) * 10 + int (n mod 10)"
        by (metis div_mult_mod_eq of_nat_add of_nat_mult of_nat_numeral)
      with False show ?thesis using 1 [OF False] digit_byte [of "n mod 10"]
        by (simp add: show_nat.simps [of n] decimal_value_def)
    qed
  qed
  then show "\<forall>c \<in> set (bytes (show_nat n)). is_digit c" "decimal_value (bytes (show_nat n)) = int n" by simp_all
qed

lemma show_nat_nonempty: "show_nat n \<noteq> []"
  by (subst show_nat.simps) simp

lemma atoi_show:
  assumes "0 \<le> n" "n < 2 ^ 31"
  shows "atoi (bytes (show_int n)) = n" "32 \<notin> set (bytes (show_int n))" "10 \<notin> set (bytes (show_int n))" "13 \<notin> set (bytes (show_int n))"
proof -
  let ?ds = "bytes (show_nat (nat n))"
  have i: "show_int n = show_nat (nat n)" using assms by (simp add: show_int_def)
  note ds = show_nat_digits [of "nat n"]
  have ne: "?ds \<noteq> []" using show_nat_nonempty by simp
  then have h: "is_digit (hd ?ds)" using ds(1) hd_in_set by blast
  then have "\<not> is_cspace (hd ?ds)" "hd ?ds \<noteq> 45" "hd ?ds \<noteq> 43" by (auto simp: is_digit_def is_cspace_def word_le_nat_alt)
  then have "dropWhile is_cspace ?ds = ?ds" "at_nul ?ds 0 \<noteq> 45" "at_nul ?ds 0 \<noteq> 43"
    using ne by (cases ?ds; simp add: at_nul_def)+
  moreover have tw: "takeWhile is_digit ?ds = ?ds" using ds(1) by (simp add: takeWhile_eq_all_conv)
  moreover have "sint (word_of_int n :: 32 word) = n"
    using assms by (simp add: int_word_sint)
  ultimately show "atoi (bytes (show_int n)) = n"
    using assms ds(2) unfolding atoi_def i Let_def by (simp add: tw)
  show "32 \<notin> set (bytes (show_int n))" "10 \<notin> set (bytes (show_int n))" "13 \<notin> set (bytes (show_int n))"
    using ds(1) unfolding i by (force simp: is_digit_def word_le_nat_alt)+
qed

lemma set_network_split:
  assumes "32 \<notin> set nid" "32 \<notin> set name" "wpa_config_get_network (conf d) (atoi nid) = Some s"
    and "wpa_supplicant_ctrl_iface_update_network tbl alloc galloc name val s d = Ret (ret, d1)"
  shows "\<exists>d2. wpa_supplicant_ctrl_iface_set_network tbl alloc galloc (nid @ 32 # name @ 32 # val) d = Ret (ret, d2) \<and> conf d2 = conf d1"
proof -
  have "strchr (nid @ 32 # name @ 32 # val) 32 = Some (length nid)" "strchr (name @ 32 # val) 32 = Some (length name)"
    using strchr_app [OF assms(1)] strchr_app [OF assms(2)] by simp_all
  then show ?thesis
    using assms(3,4) by (cases "wpa_config_get_network (conf d1) (atoi nid)")
      (simp_all add: wpa_supplicant_ctrl_iface_set_network_def calls_made_def Let_def)
qed

lemma get_last:
  assumes "nets c = ns @ [s]" "net_id s \<notin> net_id ` set ns"
  shows "wpa_config_get_network c (net_id s) = Some s"
    and "net_id s' = net_id s \<Longrightarrow> nets (put_network s' c) = ns @ [s']"
proof -
  have "find (\<lambda>n. net_id s = net_id n) ns = None" using assms(2) by (auto simp: find_None_iff)
  moreover have "find P (xs @ [x]) = (case find P xs of None \<Rightarrow> if P x then Some x else None | Some y \<Rightarrow> Some y)" for P xs and x :: wpa_ssid
    by (induction xs) auto
  ultimately show "wpa_config_get_network c (net_id s) = Some s" using assms(1) by (simp add: wpa_config_get_network_def)
  show "net_id s' = net_id s \<Longrightarrow> nets (put_network s' c) = ns @ [s']"
    using assms by (auto simp: put_network_def image_iff intro!: map_idI)
qed

text \<open>Naming a network that has no name yet and no passphrase, and giving it a passphrase then.\<close>

lemma update_ssid_new:
  assumes "nets (conf d) = ns @ [s]" "net_id s \<notin> net_id ` set ns" "net_ssid s = None" "net_passphrase s = None" "length x \<le> 32"
  shows "\<exists>d1. wpa_supplicant_ctrl_iface_update_network network_fields (\<lambda>_. True) galloc (bytes ''ssid'') (34 # x @ [34]) s d = Ret (0, d1) \<and>
    nets (conf d1) = ns @ [s\<lparr>net_ssid := Some x, was_recently_reconfigured := True\<rparr>]"
proof -
  let ?s = "s\<lparr>net_ssid := Some x, was_recently_reconfigured := True\<rparr>"
  have "wpa_config_parse_str ssid_row (\<lambda>_. True) (34 # x @ [34]) s = (0, s\<lparr>net_ssid := Some x\<rparr>)"
    using config_string_forms(1) [of x] assms by (simp add: wpa_config_parse_str_def set_str_def ssid_row_def of_char_def)
  then have set: "wpa_config_set network_fields (\<lambda>_. True) (bytes ''ssid'') (34 # x @ [34]) s = (0, ?s)"
    unfolding wpa_config_set_def rows option.case row_parsers by simp
  have "nets (put_network ?s (conf d)) = ns @ [?s]" using get_last(2) [OF assms(1,2)] by simp
  then show ?thesis
    unfolding wpa_supplicant_ctrl_iface_update_network_def set Let_def prod.case
    using assms(4) by (simp add: put_ssid_def calls_made_def of_char_def)
qed

lemma update_psk_new:
  assumes "nets (conf d) = ns @ [s]" "net_id s \<notin> net_id ` set ns" "net_ssid s = Some x" "x \<noteq> []" "length x \<le> 32"
    "net_passphrase s = None" "passphrase_ok p" "pbkdf2_sha1 p x 4096 32 = Ret k"
  shows "\<exists>d1. wpa_supplicant_ctrl_iface_update_network network_fields (\<lambda>_. True) galloc (bytes ''psk'') (34 # p @ [34]) s d = Ret (0, d1) \<and>
    nets (conf d1) = ns @ [s\<lparr>net_passphrase := Some p, net_psk := k, net_psk_set := True, was_recently_reconfigured := True\<rparr>]"
proof -
  let ?s = "s\<lparr>net_psk_set := False, net_passphrase := Some p, was_recently_reconfigured := True\<rparr>"
  let ?s2 = "?s\<lparr>net_psk := k, net_psk_set := True\<rparr>"
  have "wpa_config_parse_psk (\<lambda>_. True) (34 # p @ [34]) s = (0, s\<lparr>net_psk_set := False, net_passphrase := Some p\<rparr>)"
    using assms(6,7) by (simp add: wpa_config_parse_psk_def at_nul_def strrchr_last passphrase_ok_def)
  then have set: "wpa_config_set network_fields (\<lambda>_. True) (bytes ''psk'') (34 # p @ [34]) s = (0, ?s)"
    unfolding wpa_config_set_def rows option.case row_parsers by simp
  have psk: "wpa_config_update_psk ?s = Ret ?s2" using assms(3,8) by (simp add: wpa_config_update_psk_def)
  have n: "nets (put_network ?s (conf d)) = ns @ [?s]" using get_last(2) [OF assms(1,2)] by simp
  then have "nets (put_network ?s2 (put_network ?s (conf d))) = ns @ [?s2]"
    using get_last(2) [OF n] assms(2) by simp
  then show ?thesis
    unfolding wpa_supplicant_ctrl_iface_update_network_def set Let_def prod.case
    using assms(3,4) psk by (simp add: put_ssid_def calls_made_def of_char_def at_nul_def)
qed

lemma next_id_fresh: "\<forall>s \<in> set ss. net_id s < next_id ss" "0 \<le> next_id ss"
proof -
  let ?f = "\<lambda>s i. if net_id s > i then net_id s else i"
  have "j \<le> fold ?f ss j \<and> (\<forall>s \<in> set ss. net_id s \<le> fold ?f ss j)" for j
  proof (induction ss arbitrary: j)
    case (Cons s ss)
    from Cons.IH [of "?f s j"] show ?case by (auto split: if_splits)
  qed simp
  from this [of "-1"] show "\<forall>s \<in> set ss. net_id s < next_id ss" "0 \<le> next_id ss" by (auto simp: next_id_def)
qed

lemma show_nat_length: "m < 10 ^ Suc k \<Longrightarrow> length (show_nat m) \<le> Suc k"
proof (induction k arbitrary: m)
  case (Suc k)
  then have "m div 10 < 10 ^ Suc k" by (simp add: less_mult_imp_div_less)
  from Suc.IH [OF this] show ?case by (simp add: show_nat.simps [of m])
qed (simp add: show_nat.simps)

lemma add_network_new:
  assumes "next_id (nets (conf d)) < 2 ^ 31"
  shows "\<exists>d1. wpa_supplicant_ctrl_iface_add_network True galloc 4096 d = (Some (bytes (show_int (next_id (nets (conf d)))) @ [10]), d1) \<and>
    nets (conf d1) = nets (conf d) @ [zero_ssid\<lparr>net_id := next_id (nets (conf d)), net_disabled := 1\<rparr>]"
proof -
  let ?n = "next_id (nets (conf d))"
  have nets: "nets (snd (wpa_config_update_prio_list galloc c)) = nets c" for c
    by (simp add: wpa_config_update_prio_list_def case_prod_beta Let_def)
  have old: "map (\<lambda>s. if net_id s = ?n then s\<lparr>net_disabled := 1\<rparr> else s) (nets (conf d)) = nets (conf d)"
    using next_id_fresh(1) [of "nets (conf d)"] by (auto intro!: map_idI)
  have "nat ?n < 10 ^ Suc 9" using assms by simp
  then have "length (show_int ?n) < 4095"
    using show_nat_length [of "nat ?n" 9] next_id_fresh(2) [of "nets (conf d)"] by (simp add: show_int_def)
  with old nets show ?thesis
    by (simp add: wpa_supplicant_ctrl_iface_add_network_def wpa_supplicant_add_network_def wpa_config_add_network_def Let_def)
qed

end
