(* ===== verification/Int_Array.thy ===== *)
theory Int_Array
  imports Prelude
begin

text \<open>
  Arrays of numbers that end with a zero (\<open>src/utils/common.c\<close> of wpa\_supplicant), which hold
  channels and frequencies. A pointer to an array is \<open>None\<close> for NULL, and the list of all its
  cells otherwise. Reading behind the last cell and reading through NULL is \<open>OutOfBounds\<close>. The
  result of \<open>os_realloc_array\<close> is an argument, and sizes are below the largest \<open>size_t\<close>.
\<close>

section \<open>Operations\<close>

type_synonym int_array = "int list option"

text \<open>The loop of \<open>int_array_len\<close>, from the cell \<open>i\<close> on.\<close>

fun len_from :: "int list \<Rightarrow> nat outcome" where
  "len_from [] = OutOfBounds"
| "len_from (x # a) = (if x = 0 then Ret 0 else bind_outcome (len_from a) (\<lambda>n. Ret (Suc n)))"

definition int_array_len :: "int_array \<Rightarrow> nat outcome" where
  "int_array_len a = (case a of None \<Rightarrow> Ret 0 | Some cells \<Rightarrow> len_from cells)"

definition int_array_concat :: "bool \<Rightarrow> int_array \<Rightarrow> int_array \<Rightarrow> int_array outcome" where
  "int_array_concat alloc res a =
     bind_outcome (int_array_len res) (\<lambda>reslen.
     bind_outcome (int_array_len a) (\<lambda>alen.
       if \<not> alloc then Ret None
       else case a of
              None \<Rightarrow> OutOfBounds
            | Some cells \<Rightarrow> Ret (Some ((case res of None \<Rightarrow> [] | Some r \<Rightarrow> take reslen r) @ take (Suc alen) cells))))"

text \<open>The cells of the array, the number \<open>i\<close> of those kept, and the next one to look at.\<close>

function unique_loop :: "int list \<Rightarrow> nat \<Rightarrow> nat \<Rightarrow> (int list \<times> nat) outcome" where
  "unique_loop a i j =
     (if length a \<le> i then OutOfBounds
      else if a ! i = 0 then Ret (a, i)
      else if length a \<le> j then OutOfBounds
      else if a ! j = 0 then Ret (a, i)
      else if a ! i = a ! j then unique_loop a i (j + 1)
      else if length a \<le> i + 1 then OutOfBounds
      else unique_loop (a[i + 1 := a ! j]) (i + 1) (j + 1))"
  by pat_completeness auto
termination
  by (relation "measure (\<lambda>(a, i, j). length a - j)") auto

declare unique_loop.simps [simp del]

text \<open>
  \<open>qsort\<close> with \<open>freq_cmp\<close> sorts the cells in front of the zero by their numbers, since the
  difference of two frequencies does not overflow.
\<close>

definition int_array_sort_unique :: "int_array \<Rightarrow> int_array outcome" where
  "int_array_sort_unique a =
     (case a of
        None \<Rightarrow> Ret None
      | Some cells \<Rightarrow>
          bind_outcome (len_from cells) (\<lambda>alen.
          bind_outcome (unique_loop (sort (take alen cells) @ drop alen cells) 0 1) (\<lambda>(b, i).
            let k = (if b ! i \<noteq> 0 then i + 1 else i)
            in if k < length b then Ret (Some (b[k := 0])) else OutOfBounds)))"

text \<open>Where the loop of \<open>int_array_add_unique\<close> ends: at the zero, or at the number itself.\<close>

fun unique_from :: "int list \<Rightarrow> int \<Rightarrow> nat option outcome" where
  "unique_from [] v = OutOfBounds"
| "unique_from (x # a) v =
     (if x = 0 then Ret (Some 0)
      else if x = v then Ret None
      else bind_outcome (unique_from a v) (\<lambda>r. Ret (map_option Suc r)))"

definition int_array_add_unique :: "bool \<Rightarrow> int_array \<Rightarrow> int \<Rightarrow> int_array outcome" where
  "int_array_add_unique alloc res v =
     bind_outcome (case res of None \<Rightarrow> Ret (Some 0) | Some cells \<Rightarrow> unique_from cells v) (\<lambda>pos.
       case pos of
         None \<Rightarrow> Ret res
       | Some reslen \<Rightarrow>
           if \<not> alloc then Ret None
           else Ret (Some ((case res of None \<Rightarrow> [] | Some cells \<Rightarrow> take reslen cells) @ [v, 0])))"

fun includes_from :: "int list \<Rightarrow> int \<Rightarrow> bool outcome" where
  "includes_from [] v = OutOfBounds"
| "includes_from (x # a) v = (if x = 0 then Ret False else if v = x then Ret True else includes_from a v)"

definition int_array_includes :: "int_array \<Rightarrow> int \<Rightarrow> bool outcome" where
  "int_array_includes arr v = (case arr of None \<Rightarrow> Ret False | Some cells \<Rightarrow> includes_from cells v)"

fun all_included :: "int list \<Rightarrow> int_array \<Rightarrow> bool outcome" where
  "all_included [] b = Ret True"
| "all_included (x # xs) b =
     bind_outcome (int_array_includes b x) (\<lambda>found. if found then all_included xs b else Ret False)"

definition int_array_equal :: "int_array \<Rightarrow> int_array \<Rightarrow> bool outcome" where
  "int_array_equal a b =
     (case (a, b) of
        (Some ca, Some cb) \<Rightarrow>
          bind_outcome (len_from ca) (\<lambda>alen.
          bind_outcome (len_from cb) (\<lambda>blen.
            if alen \<noteq> blen then Ret False else all_included (take alen ca) b))
      | _ \<Rightarrow> Ret False)"

definition int_array_dup :: "bool \<Rightarrow> int_array \<Rightarrow> int_array outcome" where
  "int_array_dup alloc a =
     (case a of
        None \<Rightarrow> Ret None
      | Some cells \<Rightarrow> bind_outcome (len_from cells) (\<lambda>n. Ret (if alloc then Some (take (n + 1) cells) else None)))"

section \<open>The numbers of an array\<close>

text \<open>An array has the numbers in front of its first zero; NULL has none.\<close>

definition holds :: "int_array \<Rightarrow> int list \<Rightarrow> bool" where
  "holds a xs \<longleftrightarrow> 0 \<notin> set xs \<and> (case a of None \<Rightarrow> xs = [] | Some cells \<Rightarrow> \<exists>rest. cells = xs @ 0 # rest)"

lemma holds_cells: "0 \<notin> set xs \<Longrightarrow> holds (Some (xs @ 0 # rest)) xs"
  by (auto simp: holds_def)

lemma len_from_cells: "0 \<notin> set xs \<Longrightarrow> len_from (xs @ 0 # rest) = Ret (length xs)"
  by (induction xs) auto

lemma unique_from_cells:
  "0 \<notin> set xs \<Longrightarrow> unique_from (xs @ 0 # rest) v = Ret (if v \<in> set xs then None else Some (length xs))"
  by (induction xs) auto

lemma includes_from_cells: "0 \<notin> set xs \<Longrightarrow> includes_from (xs @ 0 # rest) v = Ret (v \<in> set xs)"
  by (induction xs) auto

lemma includes_holds: "holds b ys \<Longrightarrow> int_array_includes b v = Ret (v \<in> set ys)"
  by (auto simp: holds_def int_array_includes_def includes_from_cells split: option.splits)

lemma all_included_holds: "holds b ys \<Longrightarrow> all_included xs b = Ret (set xs \<subseteq> set ys)"
  by (induction xs) (auto simp: includes_holds)

text \<open>The invariant of \<open>unique_loop\<close>: the cells up to \<open>i\<close> are those before \<open>j\<close>, each once.\<close>

lemma remdups_adj_snoc:
  "xs \<noteq> [] \<Longrightarrow> remdups_adj (xs @ [x]) = (if last xs = x then remdups_adj xs else remdups_adj xs @ [x])"
  by (induction xs rule: remdups_adj.induct) auto

lemma unique_loop_cells:
  assumes "0 \<notin> set s" "Suc i \<le> j" "j \<le> length s" "length a = Suc (length s + length rest)"
    and "take (Suc i) a = remdups_adj (take j s)" "drop j a = drop j (s @ 0 # rest)"
  shows "\<exists>b k. unique_loop a i j = Ret (b, k) \<and> length b = length a \<and> take (Suc k) b = remdups_adj s \<and> Suc k < length b \<and> b ! k \<noteq> 0"
  using assms
proof (induction a i j rule: unique_loop.induct)
  case (1 a i j)
  have pos: "0 < j" "i < length a" "j < length a" using 1 by linarith+
  have s: "take j s \<noteq> []" using pos 1(5) by auto
  have len: "Suc i = length (remdups_adj (take j s))" using arg_cong [OF 1(7), of length] pos(2) by simp
  have last: "a ! i = last (take j s)"
    using arg_cong [OF 1(7), of last] pos(2) s by (simp add: take_Suc_conv_app_nth)
  then have nz: "a ! i \<noteq> 0" using 1(3) s last_in_set [OF s] by (metis in_set_takeD)
  have aj: "a ! j = (s @ 0 # rest) ! j" using arg_cong [OF 1(8), of "\<lambda>l. l ! 0"] pos(3) 1(5) by (simp del: drop_append)
  show ?case
  proof (cases "j = length s")
    case True
    then have "a ! j = 0" using aj by (simp add: nth_append)
    then have "unique_loop a i j = Ret (a, i)" using pos nz by (simp add: unique_loop.simps [of a i j])
    then show ?thesis using 1 True nz by simp
  next
    case False
    then have j: "j < length s" using 1(5) by simp
    then have "s ! j \<in> set s" by simp
    with 1(3) have "s ! j \<noteq> 0" by metis
    with j aj have sj: "a ! j = s ! j" "s ! j \<noteq> 0" by (simp_all add: nth_append)
    have next_drop: "drop (Suc j) a = drop (Suc j) (s @ 0 # rest)"
      using arg_cong [OF 1(8), of "drop 1"] by (simp del: drop_append)
    have snoc: "remdups_adj (take (Suc j) s) = (if a ! i = a ! j then remdups_adj (take j s) else remdups_adj (take j s) @ [a ! j])"
      using remdups_adj_snoc [OF s, of "s ! j"] j last sj(1) by (simp add: take_Suc_conv_app_nth)
    show ?thesis
    proof (cases "a ! i = a ! j")
      case True
      then have "unique_loop a i j = unique_loop a i (j + 1)" using pos nz by (simp add: unique_loop.simps [of a i j])
      with 1(1) True pos nz sj snoc next_drop j 1(3-8) show ?thesis by simp
    next
      case False
      let ?a = "a[i + 1 := a ! j]"
      have i: "Suc i < length a" using pos 1(4) by simp
      have eq: "unique_loop a i j = unique_loop ?a (i + 1) (j + 1)" using False i pos nz sj by (simp add: unique_loop.simps [of a i j])
      have "take (Suc (Suc i)) ?a = remdups_adj (take (Suc j) s)" using snoc False i 1(7) by (simp add: take_Suc_conv_app_nth)
      moreover have "drop (Suc j) ?a = drop (Suc j) (s @ 0 # rest)" using next_drop 1(4) by simp
      ultimately show ?thesis using 1(2) False i pos nz sj j 1(3-6) eq by simp
    qed
  qed
qed

lemma distinct_remdups_adj: "sorted xs \<Longrightarrow> distinct (remdups_adj xs)" for xs :: "int list"
  by (induction xs rule: remdups_adj.induct) auto

lemma sort_unique_holds:
  assumes "holds a xs"
  shows "\<exists>r. int_array_sort_unique a = Ret r \<and> holds r (sorted_list_of_set (set xs)) \<and> (a = None \<longleftrightarrow> r = None)"
proof (cases a)
  case None
  with assms show ?thesis by (simp add: int_array_sort_unique_def holds_def)
next
  case (Some cells)
  then obtain rest where c: "cells = xs @ 0 # rest" "0 \<notin> set xs" using assms by (auto simp: holds_def)
  have uniq: "remdups_adj (sort xs) = sorted_list_of_set (set xs)"
    by (rule sorted_distinct_set_unique) (simp_all add: distinct_remdups_adj)
  show ?thesis
  proof (cases "xs = []")
    case True
    then show ?thesis using Some c by (simp add: int_array_sort_unique_def unique_loop.simps holds_def)
  next
    case False
    let ?a = "sort xs @ 0 # rest"
    have "take (Suc 0) ?a = remdups_adj (take 1 (sort xs))" using False by (cases "sort xs") (auto dest: arg_cong [of _ _ length])
    from unique_loop_cells [of "sort xs" 0 1 ?a rest] this c(2) False obtain b k
      where b: "unique_loop ?a 0 1 = Ret (b, k)" "length b = length ?a" "take (Suc k) b = remdups_adj (sort xs)" "Suc k < length b" "b ! k \<noteq> 0"
      by (auto simp: Suc_le_eq)
    have "b[Suc k := 0] = take (Suc k) b @ 0 # drop (Suc (Suc k)) b" using b(4) by (simp add: upd_conv_take_nth_drop)
    then have "holds (Some (b[Suc k := 0])) (sorted_list_of_set (set xs))"
      using c(2) unfolding b(3) uniq by (auto intro: holds_cells)
    with Some c b show ?thesis by (simp add: int_array_sort_unique_def len_from_cells)
  qed
qed

text \<open>
  Arrays of numbers behave as the lists of their numbers, and no operation reads outside of one.
  Lengths, copies, concatenation, insertion and membership are those of the lists;
  sorting leaves each number once, in increasing order. \<open>int_array_equal\<close> compares the lengths and
  asks whether the numbers of the first array are among those of the second.
\<close>

theorem int_arrays_refine_lists:
  assumes "holds a xs" "holds b ys" "v \<noteq> 0"
  shows "int_array_len a = Ret (length xs) \<and>
    (b \<noteq> None \<longrightarrow> (\<exists>r. int_array_concat True a b = Ret r \<and> holds r (xs @ ys))) \<and>
    (\<exists>r. int_array_sort_unique a = Ret r \<and> holds r (sorted_list_of_set (set xs))) \<and>
    (\<exists>r. int_array_add_unique True a v = Ret r \<and> holds r (if v \<in> set xs then xs else xs @ [v])) \<and>
    int_array_includes a v = Ret (v \<in> set xs) \<and>
    (a \<noteq> None \<longrightarrow> b \<noteq> None \<longrightarrow> int_array_equal a b = Ret (length xs = length ys \<and> set xs \<subseteq> set ys)) \<and>
    (\<exists>r. int_array_dup True a = Ret r \<and> holds r xs)"
proof -
  have len: "int_array_len a = Ret (length xs)" "int_array_len b = Ret (length ys)"
    using assms by (auto simp: int_array_len_def holds_def len_from_cells split: option.splits)
  have nz: "0 \<notin> set xs" "0 \<notin> set ys" using assms by (simp_all add: holds_def)
  have "\<exists>r. int_array_concat True a b = Ret r \<and> holds r (xs @ ys)" if "b \<noteq> None"
    using len assms that by (auto simp: int_array_concat_def holds_def split: option.splits)
  moreover have "\<exists>r. int_array_add_unique True a v = Ret r \<and> holds r (if v \<in> set xs then xs else xs @ [v])"
    using assms by (auto simp: int_array_add_unique_def holds_def unique_from_cells split: option.splits)
  moreover have "int_array_equal a b = Ret (length xs = length ys \<and> set xs \<subseteq> set ys)" if some: "a \<noteq> None" "b \<noteq> None"
  proof -
    obtain ra rb where "a = Some (xs @ 0 # ra)" "b = Some (ys @ 0 # rb)"
      using assms some by (auto simp: holds_def split: option.splits)
    then show ?thesis using nz all_included_holds [OF assms(2), of xs] by (simp add: int_array_equal_def len_from_cells)
  qed
  moreover have "\<exists>r. int_array_dup True a = Ret r \<and> holds r xs"
    using assms by (auto simp: int_array_dup_def holds_def len_from_cells split: option.splits)
  ultimately show ?thesis using len(1) sort_unique_holds [OF assms(1)] includes_holds [OF assms(1), of v] by blast
qed

text \<open>Arrays with different numbers can compare as equal.\<close>

lemma int_arrays_refine_lists_witness: "int_array_equal (Some [36, 36, 0]) (Some [36, 40, 0]) = Ret True"
proof -
  have "holds (Some [36, 36, 0]) [36, 36]" "holds (Some [36, 40, 0]) [36, 40]" by (simp_all add: holds_def)
  from int_arrays_refine_lists [OF this, of 1] show ?thesis by simp
qed

end
