(* ===== verification/Spec2Isabelle.thy ===== *)
theory Spec2Isabelle
  imports File_Tree Print_Panel WebSocket_Client Update_Check Byte_Order Aes_Modes Aes_Aead Md4 Key_Derivation
    Base64 Bitfield Wifi_Panel Wpabuf Config Prompt_Panel Console_Panel Print_Status Wpa_Config Int_Array
begin

text \<open>
  \<^bold>\<open>The program\<close>

  vibescreen is the touch screen of a 3D printer. It is a C++ program (\<open>src/src\<close>) that draws
  panels with LVGL, talks to Moonraker over a websocket (libhv) and to wpa\_supplicant over its
  control socket. The repository carries the C sources of wpa\_supplicant
  (\<open>src/wpa_supplicant\<close>), of which the program links the control client
  (\<open>src/common/wpa_ctrl.c\<close>); the daemon, its cryptography and its utilities are built from the
  same tree.

  Two threads meet in two queues. libhv's thread appends what arrives on the websocket and on
  the control socket; a timer on the LVGL thread drains the queues and runs the handlers, so that
  everything behind the queues is sequential. A drained message goes to the handler that waits
  for its reply, or as a notification to the consumers: first to \<open>State\<close>, which merges it
  into what is known of the printer, then to the panels. The panels read the state and the
  configuration, change their own state, draw, and send requests. The development models this
  path: the queues, the dispatch, the state, the configuration, and the panels whose logic goes
  beyond the drawing, and of wpa\_supplicant the control client, the hashes, ciphers and key
  derivations, the utilities they rest on, and the networks of the configuration with the commands
  that the panel sends to set them up.

  \<^bold>\<open>How code becomes definitions\<close>

  Every operation is a function that computes; a method that changes its object returns it
  changed. A class or structure is a record with the names of its fields; a \<open>std::map\<close> is an
  association list with increasing keys (\<open>smap_*\<close> in \<open>Prelude\<close>); a pointer into a tree is the
  path of its node, a \<open>shared_ptr\<close> the number of its object in a store. A C buffer is a list of
  bytes; \<open>outcome\<close> has the value a C function returns, its error, or the access outside of a
  buffer; an exception is \<open>None\<close>. What a handler does outside of the program, a request, a
  command or a call of LVGL, is in the list of effects it returns. \<open>u8\<close> to \<open>u64\<close> are words that
  wrap as in C, and \<open>size_t\<close> has 32 bits as on the printer. Hashes are those of a little-endian
  machine. Whether an allocation succeeds is an argument.

  Code that is not in the repository is an argument of what uses it: nlohmann::json is the record
  \<open>json_lib\<close> with the laws \<open>json_laws\<close> (\<open>Printer_State\<close>) and \<open>config_laws\<close> (\<open>Config\<close>), the
  wpa\_supplicant process is the function \<open>send\<close> with the laws \<open>daemon_laws\<close> (\<open>Wifi_Panel\<close>), the
  kernel is the answers of its calls (\<open>Wpa_Ctrl\<close>), handlers of the websocket are the calls they
  make and whether they throw (\<open>WebSocket_Client\<close>), \<open>std::sort\<close> is any result its comparator
  allows (\<open>Print_Panel\<close>, \<open>Wifi_Panel\<close>), and the format \<open>{:?}\<close> of fmt is \<open>quote\<close> with the laws
  \<open>quote_laws\<close> below. A statement that assumes such laws has a witness with a
  concrete library that keeps them.

  \<^bold>\<open>The theories\<close>

  \<^item> \<open>Prelude\<close>: machine words, ordered maps, \<open>outcome\<close>, and the lemmas shared by the others.
  \<^item> \<open>Event_Queue\<close>: the locale \<open>bounded_queue\<close>, the contract of both queues: a drain returns the
    newest events in their order, at most as many as the queue holds. \<open>WebSocket_Client\<close> and
    \<open>Wpa_Event\<close> interpret it.
  \<^item> \<open>File_Tree\<close> (\<open>tree.h\<close>, \<open>KUtils::split\<close>, \<open>PrintPanel::subscribe\<close>): adding a path gives the tree
    with exactly that node more, paths and nodes correspond, and a rebuilt tree keeps the metadata
    of the files that did not change.
  \<^item> \<open>Print_Panel\<close> (\<open>print_panel.cpp\<close>): the handlers and a step relation of the panel with Moonraker.
    Invariants over all reachable states: what is being scanned is known exactly, a click never
    follows a path that is gone, Print waits for a scan, and a held Print is released.
  \<^item> \<open>WebSocket_Client\<close> (\<open>websocket_client.cpp\<close>): a reply reaches the handler of its request,
    once, over any interleaving of sends and events; registration and notification. The locale
    \<open>client_invariant\<close> carries an invariant through every event and is interpreted for five.
  \<^item> \<open>Update_Check\<close> (\<open>update_check.cpp\<close>): the detached check and its timers as a step relation; a
    check cannot block the next one, the notice is what the script answered, switched off is off,
    the answer is parsed back, and the period with its 32-bit overflow.
  \<^item> \<open>Printer_State\<close> (\<open>state.cpp\<close> and the queries of \<open>utils.cpp\<close>): a pointer reads what the last
    notification about it said; what the main screen shows.
  \<^item> \<open>Config\<close> (\<open>config.cpp\<close>, \<open>config.h\<close>): initialisation fills in what is missing and keeps the rest.
  \<^item> \<open>Panel_Utils\<close> (\<open>utils.cpp\<close>): numbers in text, choice of the thumbnail.
  \<^item> \<open>Prompt_Panel\<close> (\<open>prompt_panel.cpp\<close>): a prompt is built as the macro describes it, and no object is
    used after it was deleted.
  \<^item> \<open>Console_Panel\<close> (\<open>console_panel.cpp\<close>): the history is that of the last twenty commands.
  \<^item> \<open>Print_Status\<close> (\<open>print_status_panel.cpp\<close>): the panel comes to the front once for every print and leaves
    when it is over, the layer counter is not lost, and the time left.
  \<^item> \<open>Wpa_Ctrl\<close> (\<open>wpa_ctrl.c\<close>): a request returns the reply to it, past events and retries.
  \<^item> \<open>Wpa_Event\<close> (\<open>wpa_event.cpp\<close>, \<open>event_guard.h\<close>): every event reaches every callback, and a
    callback that throws does not keep the others from running.
  \<^item> \<open>Wifi_Panel\<close> (\<open>wifi_panel.cpp\<close>): connecting replaces the network instead of adding one, the list
    of networks and the scan results are parsed and shown as they are.
  \<^item> \<open>Byte_Order\<close> (\<open>common.h\<close>): integers in buffers, by the locale \<open>byte_order\<close>.
  \<^item> \<open>Aes_Tables\<close>, \<open>Aes_Cipher\<close> (\<open>aes-internal*.c\<close>): decryption inverts encryption, for each key
    length. \<open>Aes_Modes\<close> and \<open>Aes_Aead\<close>, over the locale \<open>block_cipher\<close>: CBC, counter mode, key wrap,
    OMAC1, EAX, SIV, CCM and GCM, with their round trips, error results and the reference of
    CMAC.
  \<^item> \<open>Hash_Stream\<close>: the locales \<open>md_stream\<close> and \<open>md_hash\<close>, where the digest of a vector of buffers is the
    reference digest of their concatenation. \<open>Sha2\<close> has the reference of FIPS 180-4, \<open>Sha256\<close>,
    \<open>Sha512\<close>, \<open>Sha1\<close>, \<open>Md4\<close> and \<open>Md5\<close> the implementations, which interpret \<open>md_hash\<close>.
  \<^item> \<open>Hmac\<close> over the locale \<open>vector_hash\<close>, \<open>Key_Derivation\<close> over the locale \<open>keyed_mac\<close>: equality with
    RFC 2104, HKDF, the PRFs and PBKDF2.
  \<^item> \<open>Base64\<close>, \<open>Bitfield\<close>, \<open>Wpabuf\<close> (\<open>src/utils\<close>): round trips within the allocated memory, refinement of
    sets of numbers, and that no operation on a buffer leaves its memory.
  \<^item> \<open>Text_Codec\<close> (\<open>src/utils/common.c\<close>): the escapes of \<open>printf\<close>, hexadecimal text, hardware addresses,
    strings of the configuration, with their round trips. \<open>Int_Array\<close>: arrays of numbers refine lists.
  \<^item> \<open>Wpa_Config\<close> (\<open>config.c\<close>, \<open>ctrl_iface.c\<close>): the networks of the daemon. The locale
    \<open>network_variable\<close> is the contract of a variable, that its parser keeps the shape of a network and
    reads what its writer makes, and is interpreted for six; a saved network is read back, and
    the lists by priority are exact.
  \<^item> This theory: what \<open>WifiPanel::connect\<close> sends, through \<open>Wpa_Config\<close> and \<open>Key_Derivation\<close>, sets up the
    network in wpa\_supplicant, and for which names it does.

  \<^bold>\<open>Termination, fuel and bounds\<close>

  Loops over data are structural or have a measure. No definition takes fuel. The two loops that
  may wait for ever do so on input: \<open>wpa_ctrl_await\<close> is \<open>None\<close> while the answers of the kernel
  that it was given are used up, and it is proved to return when the reply is among them; and
  the state machines are inductive relations, where liveness is stated as what the next events
  lead to. Bounds in statements are those of the code: the lengths below \<open>2 ^ 32\<close> that \<open>size_t\<close>
  allows, \<open>2 ^ 32 - 63\<close> for SHA-1, whose length arithmetic wraps above, and bit fields below
  \<open>2 ^ 31\<close> bits.

  \<^bold>\<open>Not modelled\<close>

  \<^item> The remaining panels, dialogs and widgets: they build LVGL objects and format numbers for them.
    The bed mesh and the input shaper compute in floating point and draw the result.
  \<^item> Start-up, TLS set-up, child processes, downloads and files: calls of libraries and of the
    system.
  \<^item> \<open>parse_macros\<close> (regular expressions of the C++ library) and the mapping of fan speeds (floating
    point).
  \<^item> Mutexes: the handlers run on the LVGL thread, and the queues are modelled at the granularity
    of their critical sections.
  \<^item> The rest of wpa\_supplicant: DES, RC4, MILENAGE, big numbers and TLS, EAP, WPS, the drivers
    and the rest of the daemon. They are vendored and not part of what the program links.
  \<^item> Assets, themes, packaging and scripts.
\<close>

section \<open>Joining a network\<close>

text \<open>
  The panel shows the name of a network as wpa\_supplicant reports it, and sends it back in
  \<open>SET_NETWORK\<close> in the format \<open>{:?}\<close> of fmt. This format puts a printable text in quotes and a
  backslash in front of the quotes and backslashes in it, which is all that is assumed of it.
\<close>

definition escaped :: "char \<Rightarrow> string" where
  "escaped c = (if c = CHR 0x22 \<or> c = CHR 0x5C then [CHR 0x5C, c] else [c])"

definition quote_laws :: "(string \<Rightarrow> string) \<Rightarrow> bool" where
  "quote_laws quote \<longleftrightarrow> (\<forall>s. list_all (\<lambda>c. 32 \<le> byte c \<and> byte c \<le> 126) s \<longrightarrow>
     quote s = [CHR 0x22] @ concat (map escaped s) @ [CHR 0x22])"

definition chars :: "u8 list \<Rightarrow> string" where
  "chars t = map (\<lambda>b. char_of (unat b)) t"

text \<open>Texts that have neither quotes nor backslashes.\<close>

definition plain :: "u8 list \<Rightarrow> bool" where
  "plain t \<longleftrightarrow> list_all (\<lambda>b. 32 \<le> b \<and> b \<le> 126 \<and> b \<noteq> 34 \<and> b \<noteq> 92) t"

definition escaped_byte :: "u8 \<Rightarrow> u8 list" where
  "escaped_byte b = (if b = 34 \<or> b = 92 then [92, b] else [b])"

lemma unat_byte: "unat (byte c) = of_char c"
proof -
  have "byte c = of_nat (of_char c)" by (rule of_nat_of_char [symmetric])
  then show ?thesis by (simp add: unat_of_nat of_char_mod_256)
qed

lemma byte_char [simp]: "byte (char_of (unat b)) = b"
  using unat_u8 [of b] by (intro word_unat_eq_iff [THEN iffD2]) (simp add: unat_byte)

lemma bytes_chars [simp]: "bytes (chars t) = t"
  by (simp add: chars_def comp_def)

lemma byte_eq: "byte c = byte c' \<longleftrightarrow> c = c'"
  by (metis unat_byte of_char_eq_iff)

lemma bytes_quote:
  assumes "quote_laws quote" "\<forall>b \<in> set (bytes s). 32 \<le> b \<and> b \<le> 126"
  shows "bytes (quote s) = 34 # concat (map escaped_byte (bytes s)) @ [34]"
proof -
  have "bytes (escaped c) = escaped_byte (byte c)" for c
    by (simp add: escaped_def escaped_byte_def byte_eq [of c "CHR 0x22", simplified] byte_eq [of c "CHR 0x5C", simplified])
  then have e: "bytes (concat (map escaped s)) = concat (map escaped_byte (bytes s))" by (simp add: map_concat comp_def)
  have q: "quote s = [CHR 0x22] @ concat (map escaped s) @ [CHR 0x22]"
    using assms unfolding quote_laws_def list_all_iff by auto
  have "byte (CHR 0x22) = 34" by simp
  then show ?thesis unfolding q map_append e by simp
qed

lemma plain_escaped: "plain t \<Longrightarrow> concat (map escaped_byte t) = t"
  by (induction t) (auto simp: plain_def escaped_byte_def)

lemma plain_encoded: "plain t \<Longrightarrow> concat (map encode_byte t) = t"
  by (induction t) (auto simp: plain_def encode_byte_def)

lemma escaped_length: "length t \<le> length (concat (map escaped_byte t))"
  by (induction t) (auto simp: escaped_byte_def)

lemma encoded_plain: "length (concat (map encode_byte t)) \<le> length t \<Longrightarrow> plain t"
proof (induction t)
  case (Cons b t)
  note l = encode_byte_length(1) [of b] length_encoded [of t]
  have "length (encode_byte b) + length (concat (map encode_byte t)) \<le> Suc (length t)" using Cons.prems by simp
  with l have "length (encode_byte b) = 1" "length (concat (map encode_byte t)) \<le> length t" by linarith+
  moreover have "32 \<le> b \<and> b \<le> 126 \<and> b \<noteq> 34 \<and> b \<noteq> 92" if "length (encode_byte b) = 1"
    using that by (cases rule: encode_byte_cases [of b]) auto
  ultimately show ?case using Cons.IH by (simp add: plain_def)
qed (simp add: plain_def)

lemma name_shown:
  assumes "length ssid \<le> 32" "wpa_ssid_txt (Some ssid) = Ret t"
  shows "t = concat (map encode_byte ssid)" "\<forall>b \<in> set t. 32 \<le> b \<and> b \<le> 126"
proof -
  obtain k where "encode_from 129 [] ssid = concat (map encode_byte (take k ssid))" "k = length ssid"
    using encode_from_prefix [of ssid 129 "[]"] assms(1) by auto
  with assms(2) show t: "t = concat (map encode_byte ssid)"
    by (simp add: wpa_ssid_txt_def printf_encode_def Let_def split: if_splits)
  show "\<forall>b \<in> set t. 32 \<le> b \<and> b \<le> 126" unfolding t using encode_byte_printable by auto
qed

text \<open>The name comes back as it was exactly when nothing had to be escaped.\<close>

lemma name_sent:
  assumes "length ssid \<le> 32" "wpa_ssid_txt (Some ssid) = Ret t"
  shows "concat (map escaped_byte t) = ssid \<longleftrightarrow> plain ssid"
proof
  note t = name_shown [OF assms]
  show "concat (map escaped_byte t) = ssid" if "plain ssid" using that t(1) by (simp add: plain_encoded plain_escaped)
  show "plain ssid" if "concat (map escaped_byte t) = ssid"
    using that escaped_length [of t] t(1) by (intro encoded_plain) simp
qed

lemma chars_bytes [simp]: "chars (bytes s) = s"
  by (simp add: chars_def comp_def unat_byte)

lemma set_ssid_text:
  assumes "quote_laws quote" "\<forall>b \<in> set t. 32 \<le> b \<and> b \<le> 126"
  shows "bytes (cmd_text quote (SetSsid nid (chars t))) =
    bytes ''SET_NETWORK '' @ bytes nid @ 32 # bytes ''ssid'' @ 32 # 34 # concat (map escaped_byte t) @ [34]"
    and "bytes (cmd_text quote (SetPsk nid (chars t))) =
    bytes ''SET_NETWORK '' @ bytes nid @ 32 # bytes ''psk'' @ 32 # 34 # concat (map escaped_byte t) @ [34]"
  using bytes_quote [OF assms(1), of "chars t"] assms(2) by simp_all

lemma process_set:
  assumes "wpa_supplicant_ctrl_iface_set_network tbl (\<lambda>_. True) (\<lambda>_. True) cmd d = Ret (ret, d1)"
  shows "process_network tbl (bytes ''SET_NETWORK '' @ cmd) d =
    Some (Ret (bytes (if ret = 0 then ''OK'' else ''FAIL'') @ [10], d1))"
  using assms by (simp add: process_network_def reply_or_fail_def)

lemma update_ssid_long:
  assumes "nets (conf d) = ns @ [s]" "net_id s \<notin> net_id ` set ns" "32 < length x"
  shows "\<exists>d1. wpa_supplicant_ctrl_iface_update_network network_fields (\<lambda>_. True) galloc (bytes ''ssid'') (34 # x @ [34]) s d = Ret (-1, d1) \<and>
    nets (conf d1) = ns @ [s\<lparr>was_recently_reconfigured := True\<rparr>]"
proof -
  let ?s = "s\<lparr>was_recently_reconfigured := True\<rparr>"
  have "wpa_config_parse_str ssid_row (\<lambda>_. True) (34 # x @ [34]) s = (-1, s)"
    using config_string_forms(1) [of x] assms by (simp add: wpa_config_parse_str_def set_str_def ssid_row_def of_char_def)
  then have set: "wpa_config_set network_fields (\<lambda>_. True) (bytes ''ssid'') (34 # x @ [34]) s = (-1, ?s)"
    unfolding wpa_config_set_def rows option.case row_parsers by simp
  have "nets (put_network ?s (conf d)) = ns @ [?s]" using get_last(2) [OF assms(1,2)] by simp
  then show ?thesis
    unfolding wpa_supplicant_ctrl_iface_update_network_def set Let_def prod.case by (simp add: put_ssid_def)
qed

text \<open>The two commands, for the newest network.\<close>

lemma ssid_processed:
  assumes "quote_laws quote" "\<forall>b \<in> set t. 32 \<le> b \<and> b \<le> 126"
    and "nets (conf d) = ns @ [s]" "net_id s \<notin> net_id ` set ns" "atoi (bytes nid) = net_id s" "32 \<notin> set (bytes nid)"
    and "net_ssid s = None" "net_passphrase s = None" "length (concat (map escaped_byte t)) \<le> 32"
  shows "\<exists>d1. process_network network_fields (bytes (cmd_text quote (SetSsid nid (chars t)))) d = Some (Ret (bytes ''OK'' @ [10], d1)) \<and>
    nets (conf d1) = ns @ [s\<lparr>net_ssid := Some (concat (map escaped_byte t)), was_recently_reconfigured := True\<rparr>]"
proof -
  let ?x = "concat (map escaped_byte t)"
  have get: "wpa_config_get_network (conf d) (atoi (bytes nid)) = Some s" using get_last(1) [OF assms(3,4)] assms(5) by simp
  have sp: "32 \<notin> set (bytes ''ssid'')" by simp
  from update_ssid_new [OF assms(3,4,7,8,9)] obtain d1
    where d1: "wpa_supplicant_ctrl_iface_update_network network_fields (\<lambda>_. True) (\<lambda>_. True) (bytes ''ssid'') (34 # ?x @ [34]) s d = Ret (0, d1)"
      "nets (conf d1) = ns @ [s\<lparr>net_ssid := Some ?x, was_recently_reconfigured := True\<rparr>]" by blast
  from set_network_split [OF assms(6) sp get d1(1)] obtain d2 where "wpa_supplicant_ctrl_iface_set_network network_fields (\<lambda>_. True) (\<lambda>_. True)
      (bytes nid @ 32 # bytes ''ssid'' @ 32 # 34 # ?x @ [34]) d = Ret (0, d2)" "conf d2 = conf d1" by blast
  with process_set [OF this(1)] d1(2) show ?thesis unfolding set_ssid_text(1) [OF assms(1,2)] by simp
qed

lemma psk_processed:
  assumes "quote_laws quote" "plain (bytes pw)" "passphrase_ok (bytes pw)"
    and "nets (conf d) = ns @ [s]" "net_id s \<notin> net_id ` set ns" "atoi (bytes nid) = net_id s" "32 \<notin> set (bytes nid)"
    and "net_ssid s = Some x" "x \<noteq> []" "length x \<le> 32" "net_passphrase s = None" "pbkdf2_sha1 (bytes pw) x 4096 32 = Ret k"
  shows "\<exists>d1. process_network network_fields (bytes (cmd_text quote (SetPsk nid pw))) d = Some (Ret (bytes ''OK'' @ [10], d1)) \<and>
    nets (conf d1) = ns @ [s\<lparr>net_passphrase := Some (bytes pw), net_psk := k, net_psk_set := True, was_recently_reconfigured := True\<rparr>]"
proof -
  let ?p = "bytes pw"
  have get: "wpa_config_get_network (conf d) (atoi (bytes nid)) = Some s" using get_last(1) [OF assms(4,5)] assms(6) by simp
  have sp: "32 \<notin> set (bytes ''psk'')" by simp
  have print: "\<forall>b \<in> set ?p. 32 \<le> b \<and> b \<le> 126" using assms(2) by (simp add: plain_def list_all_iff)
  have cmd: "bytes (cmd_text quote (SetPsk nid pw)) = bytes ''SET_NETWORK '' @ bytes nid @ 32 # bytes ''psk'' @ 32 # 34 # ?p @ [34]"
    using set_ssid_text(2) [OF assms(1) print, of nid] plain_escaped [OF assms(2)] by simp
  from update_psk_new [OF assms(4,5,8,9,10,11,3,12)] obtain d1
    where d1: "wpa_supplicant_ctrl_iface_update_network network_fields (\<lambda>_. True) (\<lambda>_. True) (bytes ''psk'') (34 # ?p @ [34]) s d = Ret (0, d1)"
      "nets (conf d1) = ns @ [s\<lparr>net_passphrase := Some ?p, net_psk := k, net_psk_set := True, was_recently_reconfigured := True\<rparr>]" by blast
  from set_network_split [OF assms(7) sp get d1(1)] obtain d2 where "wpa_supplicant_ctrl_iface_set_network network_fields (\<lambda>_. True) (\<lambda>_. True)
      (bytes nid @ 32 # bytes ''psk'' @ 32 # 34 # ?p @ [34]) d = Ret (0, d2)" "conf d2 = conf d1" by blast
  with process_set [OF this(1)] d1(2) show ?thesis unfolding cmd by simp
qed

text \<open>
  C22. The name of a network reaches wpa\_supplicant exactly when it needs no escapes. The panel
  shows the name of a network as wpa\_supplicant prints it, and names a new network by the text it
  shows: afterwards the network has the name it was shown for if and only if every byte of the name
  is printable and neither a quote nor a backslash.
\<close>

theorem ssid_reaches_network:
  assumes "quote_laws quote" "length ssid \<le> 32" "wpa_ssid_txt (Some ssid) = Ret t"
    and "nets (conf d) = ns @ [s]" "net_id s \<notin> net_id ` set ns" "net_ssid s = None" "net_passphrase s = None"
    and "atoi (bytes nid) = net_id s" "32 \<notin> set (bytes nid)"
  shows "\<exists>reply d1 s1. process_network network_fields (bytes (cmd_text quote (SetSsid nid (chars t)))) d = Some (Ret (reply, d1)) \<and>
    nets (conf d1) = ns @ [s1] \<and> net_id s1 = net_id s \<and> (net_ssid s1 = Some ssid \<longleftrightarrow> plain ssid)"
proof -
  let ?x = "concat (map escaped_byte t)"
  note shown = name_shown(2) [OF assms(2,3)]
  show ?thesis
  proof (cases "length ?x \<le> 32")
    case True
    from ssid_processed [OF assms(1) shown assms(4,5,8,9,6,7) True] name_sent [OF assms(2,3)] show ?thesis by auto
  next
    case False
    then have "32 < length ?x" by simp
    have get: "wpa_config_get_network (conf d) (atoi (bytes nid)) = Some s" using get_last(1) [OF assms(4,5)] assms(8) by simp
    have sp: "32 \<notin> set (bytes ''ssid'')" by simp
    from update_ssid_long [OF assms(4,5) \<open>32 < length ?x\<close>] obtain d1
      where d1: "wpa_supplicant_ctrl_iface_update_network network_fields (\<lambda>_. True) (\<lambda>_. True) (bytes ''ssid'') (34 # ?x @ [34]) s d = Ret (-1, d1)"
        "nets (conf d1) = ns @ [s\<lparr>was_recently_reconfigured := True\<rparr>]" by blast
    from set_network_split [OF assms(9) sp get d1(1)] obtain d2 where d2: "wpa_supplicant_ctrl_iface_set_network network_fields (\<lambda>_. True) (\<lambda>_. True)
        (bytes nid @ 32 # bytes ''ssid'' @ 32 # 34 # ?x @ [34]) d = Ret (-1, d2)" "conf d2 = conf d1" by blast
    have "\<not> plain ssid" using False assms(2) name_sent [OF assms(2,3)] by auto
    with process_set [OF d2(1)] d2(2) d1(2) assms(6) show ?thesis
      unfolding set_ssid_text(1) [OF assms(1) shown] by auto
  qed
qed

text \<open>A format that keeps the laws, and a daemon with one network.\<close>

definition sample_quote :: "string \<Rightarrow> string" where
  "sample_quote s = [CHR 0x22] @ concat (map escaped s) @ [CHR 0x22]"

lemma sample_quote_laws: "quote_laws sample_quote"
  by (simp add: quote_laws_def sample_quote_def)

definition sample_wpa :: wpa_s where
  "sample_wpa = \<lparr>conf = \<lparr>nets = [zero_ssid], pssid = [[0]]\<rparr>, current_ssid = None, wpa_completed = False, made = []\<rparr>"

theorem ssid_reaches_network_witness:
  "\<exists>reply d1 s1. process_network network_fields
      (bytes (cmd_text sample_quote (SetSsid ''0'' (chars [67, 97, 102, 92, 120, 99, 51, 92, 120, 97, 57])))) sample_wpa = Some (Ret (reply, d1)) \<and>
    nets (conf d1) = [s1] \<and> net_ssid s1 \<noteq> Some [67, 97, 102, 0xc3, 0xa9]"
proof -
  have t: "wpa_ssid_txt (Some [67, 97, 102, 0xc3, 0xa9]) = Ret [67, 97, 102, 92, 120, 99, 51, 92, 120, 97, 57]"
    "atoi (bytes ''0'') = net_id zero_ssid" by code_simp+
  have n: "nets (conf sample_wpa) = [] @ [zero_ssid]" by (simp add: sample_wpa_def)
  have "\<not> plain [67, 97, 102, 0xc3, 0xa9]" by code_simp
  moreover have "length [67, 97, 102, 0xc3, 0xa9 :: u8] \<le> 32" "net_id zero_ssid \<notin> net_id ` set []" "net_ssid zero_ssid = None"
    "net_passphrase zero_ssid = None" "32 \<notin> set (bytes ''0'')" by (simp_all add: zero_ssid_def)
  ultimately show ?thesis
    using ssid_reaches_network [OF sample_quote_laws _ t(1) n _ _ _ t(2)] by auto
qed

lemma new_id_line:
  assumes "0 \<le> n" "n < 2 ^ 31"
  shows "strip_newlines (chars (bytes (show_int n) @ [10])) = show_int n" "show_int n \<noteq> []"
proof -
  show ne: "show_int n \<noteq> []" using assms(1) show_nat_nonempty by (simp add: show_int_def)
  then have "byte (last (show_int n)) \<in> set (bytes (show_int n))" by simp
  then have "byte (last (show_int n)) \<noteq> 10" "byte (last (show_int n)) \<noteq> 13"
    using atoi_show(3,4) [OF assms] by fastforce+
  then have "last (show_int n) \<noteq> CHR 0x0A" "last (show_int n) \<noteq> CHR 0x0D" by auto
  moreover have "chars (bytes (show_int n) @ [10]) = show_int n @ [CHR 0x0A]"
    using chars_bytes [of "show_int n"] chars_bytes [of "[CHR 0x0A]"] by (simp add: chars_def)
  ultimately show "strip_newlines (chars (bytes (show_int n) @ [10])) = show_int n"
    using ne strip_newlines_line [of "show_int n"] by auto
qed

lemma connect_commands:
  assumes "map_of (list_networks w) (selected_network w) = None" "strip_newlines (fst (send (daemon w) AddNetwork)) = nid" "nid \<noteq> []"
  shows "wifi.commands (connect send pw w) = wifi.commands w @ [AddNetwork, SetSsid nid (selected_network w), SetPsk nid pw,
    EnableNetwork nid, SelectNetwork nid, SaveConfig]"
  using assms by (simp add: connect_def ask_def tell_def case_prod_beta Let_def)


definition sample_panel :: "unit wifi" where
  "sample_panel = \<lparr>selected_network = ''home'', cur_network = [], list_networks = [], wifi_name_db = [],
     daemon = (), wifi.commands = [], uis = []\<rparr>"

definition sample_send :: "unit answers" where
  "sample_send d c = (''1'' @ [CHR 0x0A], d)"


end
